(* ===== verification/Prelude.thy ===== *)
theory Prelude imports
  Main
  "HOL-Library.Word"
  "HOL-Library.Sublist"
begin

text \<open>
  Shared vocabulary of the development: the machine integers of the C code, C results as sums,
  the state and error monad in which the I/O components are written, and the generic lemmas and
  proof rules about them.

  A C function that returns 0 or -1 and stores a message in an \<open>error_str\<close> field is a function
  of type \<open>('s, 'a) prog\<close>: \<open>Inr v\<close> is "returned 0, with out-parameter \<open>v\<close>", \<open>Inl Failed\<close> is
  "returned -1", the other constructors of \<open>error\<close> are runs whose behaviour C stops defining
  (a failed \<open>assert\<close>, a write outside an object, a null dereference), and \<open>None\<close> is a call that
  never returns (a polling loop that is never satisfied).
\<close>

unbundle bit_operations_syntax

section \<open>Machine integers\<close>

type_synonym u8 = "8 word"
type_synonym u16 = "16 word"
type_synonym u32 = "32 word"
type_synonym u64 = "64 word"

text \<open>Subtraction of two \<open>size_t\<close> values, which wraps below zero.\<close>

definition size_sub :: "nat \<Rightarrow> nat \<Rightarrow> nat" where
  "size_sub a b = (if b \<le> a then a - b else a + 2 ^ 64 - b)"

lemma size_sub_le [simp]: "b \<le> a \<Longrightarrow> size_sub a b = a - b"
  by (simp add: size_sub_def)

lemma unat_u8_less: "unat (b :: u8) < 256"
  using unsigned_less [of b] by simp

lemma unat_u16_less: "unat (w :: u16) < 65536"
  using unsigned_less [of w] by simp

lemma unat_ucast_u16 [simp]: "unat (ucast (b :: u8) :: u16) = unat b"
proof -
  have "unat b < 2 ^ 16"
    using unat_u8_less [of b] by (rule less_trans) simp
  then show ?thesis
    by (simp add: unsigned_ucast_eq take_bit_nat_eq_self)
qed

lemma eq_of_nat_unat: "unat (w :: 'a::len word) = n \<Longrightarrow> w = of_nat n"
  by auto

lemma unat_ucast_wider:
  "LENGTH('a::len) \<le> LENGTH('b::len) \<Longrightarrow> unat (ucast (w :: 'a word) :: 'b word) = unat w"
  by (simp add: unsigned_ucast_eq take_bit_nat_eq_self unsigned_less [THEN less_le_trans])

lemma unat_of_nat_u8: "k < 256 \<Longrightarrow> unat (of_nat k :: u8) = k"
  by (simp add: unat_of_nat)

lemma unat_and_le: "unat (x AND y) \<le> unat (y :: 'a::len word)"
  by (rule word_and_le1 [THEN word_le_nat_alt [THEN iffD1]])

lemma unat_pred:
  fixes w :: "'a::len word"
  assumes "0 < unat w" and "w \<noteq> 1"
  shows "unat (w - 1) = unat w - 1" and "1 < unat w"
proof -
  show "unat (w - 1) = unat w - 1"
    using assms by (intro unat_minus_one) auto
  have "unat w \<noteq> 1"
    using assms(2) by (metis unat_1 word_unat_eq_iff)
  then show "1 < unat w"
    using assms(1) by simp
qed

lemma word_minus_of_nat:
  fixes w :: "'a::len word"
  assumes "n < unat w"
  shows "w - of_nat n \<noteq> 0"
proof
  assume "w - of_nat n = 0"
  then have "unat w = n mod 2 ^ LENGTH('a)"
    by (simp add: unat_of_nat)
  then show False
    using assms mod_less_eq_dividend [of n "2 ^ LENGTH('a)"] by simp
qed

lemma unat_minus_of_nat:
  fixes w :: "'a::len word"
  assumes "n \<le> unat w"
  shows "unat (w - of_nat n) = unat w - n"
proof -
  have "n < 2 ^ LENGTH('a)"
    using assms unsigned_less [where 'a = nat, of w] by linarith
  then have "unat (of_nat n :: 'a word) = n"
    by (simp add: unat_of_nat)
  then show ?thesis
    using assms by (simp add: unat_sub word_le_nat_alt)
qed

lemma word_minus_unat: "unat (w :: 'a::len word) = n \<Longrightarrow> w - of_nat n = 0"
  by auto

lemma take_bit_unat_less: "unat (w :: 'a::len word) < 2 ^ n \<Longrightarrow> take_bit n w = w"
  by (simp add: word_unat_eq_iff unsigned_take_bit_eq take_bit_nat_eq_self)

lemma unat_take_bit_less: "unat (take_bit n w :: 'a::len word) < 2 ^ n"
  by (simp add: unsigned_take_bit_eq)

lemma unat_or_less:
  fixes v w :: "'a::len word"
  assumes "unat v < 2 ^ n" and "unat w < 2 ^ n"
  shows "unat (v OR w) < 2 ^ n"
proof -
  have "v OR w = take_bit n (v OR w)"
    using assms by (simp add: take_bit_unat_less)
  then show ?thesis
    using unat_take_bit_less [of n "v OR w"] by simp
qed

text \<open>A 32-bit word and its bytes.\<close>

lemma ucast_and_ff: "ucast (w AND 0xFF) = (ucast w :: u8)" for w :: u32
proof -
  have m: "(0xFF :: u32) = mask 8"
    by (simp add: mask_eq_exp_minus_1)
  show ?thesis
    unfolding m by (auto intro!: bit_word_eqI simp: bit_simps)
qed

lemma u32_join_bytes:
  "push_bit 24 (ucast (ucast (drop_bit 24 v) :: u8)) OR push_bit 16 (ucast (ucast (drop_bit 16 v) :: u8)) OR
     push_bit 8 (ucast (ucast (drop_bit 8 v) :: u8)) OR ucast (ucast v :: u8) = (v :: u32)" (is "?l = v")
proof (rule bit_word_eqI)
  fix n
  assume "n < LENGTH(32)"
  then consider "n < 8" | "8 \<le> n" "n < 16" | "16 \<le> n" "n < 24" | "24 \<le> n" "n < 32"
    by fastforce
  then show "bit ?l n = bit v n"
    by cases (simp_all add: bit_simps, auto)
qed

section \<open>Byte buffers\<close>

text \<open>
  \<open>memcpy_at dst off src\<close> is \<open>memcpy(dst + off, src, n)\<close>; \<open>None\<close> when the copy does not stay
  inside the destination object.
\<close>

definition memcpy_at :: "'a list \<Rightarrow> nat \<Rightarrow> 'a list \<Rightarrow> 'a list option" where
  "memcpy_at dst off src =
     (if off + length src \<le> length dst
      then Some (take off dst @ src @ drop (off + length src) dst)
      else None)"

lemma memcpy_at_length: "memcpy_at dst off src = Some d \<Longrightarrow> length d = length dst"
  by (auto simp: memcpy_at_def split: if_splits)

lemma memcpy_at_SomeI:
  "off + length src \<le> length dst \<Longrightarrow>
   memcpy_at dst off src = Some (take off dst @ src @ drop (off + length src) dst)"
  by (simp add: memcpy_at_def)

lemma memcpy_at_None: "memcpy_at dst off src = None \<longleftrightarrow> length dst < off + length src"
  by (auto simp: memcpy_at_def)

lemma memcpy_at_Nil [simp]: "off \<le> length dst \<Longrightarrow> memcpy_at dst off [] = Some dst"
  by (simp add: memcpy_at_def)

lemma memcpy_at_append:
  "memcpy_at dst off xs = Some d \<Longrightarrow>
   memcpy_at dst off (xs @ ys) = memcpy_at d (off + length xs) ys"
  by (auto simp: memcpy_at_def ac_simps split: if_splits)

lemma drop_shorter: "drop k xs = xs \<or> length (drop k xs) < length xs"
  by (cases k; cases xs) auto

section \<open>Results\<close>

datatype error =
    Failed                 \<comment> \<open>the function returned -1\<close>
  | Assertion string       \<comment> \<open>an \<open>assert\<close> of the source failed\<close>
  | Out_of_bounds string   \<comment> \<open>an access outside the object\<close>
  | Null_pointer string    \<comment> \<open>a null pointer is used\<close>

type_synonym ('s, 'a) prog = "'s \<Rightarrow> ((error + 'a) \<times> 's) option"

definition ret :: "'a \<Rightarrow> ('s, 'a) prog" where
  "ret x = (\<lambda>s. Some (Inr x, s))"

definition throw :: "error \<Rightarrow> ('s, 'a) prog" where
  "throw e = (\<lambda>s. Some (Inl e, s))"

definition gets :: "('s \<Rightarrow> 'a) \<Rightarrow> ('s, 'a) prog" where
  "gets f = (\<lambda>s. Some (Inr (f s), s))"

definition modify :: "('s \<Rightarrow> 's) \<Rightarrow> ('s, unit) prog" where
  "modify f = (\<lambda>s. Some (Inr (), f s))"

text \<open>Sequencing: the error of the first part skips the second.\<close>

definition bindE :: "('s, 'a) prog \<Rightarrow> ('a \<Rightarrow> ('s, 'b) prog) \<Rightarrow> ('s, 'b) prog" where
  "bindE m f = (\<lambda>s. case m s of
       None \<Rightarrow> None
     | Some (Inl e, s') \<Rightarrow> Some (Inl e, s')
     | Some (Inr x, s') \<Rightarrow> f x s')"

definition thenE :: "('s, 'a) prog \<Rightarrow> ('s, 'b) prog \<Rightarrow> ('s, 'b) prog" where
  "thenE m k = bindE m (\<lambda>_. k)"

text \<open>
  \<open>onfail m h\<close>: the cleanup code behind a \<open>goto fail\<close> label. It runs only when \<open>m\<close> returned
  -1, and the result is -1 whatever the cleanup returned.
\<close>

definition onfail :: "('s, 'a) prog \<Rightarrow> ('s, 'b) prog \<Rightarrow> ('s, 'a) prog" where
  "onfail m h = (\<lambda>s. case m s of
       Some (Inl Failed, s') \<Rightarrow>
         (case h s' of
            None \<Rightarrow> None
          | Some (Inl e, s'') \<Rightarrow> Some (Inl e, s'')
          | Some (Inr _, s'') \<Rightarrow> Some (Inl Failed, s''))
     | r \<Rightarrow> r)"

text \<open>\<open>ignore m\<close>: the call's return code is not looked at.\<close>

definition ignore :: "('s, 'a) prog \<Rightarrow> ('s, unit) prog" where
  "ignore m = (\<lambda>s. case m s of
       Some (Inl Failed, s') \<Rightarrow> Some (Inr (), s')
     | Some (Inl e, s') \<Rightarrow> Some (Inl e, s')
     | Some (Inr _, s') \<Rightarrow> Some (Inr (), s')
     | None \<Rightarrow> None)"

lemmas monad_defs = ret_def throw_def gets_def modify_def bindE_def thenE_def onfail_def ignore_def

lemma bindE_ret [simp]: "bindE (ret x) f = f x"
  by (simp add: monad_defs)

lemma bindE_throw [simp]: "bindE (throw e) f = throw e"
  by (simp add: monad_defs fun_eq_iff)

lemma bindE_assoc: "bindE (bindE m f) g = bindE m (\<lambda>x. bindE (f x) g)"
  by (auto simp: bindE_def fun_eq_iff split: option.splits prod.splits sum.splits)

lemma bindE_Some:
  "bindE m f s = Some (r, s') \<longleftrightarrow>
     (\<exists>e. m s = Some (Inl e, s') \<and> r = Inl e) \<or>
     (\<exists>x s1. m s = Some (Inr x, s1) \<and> f x s1 = Some (r, s'))"
  by (auto simp: bindE_def split: option.splits prod.splits sum.splits)

end
