(* ===== verification/Platform.thy ===== *)
theory Platform imports
  Prelude
begin

text \<open>
  The libraries under the code: libftdi, libusb, libzip, the allocator and the clock.  None of them
  is in the repository, so they are a parameter: an environment \<open>env\<close> that answers every call,
  knowing all calls and answers before it.  A C function is a program over a state that consists
  of its object and of this history; the theorems therefore speak of all devices, and of what the
  code has said to them.

  Second part: the proof rules of the development for such programs, as a locale over a relation
  between the states before and after, and the theory of scripts, that is of the straight-line code
  \<open>if (call(...) < 0) { error_str = ...; goto fail; }\<close> that configures the hardware.
\<close>

section \<open>Calls and answers\<close>

text \<open>The two interfaces of the FTDI chip: \<open>cha\<close> uses A and \<open>chb\<close> uses B.\<close>

datatype channel = INTERFACE_A | INTERFACE_B

datatype bitmode = BITMODE_RESET | BITMODE_BITBANG | BITMODE_MPSSE | BITMODE_SYNCFF

text \<open>MPSSE commands, whose op codes are constants of libftdi.\<close>

datatype mpsse = TCK_DIVISOR | SET_BITS_LOW | SET_BITS_HIGH | GET_BITS_LOW | GET_BITS_HIGH

datatype call =
    Ftdi_init channel
  | Ftdi_set_interface channel channel
  | Ftdi_deinit channel
  | Ftdi_usb_open channel u16 u16
  | Ftdi_usb_close channel
  | Ftdi_usb_reset channel
  | Ftdi_set_event_char channel u8 u8
  | Ftdi_set_error_char channel u8 u8
  | Ftdi_setflowctrl_rts_cts channel
  | Ftdi_set_bitmode channel u8 bitmode
  | Ftdi_set_baudrate channel nat
  | Ftdi_tcioflush channel
  | Ftdi_write_data channel "u8 list"
  | Ftdi_read_data channel nat
  | Ftdi_write_data_submit channel "u8 list"
  | Ftdi_transfer_data_done channel "u8 list"
  | Libusb_alloc_transfer
  | Libusb_free_transfer nat
  | Zip_open string
  | Zip_source_buffer_create
  | Zip_open_from_source
  | Zip_name_locate string
  | Zip_stat_index u64
  | Zip_fopen_index u64
  | Zip_fread nat
  | Zip_fclose
  | Zip_discard
  | Malloc nat
  | Free
  | Msleep nat

text \<open>
  \<open>r_ret\<close> is the return value (for a call that returns a pointer, 0 is \<open>NULL\<close>), \<open>r_bytes\<close> the data
  that a read delivers, \<open>r_size\<close> the size field of \<open>zip_stat\<close> if it is valid.
\<close>

record reply =
  r_ret :: int
  r_bytes :: "u8 list"
  r_size :: "u64 option"

type_synonym history = "(call \<times> reply) list"

record env =
  respond :: "history \<Rightarrow> call \<Rightarrow> reply"
  errtext :: "history \<Rightarrow> string"
  opcode :: "mpsse \<Rightarrow> u8"
  out_packet_size :: nat

record 'c st =
  obj :: 'c
  hist :: history

text \<open>One call to a library.\<close>

definition perform :: "env \<Rightarrow> call \<Rightarrow> ('c st, reply) prog" where
  "perform env c = (\<lambda>s. let r = respond env (hist s) c in Some (Inr r, s\<lparr>hist := hist s @ [(c, r)]\<rparr>))"

definition call_void :: "env \<Rightarrow> call \<Rightarrow> ('c st, unit) prog" where
  "call_void env c = bindE (perform env c) (\<lambda>_. ret ())"

definition modify_obj :: "('c \<Rightarrow> 'c) \<Rightarrow> ('c st, unit) prog" where
  "modify_obj f = modify (\<lambda>s. s\<lparr>obj := f (obj s)\<rparr>)"

definition gets_obj :: "('c \<Rightarrow> 'a) \<Rightarrow> ('c st, 'a) prog" where
  "gets_obj f = gets (\<lambda>s. f (obj s))"

text \<open>
  \<open>obj->error_str = msg; return -1;\<close> and the same with \<open>ftdi_get_error_string()\<close>; \<open>se\<close> stores the
  string in the object.
\<close>

definition fail_str :: "(string \<Rightarrow> 'c \<Rightarrow> 'c) \<Rightarrow> string \<Rightarrow> ('c st, 'a) prog" where
  "fail_str se msg = thenE (modify_obj (se msg)) (throw Failed)"

definition fail_lib :: "env \<Rightarrow> (string \<Rightarrow> 'c \<Rightarrow> 'c) \<Rightarrow> ('c st, 'a) prog" where
  "fail_lib env se = (\<lambda>s. fail_str se (errtext env (hist s)) s)"

text \<open>\<open>if (call(...) < 0) { obj->error_str = ftdi_get_error_string(...); goto fail; }\<close>\<close>

definition checked :: "env \<Rightarrow> (string \<Rightarrow> 'c \<Rightarrow> 'c) \<Rightarrow> call \<Rightarrow> ('c st, reply) prog" where
  "checked env se c =
     bindE (perform env c) (\<lambda>r. if r_ret r < 0 then fail_lib env se else ret r)"

definition do_checked :: "env \<Rightarrow> (string \<Rightarrow> 'c \<Rightarrow> 'c) \<Rightarrow> call \<Rightarrow> ('c st, unit) prog" where
  "do_checked env se c = bindE (checked env se c) (\<lambda>_. ret ())"

text \<open>
  \<open>ftdi_read_data(ftdi, buf, n)\<close> puts at most \<open>n\<close> bytes into \<open>buf\<close> and returns their number; the
  result is the bytes.
\<close>

definition read_data :: "env \<Rightarrow> (string \<Rightarrow> 'c \<Rightarrow> 'c) \<Rightarrow> channel \<Rightarrow> nat \<Rightarrow> ('c st, u8 list) prog" where
  "read_data env se ch n =
     bindE (checked env se (Ftdi_read_data ch n)) (\<lambda>r. ret (take n (r_bytes r)))"

text \<open>A sequence of steps, each of which returns from the function if it fails.\<close>

fun seqE :: "('s, unit) prog list \<Rightarrow> ('s, unit) prog" where
  "seqE [] = ret ()"
| "seqE (m # ms) = thenE m (seqE ms)"

text \<open>A component inside a larger object.\<close>

definition zoom :: "('o \<Rightarrow> 'c) \<Rightarrow> ('c \<Rightarrow> 'o \<Rightarrow> 'o) \<Rightarrow> ('c st, 'a) prog \<Rightarrow> ('o st, 'a) prog" where
  "zoom g p m = (\<lambda>s. case m \<lparr>obj = g (obj s), hist = hist s\<rparr> of
       None \<Rightarrow> None
     | Some (r, s') \<Rightarrow> Some (r, \<lparr>obj = p (obj s') (obj s), hist = hist s'\<rparr>))"

lemmas platform_defs = perform_def call_void_def modify_obj_def gets_obj_def fail_str_def fail_lib_def
  checked_def do_checked_def read_data_def

section \<open>Rules for programs\<close>

text \<open>
  \<open>always P m\<close>: every run of \<open>m\<close> that ends is related by \<open>P\<close>: start state, result, end state.
\<close>

definition always :: "('s \<Rightarrow> error + 'a \<Rightarrow> 's \<Rightarrow> bool) \<Rightarrow> ('s, 'a) prog \<Rightarrow> bool" where
  "always P m \<longleftrightarrow> (\<forall>s r s'. m s = Some (r, s') \<longrightarrow> P s r s')"

lemma alwaysI: "(\<And>s r s'. m s = Some (r, s') \<Longrightarrow> P s r s') \<Longrightarrow> always P m"
  by (simp add: always_def)

lemma alwaysD: "always P m \<Longrightarrow> m s = Some (r, s') \<Longrightarrow> P s r s'"
  by (simp add: always_def)

text \<open>
  A contract for programs: a relation between the states before and after that is reflexive and
  transitive, and the claim that a failure satisfies \<open>F\<close>, in all later states too.
\<close>

locale contract =
  fixes R :: "'s \<Rightarrow> 's \<Rightarrow> bool" and F :: "error \<Rightarrow> 's \<Rightarrow> bool"
  assumes refl: "R s s"
    and trans: "R s t \<Longrightarrow> R t u \<Longrightarrow> R s u"
    and later: "F e t \<Longrightarrow> R t u \<Longrightarrow> F e u"
begin

definition keeps :: "('s, 'a) prog \<Rightarrow> bool" where
  "keeps m \<longleftrightarrow> always (\<lambda>s r s'. R s s' \<and> (\<forall>e. r = Inl e \<longrightarrow> F e s')) m"

lemma keepsI:
  "(\<And>s r s'. m s = Some (r, s') \<Longrightarrow> R s s' \<and> (\<forall>e. r = Inl e \<longrightarrow> F e s')) \<Longrightarrow> keeps m"
  by (simp add: keeps_def always_def)

lemma keepsD:
  assumes "keeps m" and "m s = Some (r, s')"
  shows "R s s'" and "r = Inl e \<Longrightarrow> F e s'"
  using assms by (auto simp: keeps_def always_def)

lemma keeps_ret: "keeps (ret x)"
  by (simp add: keeps_def always_def ret_def refl)

lemma keeps_gets: "keeps (gets f)"
  by (simp add: keeps_def always_def gets_def refl)

lemma keeps_modify: "(\<And>s. R s (f s)) \<Longrightarrow> keeps (modify f)"
  by (simp add: keeps_def always_def modify_def)

lemma keeps_bindE:
  assumes "keeps m" and "\<And>x. keeps (f x)"
  shows "keeps (bindE m f)"
proof (rule keepsI)
  fix s r s'
  assume "bindE m f s = Some (r, s')"
  then consider e where "m s = Some (Inl e, s')" "r = Inl e"
    | x s1 where "m s = Some (Inr x, s1)" "f x s1 = Some (r, s')"
    unfolding bindE_Some by blast
  then show "R s s' \<and> (\<forall>e. r = Inl e \<longrightarrow> F e s')"
  proof cases
    case 1
    then show ?thesis
      using keepsD [OF assms(1)] by auto
  next
    case 2
    then show ?thesis
      using keepsD [OF assms(1) 2(1)] keepsD [OF assms(2) 2(2)] trans by blast
  qed
qed

lemma keeps_thenE: "keeps m \<Longrightarrow> keeps k \<Longrightarrow> keeps (thenE m k)"
  by (simp add: thenE_def keeps_bindE)

lemma keeps_seqE: "list_all keeps ms \<Longrightarrow> keeps (seqE ms)"
  by (induction ms) (simp_all add: keeps_ret keeps_thenE)

lemma keeps_if: "(b \<Longrightarrow> keeps m) \<Longrightarrow> (\<not> b \<Longrightarrow> keeps k) \<Longrightarrow> keeps (if b then m else k)"
  by simp

lemma keeps_onfail:
  assumes "keeps m" and "keeps h"
  shows "keeps (onfail m h)"
proof (rule keepsI)
  fix s r s'
  assume run: "onfail m h s = Some (r, s')"
  then obtain rm sm where m: "m s = Some (rm, sm)"
    by (cases "m s") (auto simp: onfail_def)
  note rm = keepsD [OF assms(1) m]
  show "R s s' \<and> (\<forall>e. r = Inl e \<longrightarrow> F e s')"
  proof (cases "rm = Inl Failed")
    case True
    then obtain rh where h: "h sm = Some (rh, s')" "r = Inl (case rh of Inl e \<Rightarrow> e | Inr _ \<Rightarrow> Failed)"
      using run m by (auto simp: onfail_def split: option.splits sum.splits)
    then show ?thesis
      using keepsD [OF assms(2) h(1)] rm True trans later by (cases rh) auto
  next
    case False
    then have "r = rm" "s' = sm"
      using run m by (auto simp: onfail_def split: sum.splits error.splits)
    then show ?thesis
      using rm by simp
  qed
qed

lemma keeps_ignore:
  assumes "keeps m"
  shows "keeps (ignore m)"
proof (rule keepsI)
  fix s r s'
  assume run: "ignore m s = Some (r, s')"
  then obtain rm where m: "m s = Some (rm, s')"
    by (cases "m s") (auto simp: ignore_def split: sum.splits error.splits)
  then show "R s s' \<and> (\<forall>e. r = Inl e \<longrightarrow> F e s')"
    using run keepsD [OF assms m] by (auto simp: ignore_def split: sum.splits error.splits)
qed

lemmas keeps_intros = keeps_ret keeps_gets keeps_bindE keeps_thenE keeps_if keeps_onfail keeps_ignore

end

section \<open>Rules for the calls\<close>

lemma perform_run [simp]:
  "perform env c s = Some (Inr (respond env (hist s) c), s\<lparr>hist := hist s @ [(c, respond env (hist s) c)]\<rparr>)"
  by (simp add: perform_def Let_def)

lemma call_void_run [simp]:
  "call_void env c s = Some (Inr (), s\<lparr>hist := hist s @ [(c, respond env (hist s) c)]\<rparr>)"
  by (simp add: call_void_def bindE_def ret_def)

lemma fail_lib_run [simp]:
  "fail_lib env se s = Some (Inl Failed, s\<lparr>obj := se (errtext env (hist s)) (obj s)\<rparr>)"
  by (simp add: fail_lib_def fail_str_def modify_obj_def monad_defs)

lemma fail_str_run [simp]: "fail_str se msg s = Some (Inl Failed, s\<lparr>obj := se msg (obj s)\<rparr>)"
  by (simp add: fail_str_def modify_obj_def monad_defs)

lemma modify_obj_run [simp]: "modify_obj f s = Some (Inr (), s\<lparr>obj := f (obj s)\<rparr>)"
  by (simp add: modify_obj_def monad_defs)

lemma gets_obj_run [simp]: "gets_obj f s = Some (Inr (f (obj s)), s)"
  by (simp add: gets_obj_def monad_defs)

lemma ret_run [simp]: "ret x s = Some (Inr x, s)"
  by (simp add: ret_def)

lemma throw_run [simp]: "throw e s = Some (Inl e, s)"
  by (simp add: throw_def)

text \<open>
  The history and the result of one call; \<open>after env c h\<close> is the history after it.
\<close>

definition after :: "env \<Rightarrow> call \<Rightarrow> history \<Rightarrow> history" where
  "after env c h = h @ [(c, respond env h c)]"

lemma checked_run:
  "checked env se c s =
     (let h = after env c (hist s)
      in if r_ret (respond env (hist s) c) < 0
         then Some (Inl Failed, s\<lparr>hist := h, obj := se (errtext env h) (obj s)\<rparr>)
         else Some (Inr (respond env (hist s) c), s\<lparr>hist := h\<rparr>))"
  by (simp add: checked_def bindE_def after_def Let_def)

lemma do_checked_run:
  "do_checked env se c s =
     (let h = after env c (hist s)
      in if r_ret (respond env (hist s) c) < 0
         then Some (Inl Failed, s\<lparr>hist := h, obj := se (errtext env h) (obj s)\<rparr>)
         else Some (Inr (), s\<lparr>hist := h\<rparr>))"
  by (simp add: do_checked_def checked_run bindE_def Let_def)

lemma read_data_run:
  "read_data env se ch n s =
     (let r = respond env (hist s) (Ftdi_read_data ch n); h = after env (Ftdi_read_data ch n) (hist s)
      in if r_ret r < 0
         then Some (Inl Failed, s\<lparr>hist := h, obj := se (errtext env h) (obj s)\<rparr>)
         else Some (Inr (take n (r_bytes r)), s\<lparr>hist := h\<rparr>))"
  by (simp add: read_data_def checked_run bindE_def Let_def)

text \<open>Running a program inside a larger object.\<close>

lemma zoom_run:
  assumes "m \<lparr>obj = g (obj s), hist = hist s\<rparr> = Some (r, s')"
  shows "zoom g p m s = Some (r, \<lparr>obj = p (obj s') (obj s), hist = hist s'\<rparr>)"
  using assms by (simp add: zoom_def)

section \<open>Scripts\<close>

text \<open>
  Calls made one after the other until one fails: how many succeeded is the length of the result
  minus one, or all of them did.
\<close>

fun script :: "env \<Rightarrow> call list \<Rightarrow> history \<Rightarrow> bool \<times> history" where
  "script env [] h = (True, h)"
| "script env (c # cs) h =
     (if r_ret (respond env h c) < 0 then (False, after env c h) else script env cs (after env c h))"

lemma script_append:
  "script env (cs @ ds) h =
     (case script env cs h of (True, h') \<Rightarrow> script env ds h' | (False, h') \<Rightarrow> (False, h'))"
  by (induction cs arbitrary: h) auto

lemma seqE_append: "seqE (ms @ ns) = thenE (seqE ms) (seqE ns)"
  by (induction ms) (simp_all only: append_Nil append_Cons seqE.simps thenE_def bindE_ret bindE_assoc)

lemma seqE_script:
  "seqE (map (do_checked env se) cs) s =
     (case script env cs (hist s) of
        (True, h) \<Rightarrow> Some (Inr (), s\<lparr>hist := h\<rparr>)
      | (False, h) \<Rightarrow> Some (Inl Failed, s\<lparr>hist := h, obj := se (errtext env h) (obj s)\<rparr>))"
proof (induction cs arbitrary: s)
  case Nil
  then show ?case
    by simp
next
  case (Cons c cs)
  then show ?case
    by (simp add: thenE_def bindE_def do_checked_run Let_def split: prod.split bool.split)
qed

text \<open>
  What the device has seen of a script: a prefix of it, all calls of which but the last succeeded;
  and all of it exactly if the script ended well.
\<close>

lemma script_prefix:
  assumes "script env cs h = (b, h')"
  shows "\<exists>k es. h' = h @ es \<and> map fst es = take k cs \<and> k \<le> length cs \<and>
    list_all (\<lambda>e. 0 \<le> r_ret (snd e)) (if b then es else butlast es) \<and>
    (if b then k = length cs else es \<noteq> [] \<and> r_ret (snd (last es)) < 0)"
  using assms
proof (induction cs arbitrary: h)
  case Nil
  then show ?case
    by (intro exI [of _ 0] exI [of _ "[]"]) simp
next
  case (Cons c cs)
  let ?r = "respond env h c"
  show ?case
  proof (cases "r_ret ?r < 0")
    case True
    then have "h' = h @ [(c, ?r)]" "b = False"
      using Cons.prems by (simp_all add: after_def)
    then show ?thesis
      using True by (intro exI [of _ 1] exI [of _ "[(c, ?r)]"]) simp
  next
    case False
    then have "script env cs (h @ [(c, ?r)]) = (b, h')"
      using Cons.prems by (simp add: after_def)
    then obtain k es where IH: "h' = (h @ [(c, ?r)]) @ es" "map fst es = take k cs" "k \<le> length cs"
        "list_all (\<lambda>e. 0 \<le> r_ret (snd e)) (if b then es else butlast es)"
        "if b then k = length cs else es \<noteq> [] \<and> r_ret (snd (last es)) < 0"
      using Cons.IH [of "h @ [(c, ?r)]"] by blast
    then show ?thesis
      using False by (intro exI [of _ "Suc k"] exI [of _ "(c, ?r) # es"]) (auto split: if_splits)
  qed
qed

lemma script_length:
  assumes "script env cs h = (b, h')"
  shows "length h' \<le> length h + length cs"
  using script_prefix [OF assms] by (auto dest: arg_cong [where f = length])

text \<open>Steps that make one call each, whether they look at its result or not.\<close>

definition makes :: "env \<Rightarrow> ('c \<Rightarrow> string option) \<Rightarrow> ('c st, unit) prog \<Rightarrow> call \<Rightarrow> bool" where
  "makes env err m c \<longleftrightarrow>
     (\<forall>s. \<exists>r s'. m s = Some (r, s') \<and> hist s' = after env c (hist s) \<and>
        (\<forall>e. r = Inl e \<longrightarrow> e = Failed \<and> err (obj s') \<noteq> None))"

lemma makes_call_void: "makes env err (call_void env c) c"
  by (simp add: makes_def after_def)

lemma makes_do_checked: "(\<And>x c. err (se x c) \<noteq> None) \<Longrightarrow> makes env err (do_checked env se c) c"
  by (auto simp: makes_def do_checked_run Let_def)

lemma seqE_makes:
  "list_all2 (makes env err) ms cs \<Longrightarrow>
   \<exists>r s' es. seqE ms s = Some (r, s') \<and> hist s' = hist s @ es \<and> length es \<le> length cs \<and>
     (r = Inr () \<longrightarrow> map fst es = cs) \<and> (\<forall>e. r = Inl e \<longrightarrow> e = Failed \<and> err (obj s') \<noteq> None)"
proof (induction ms cs arbitrary: s rule: list_all2_induct)
  case Nil
  then show ?case
    by simp
next
  case (Cons m ms c cs)
  let ?e = "(c, respond env (hist s) c)"
  obtain r1 s1 where m: "m s = Some (r1, s1)" "hist s1 = hist s @ [?e]"
      "\<And>e. r1 = Inl e \<Longrightarrow> e = Failed \<and> err (obj s1) \<noteq> None"
    using Cons.hyps(1) unfolding makes_def after_def by blast
  show ?case
  proof (cases r1)
    case (Inl e)
    then show ?thesis
      using m by (intro exI [of _ "Inl e"] exI [of _ s1] exI [of _ "[?e]"])
        (auto simp: thenE_def bindE_def)
  next
    case (Inr u)
    obtain r s' es where "seqE ms s1 = Some (r, s')" "hist s' = hist s1 @ es" "length es \<le> length cs"
        "r = Inr () \<Longrightarrow> map fst es = cs" "\<And>e. r = Inl e \<Longrightarrow> e = Failed \<and> err (obj s') \<noteq> None"
      using Cons.IH [of s1] by blast
    then show ?thesis
      using m Inr by (intro exI [of _ r] exI [of _ s'] exI [of _ "?e # es"])
        (auto simp: thenE_def bindE_def)
  qed
qed

section \<open>Failures are reported\<close>

text \<open>
  Input and output on a device that is there: the calls that neither take a resource nor give one
  back, and that do not belong to an asynchronous transfer.
\<close>

fun device_io :: "call \<Rightarrow> bool" where
  "device_io (Ftdi_set_interface _ _) = True"
| "device_io (Ftdi_usb_open _ _ _) = True"
| "device_io (Ftdi_usb_close _) = True"
| "device_io (Ftdi_usb_reset _) = True"
| "device_io (Ftdi_set_event_char _ _ _) = True"
| "device_io (Ftdi_set_error_char _ _ _) = True"
| "device_io (Ftdi_setflowctrl_rts_cts _) = True"
| "device_io (Ftdi_set_bitmode _ _ _) = True"
| "device_io (Ftdi_set_baudrate _ _) = True"
| "device_io (Ftdi_tcioflush _) = True"
| "device_io (Ftdi_write_data _ _) = True"
| "device_io (Ftdi_read_data _ _) = True"
| "device_io (Msleep _) = True"
| "device_io _ = False"

lemmas device_io_rules = device_io.simps(1-13) [THEN eqTrueE]

definition talks :: "history \<Rightarrow> history \<Rightarrow> bool" where
  "talks h h' \<longleftrightarrow> (\<exists>es. h' = h @ es \<and> list_all (\<lambda>e. device_io (fst e)) es)"

lemma talks_refl [simp]: "talks h h"
  by (simp add: talks_def)

lemma talks_trans: "talks h h' \<Longrightarrow> talks h' h'' \<Longrightarrow> talks h h''"
  by (auto simp: talks_def)

lemma talks_call [simp]: "talks h (h @ [(c, r)]) \<longleftrightarrow> device_io c"
  by (simp add: talks_def)

text \<open>
  The contract of every object with an error string: there is only input and output, a string that
  was set stays set, and a failure is a \<open>-1\<close> with the string set.
\<close>

definition reported :: "('c \<Rightarrow> string option) \<Rightarrow> 'c st \<Rightarrow> 'c st \<Rightarrow> bool" where
  "reported err s s' \<longleftrightarrow> talks (hist s) (hist s') \<and> (err (obj s) \<noteq> None \<longrightarrow> err (obj s') \<noteq> None)"

definition reports :: "('c \<Rightarrow> string option) \<Rightarrow> error \<Rightarrow> 'c st \<Rightarrow> bool" where
  "reports err e s \<longleftrightarrow> e = Failed \<and> err (obj s) \<noteq> None"

interpretation reporting: contract "reported err" "reports err" for err
  by unfold_locales (auto simp: reported_def reports_def intro: talks_trans)

lemma perform_reports: "device_io c \<Longrightarrow> reporting.keeps err (perform env c)"
  by (rule reporting.keepsI) (auto simp: reported_def)

lemma call_void_reports: "device_io c \<Longrightarrow> reporting.keeps err (call_void env c)"
  by (rule reporting.keepsI) (auto simp: reported_def)

lemma fail_str_reports: "(\<And>x c. err (se x c) \<noteq> None) \<Longrightarrow> reporting.keeps err (fail_str se msg)"
  by (rule reporting.keepsI) (auto simp: reported_def reports_def)

lemma checked_reports:
  "(\<And>x c. err (se x c) \<noteq> None) \<Longrightarrow> device_io c \<Longrightarrow> reporting.keeps err (checked env se c)"
  by (rule reporting.keepsI)
    (auto simp: reported_def reports_def checked_run after_def Let_def split: if_splits)

lemma do_checked_reports:
  "(\<And>x c. err (se x c) \<noteq> None) \<Longrightarrow> device_io c \<Longrightarrow> reporting.keeps err (do_checked env se c)"
  by (rule reporting.keepsI)
    (auto simp: reported_def reports_def do_checked_run after_def Let_def split: if_splits)

lemma read_data_reports: "(\<And>x c. err (se x c) \<noteq> None) \<Longrightarrow> reporting.keeps err (read_data env se ch n)"
  by (rule reporting.keepsI)
    (auto simp: reported_def reports_def read_data_run after_def Let_def split: if_splits)

end
