(* ===== verification/Chb.thy ===== *)
theory Chb imports
  Platform
begin

text \<open>
  \<open>src/chb.c\<close>: interface B of the FTDI chip, which drives the JTAG and configuration pins of the
  FPGA with MPSSE commands.  The record holds the error string; the FTDI context is the device.
\<close>

unbundle bit_operations_syntax

record chb =
  chb_error :: "string option"

definition set_chb_error :: "string \<Rightarrow> chb \<Rightarrow> chb" where
  "set_chb_error msg c = c\<lparr>chb_error := Some msg\<rparr>"

definition OV_VENDOR :: u16 where "OV_VENDOR = 0x1d50"
definition OV_PRODUCT :: u16 where "OV_PRODUCT = 0x607c"

definition PORTB_TCK_BIT :: u8 where "PORTB_TCK_BIT = push_bit 0 1"
definition PORTB_TDI_BIT :: u8 where "PORTB_TDI_BIT = push_bit 1 1"
definition PORTB_TMS_BIT :: u8 where "PORTB_TMS_BIT = push_bit 3 1"
definition PORTB_CSI_BIT :: u8 where "PORTB_CSI_BIT = push_bit 0 1"
definition PORTB_RDWR_BIT :: u8 where "PORTB_RDWR_BIT = push_bit 1 1"
definition PORTB_DONE_BIT :: u8 where "PORTB_DONE_BIT = push_bit 2 1"
definition PORTB_PROG_BIT :: u8 where "PORTB_PROG_BIT = push_bit 3 1"
definition PORTB_M0_BIT :: u8 where "PORTB_M0_BIT = push_bit 6 1"
definition PORTB_M1_BIT :: u8 where "PORTB_M1_BIT = push_bit 7 1"

section \<open>Operations\<close>

definition msleep :: "env \<Rightarrow> nat \<Rightarrow> ('c st, unit) prog" where
  "msleep env ms = call_void env (Msleep ms)"

definition chb_set :: "env \<Rightarrow> mpsse \<Rightarrow> u8 \<Rightarrow> u8 \<Rightarrow> (chb st, unit) prog" where
  "chb_set env cmd val msk =
     do_checked env set_chb_error (Ftdi_write_data INTERFACE_B [opcode env cmd, val, msk])"

definition chb_tck_divisor :: "env \<Rightarrow> u16 \<Rightarrow> (chb st, unit) prog" where
  "chb_tck_divisor env v = chb_set env TCK_DIVISOR (ucast (v AND 0xFF)) (ucast (drop_bit 8 v))"

definition chb_init :: "env \<Rightarrow> (chb st, unit) prog" where
  "chb_init env =
     thenE (modify_obj (\<lambda>_. \<lparr>chb_error = None\<rparr>))
     (thenE (do_checked env set_chb_error (Ftdi_init INTERFACE_B))
     (onfail (do_checked env set_chb_error (Ftdi_set_interface INTERFACE_B INTERFACE_B))
        (call_void env (Ftdi_deinit INTERFACE_B))))"

definition chb_set_low :: "env \<Rightarrow> u8 \<Rightarrow> (chb st, unit) prog" where
  "chb_set_low env val = chb_set env SET_BITS_LOW val (PORTB_TCK_BIT OR PORTB_TDI_BIT OR PORTB_TMS_BIT)"

definition chb_set_high :: "env \<Rightarrow> u8 \<Rightarrow> (chb st, unit) prog" where
  "chb_set_high env val = chb_set env SET_BITS_HIGH val
     (PORTB_CSI_BIT OR PORTB_RDWR_BIT OR PORTB_M1_BIT OR PORTB_PROG_BIT OR PORTB_M0_BIT)"

definition chb_open :: "env \<Rightarrow> (chb st, unit) prog" where
  "chb_open env =
     thenE (do_checked env set_chb_error (Ftdi_usb_open INTERFACE_B OV_VENDOR OV_PRODUCT))
     (onfail
        (seqE
          [do_checked env set_chb_error (Ftdi_usb_reset INTERFACE_B),
           do_checked env set_chb_error (Ftdi_set_event_char INTERFACE_B 0 0),
           do_checked env set_chb_error (Ftdi_set_error_char INTERFACE_B 0 0),
           do_checked env set_chb_error (Ftdi_setflowctrl_rts_cts INTERFACE_B),
           do_checked env set_chb_error (Ftdi_set_bitmode INTERFACE_B 0 BITMODE_RESET),
           do_checked env set_chb_error (Ftdi_set_bitmode INTERFACE_B 0 BITMODE_MPSSE),
           chb_tck_divisor env 0,
           chb_set_low env PORTB_TMS_BIT])
        (call_void env (Ftdi_usb_close INTERFACE_B)))"

definition chb_destroy :: "env \<Rightarrow> (chb st, unit) prog" where
  "chb_destroy env = call_void env (Ftdi_deinit INTERFACE_B)"

text \<open>
  \<open>val\<close> is what the out-parameter points to before the call: if the device answers with no byte,
  it keeps it.
\<close>

definition chb_get :: "env \<Rightarrow> u8 \<Rightarrow> mpsse \<Rightarrow> (chb st, u8) prog" where
  "chb_get env val cmd =
     thenE (do_checked env set_chb_error (Ftdi_write_data INTERFACE_B [opcode env cmd]))
     (bindE (read_data env set_chb_error INTERFACE_B 1)
        (\<lambda>bs. ret (if bs = [] then val else hd bs)))"

definition chb_get_low :: "env \<Rightarrow> u8 \<Rightarrow> (chb st, u8) prog" where
  "chb_get_low env val = chb_get env val GET_BITS_LOW"

definition chb_get_high :: "env \<Rightarrow> u8 \<Rightarrow> (chb st, u8) prog" where
  "chb_get_high env val = chb_get env val GET_BITS_HIGH"

definition chb_get_status :: "env \<Rightarrow> u8 \<Rightarrow> (chb st, u8) prog" where
  "chb_get_status env status = chb_get_high env status"

text \<open>
  The loop \<open>for (try = 3; try && (ret = ...) == 0 && (status & PORTB_DONE_BIT); --try)\<close>: the result
  is the final \<open>try\<close> and \<open>status\<close>.
\<close>

fun chb_wait_program :: "env \<Rightarrow> nat \<Rightarrow> u8 \<Rightarrow> (chb st, nat \<times> u8) prog" where
  "chb_wait_program env 0 status = ret (0, status)"
| "chb_wait_program env (Suc n) status =
     bindE (chb_get_high env status) (\<lambda>status'.
       if status' AND PORTB_DONE_BIT \<noteq> 0
       then thenE (msleep env 10) (chb_wait_program env n status')
       else ret (Suc n, status'))"

definition chb_switch_program_mode :: "env \<Rightarrow> (chb st, unit) prog" where
  "chb_switch_program_mode env =
     thenE (seqE
       [chb_set_high env (PORTB_CSI_BIT OR PORTB_RDWR_BIT OR PORTB_PROG_BIT OR PORTB_M1_BIT),
        msleep env 1,
        chb_set_high env (PORTB_CSI_BIT OR PORTB_M1_BIT),
        msleep env 1,
        chb_set_high env (PORTB_PROG_BIT OR PORTB_M1_BIT),
        msleep env 1])
     (bindE (chb_wait_program env 3 0) (\<lambda>(try, status).
        if try = 0 \<and> status AND PORTB_DONE_BIT \<noteq> 0
        then fail_str set_chb_error ''done bit stuck high after going into programming mode''
        else ret ()))"

section \<open>Failures\<close>

lemma set_chb_error_string [simp]: "chb_error (set_chb_error msg c) = Some msg"
  by (simp add: set_chb_error_def)

lemma set_chb_error: "chb_error (set_chb_error msg c) \<noteq> None"
  by simp

text \<open>Every operation reports its failures.\<close>

named_theorems chb_reports \<open>operations that report their failures\<close>

lemmas chb_rules =
  do_checked_reports [where err = chb_error and se = set_chb_error, OF set_chb_error]
  read_data_reports [where err = chb_error and se = set_chb_error, OF set_chb_error]
  fail_str_reports [where err = chb_error and se = set_chb_error, OF set_chb_error]
  call_void_reports reporting.keeps_intros device_io_rules

lemma msleep_reports [chb_reports]: "reporting.keeps err (msleep env n)"
  by (simp add: msleep_def call_void_reports)

lemma chb_set_reports [chb_reports]: "reporting.keeps chb_error (chb_set env cmd v m)"
  by (simp add: chb_set_def chb_rules)

lemma chb_tck_divisor_reports [chb_reports]: "reporting.keeps chb_error (chb_tck_divisor env v)"
  by (simp add: chb_tck_divisor_def chb_reports)

lemma chb_set_low_reports [chb_reports]: "reporting.keeps chb_error (chb_set_low env v)"
  by (simp add: chb_set_low_def chb_reports)

lemma chb_set_high_reports [chb_reports]: "reporting.keeps chb_error (chb_set_high env v)"
  by (simp add: chb_set_high_def chb_reports)

lemma chb_open_reports [chb_reports]: "reporting.keeps chb_error (chb_open env)"
  unfolding chb_open_def
  by (intro chb_rules reporting.keeps_seqE) (simp_all add: chb_rules chb_reports)

lemma chb_get_reports [chb_reports]: "reporting.keeps chb_error (chb_get env v cmd)"
  unfolding chb_get_def by (intro chb_rules)

lemma chb_get_high_reports [chb_reports]: "reporting.keeps chb_error (chb_get_high env v)"
  by (simp add: chb_get_high_def chb_reports)

lemma chb_wait_program_reports [chb_reports]: "reporting.keeps chb_error (chb_wait_program env n v)"
  by (induction n arbitrary: v) (simp_all, (intro chb_rules chb_reports | simp)+)

lemma chb_switch_program_mode_reports [chb_reports]:
  "reporting.keeps chb_error (chb_switch_program_mode env)"
  unfolding chb_switch_program_mode_def
  by (intro chb_rules chb_reports reporting.keeps_seqE) (auto intro!: chb_rules chb_reports split: prod.split)

end
