(* ===== verification/Bit.thy ===== *)
theory Bit imports
  Chb
begin

text \<open>
  \<open>src/bit.c\<close>: the header of a Xilinx bitstream file, and loading the FPGA with the rest of it.

  The pointer \<open>bit->data\<close> is an offset \<open>pos\<close> into the object it points into, \<open>bit_image\<close>, and so are the
  four strings; a read that leaves the object is an error value.  \<open>bit_init\<close> is given an object
  that nobody has initialised, so \<open>None\<close> in \<open>bit_error\<close> is "whatever was there".
\<close>

unbundle bit_operations_syntax

section \<open>Reversing the bits of a byte\<close>

text \<open>The macros that write the table.\<close>

definition R2 :: "nat \<Rightarrow> nat list" where "R2 n = [n, n + 2 * 64, n + 1 * 64, n + 3 * 64]"
definition R4 :: "nat \<Rightarrow> nat list" where "R4 n = R2 n @ R2 (n + 2 * 16) @ R2 (n + 1 * 16) @ R2 (n + 3 * 16)"
definition R6 :: "nat \<Rightarrow> nat list" where "R6 n = R4 n @ R4 (n + 2 * 4) @ R4 (n + 1 * 4) @ R4 (n + 3 * 4)"

definition reverse_map :: "u8 list" where
  "reverse_map = map of_nat (R6 0 @ R6 2 @ R6 1 @ R6 3)"

definition bitreverse8 :: "u8 \<Rightarrow> u8" where
  "bitreverse8 x = reverse_map ! unat x"

section \<open>The header\<close>

record bit_file =
  bit_image :: "u8 list"
  pos :: nat
  bit_size :: nat
  ncd_filename :: "nat option"
  part_name :: "nat option"
  date :: "nat option"
  time :: "nat option"
  bit_length :: nat
  bit_error :: "string option"

definition set_bit_error :: "string \<Rightarrow> bit_file \<Rightarrow> bit_file" where
  "set_bit_error msg b = b\<lparr>bit_error := Some msg\<rparr>"

definition bit_fail :: "string \<Rightarrow> (bit_file, 'a) prog" where
  "bit_fail msg = thenE (modify (set_bit_error msg)) (throw Failed)"

text \<open>The next \<open>n\<close> bytes at \<open>bit->data\<close>, and \<open>bit->data += n; bit->size -= n;\<close>\<close>

definition peek :: "nat \<Rightarrow> (bit_file, u8 list) prog" where
  "peek n = (\<lambda>b. if pos b + n \<le> length (bit_image b) then ret (take n (drop (pos b) (bit_image b))) b
                 else throw (Out_of_bounds ''bit->data'') b)"

definition advance :: "nat \<Rightarrow> (bit_file, unit) prog" where
  "advance n = modify (\<lambda>b. b\<lparr>pos := pos b + n, bit_size := bit_size b - n\<rparr>)"

text \<open>Integers as \<open>memcpy\<close> reads them on a little-endian host, and the byte swaps.\<close>

definition load16 :: "u8 list \<Rightarrow> u16" where
  "load16 bs = ucast (bs ! 0) OR push_bit 8 (ucast (bs ! 1))"

definition load32 :: "u8 list \<Rightarrow> u32" where
  "load32 bs = ucast (bs ! 0) OR push_bit 8 (ucast (bs ! 1)) OR push_bit 16 (ucast (bs ! 2)) OR
     push_bit 24 (ucast (bs ! 3))"

definition be_to_host_16 :: "u16 \<Rightarrow> u16" where
  "be_to_host_16 x = push_bit 8 x OR drop_bit 8 x"

definition be_to_host_32 :: "u32 \<Rightarrow> u32" where
  "be_to_host_32 x = push_bit 24 x OR push_bit 8 (x AND 0xFF00) OR (drop_bit 8 x AND 0xFF00) OR drop_bit 24 x"

definition bit_header :: "u8 list" where
  "bit_header = [0x00, 0x09, 0x0f, 0xf0, 0x0f, 0xf0, 0x0f, 0xf0, 0x0f, 0xf0, 0x00, 0x00, 0x01]"

definition bit_do_parse_field1_2 :: "(bit_file, unit) prog" where
  "bit_do_parse_field1_2 =
     bindE (gets bit_size) (\<lambda>size.
       if size < length bit_header then bit_fail ''Wrong bitstream header''
       else bindE (peek (length bit_header)) (\<lambda>h.
         if h \<noteq> bit_header then bit_fail ''Wrong bitstream header''
         else advance (length bit_header)))"

text \<open>\<open>set_str\<close> stores the pointer in the field of the object that the caller named.\<close>

definition bit_do_parse_field_str ::
    "u8 \<Rightarrow> (nat \<Rightarrow> bit_file \<Rightarrow> bit_file) \<Rightarrow> (bit_file, unit) prog" where
  "bit_do_parse_field_str key set_str =
     bindE (gets bit_size) (\<lambda>size.
       if size < 1 + 2 then bit_fail ''Too few bytes''
       else bindE (peek 1) (\<lambda>k.
         if k \<noteq> [key] then bit_fail ''Incorrent field key''
         else thenE (advance 1)
           (bindE (peek 2) (\<lambda>l.
              let len = unat (be_to_host_16 (load16 l))
              in thenE (advance 2)
                (bindE (gets bit_size) (\<lambda>size.
                   if size < len then bit_fail ''Too few bytes''
                   else thenE (modify (\<lambda>b. set_str (pos b) b)) (advance len)))))))"

definition bit_do_parse_field2_3 :: "(bit_file, unit) prog" where
  "bit_do_parse_field2_3 = bit_do_parse_field_str 0x61 (\<lambda>p b. b\<lparr>ncd_filename := Some p\<rparr>)"

definition bit_do_parse_field4 :: "(bit_file, unit) prog" where
  "bit_do_parse_field4 = bit_do_parse_field_str 0x62 (\<lambda>p b. b\<lparr>part_name := Some p\<rparr>)"

definition bit_do_parse_field5 :: "(bit_file, unit) prog" where
  "bit_do_parse_field5 = bit_do_parse_field_str 0x63 (\<lambda>p b. b\<lparr>date := Some p\<rparr>)"

definition bit_do_parse_field6 :: "(bit_file, unit) prog" where
  "bit_do_parse_field6 = bit_do_parse_field_str 0x64 (\<lambda>p b. b\<lparr>time := Some p\<rparr>)"

definition bit_do_parse_field7 :: "(bit_file, unit) prog" where
  "bit_do_parse_field7 =
     bindE (gets bit_size) (\<lambda>size.
       if size < 1 + 4 then bit_fail ''Too few bytes''
       else bindE (peek 1) (\<lambda>k.
         if k \<noteq> [0x65] then bit_fail ''Incorrent field key''
         else thenE (advance 1)
           (bindE (peek 4) (\<lambda>l.
              let len = unat (be_to_host_32 (load32 l))
              in thenE (modify (\<lambda>b. b\<lparr>bit_length := len\<rparr>))
                (thenE (advance 4)
                  (bindE (gets bit_size) (\<lambda>size.
                     if size < len then bit_fail ''Too few bytes'' else ret ())))))))"

definition bit_do_parse :: "(bit_file, unit) prog" where
  "bit_do_parse =
     seqE [bit_do_parse_field1_2, bit_do_parse_field2_3, bit_do_parse_field4, bit_do_parse_field5,
           bit_do_parse_field6, bit_do_parse_field7]"

definition bit_init :: "u8 list \<Rightarrow> nat \<Rightarrow> (bit_file, unit) prog" where
  "bit_init dat n =
     thenE (modify (\<lambda>b. b\<lparr>bit_image := dat, pos := 0, bit_size := n\<rparr>)) bit_do_parse"

section \<open>Loading the FPGA\<close>

text \<open>The size of one of the two buffers.\<close>

definition chunk :: nat where "chunk = 4 * 1024"

text \<open>
  The inner loop: fills a buffer from position \<open>i\<close> on; the result is the final \<open>i\<close>, the buffer and
  the data that is left.
\<close>

function fill_buffer :: "nat \<Rightarrow> u8 list \<Rightarrow> u8 list \<Rightarrow> nat \<times> u8 list \<times> u8 list" where
  "fill_buffer i buf dat =
     (if i < chunk \<and> dat \<noteq> [] then fill_buffer (i + 1) (buf[i := bitreverse8 (hd dat)]) (tl dat)
      else (i, buf, dat))"
  by pat_completeness auto
termination
  by (relation "measure (\<lambda>(i, buf, dat). length dat)") auto

declare fill_buffer.simps [simp del]

text \<open>
  The object is the bit file and interface B; of interface A only the libftdi context is used.  A
  transfer in flight is the index of its buffer and its length, and to wait for it shows the device
  what the buffer holds then.
\<close>

type_synonym loader = "bit_file \<times> chb"

definition set_loader_error :: "string \<Rightarrow> loader \<Rightarrow> loader" where
  "set_loader_error msg = apfst (set_bit_error msg)"

definition transfer_done :: "env \<Rightarrow> u8 list list \<Rightarrow> nat \<times> nat \<Rightarrow> (loader st, unit) prog" where
  "transfer_done env bufs tc =
     do_checked env set_loader_error (Ftdi_transfer_data_done INTERFACE_A (take (snd tc) (bufs ! fst tc)))"

text \<open>A null pointer is what \<open>ftdi_write_data_submit\<close> returns if it fails.\<close>

definition transfer_submit :: "env \<Rightarrow> u8 list \<Rightarrow> (loader st, unit) prog" where
  "transfer_submit env bs =
     bindE (perform env (Ftdi_write_data_submit INTERFACE_A bs))
       (\<lambda>r. if r_ret r = 0 then fail_lib env set_loader_error else ret ())"

lemma fill_buffer_shorter: "fill_buffer i buf dat = (j, buf', rest) \<Longrightarrow> length rest \<le> length dat"
proof (induction i buf dat rule: fill_buffer.induct)
  case (1 i buf dat)
  then show ?case
    using fill_buffer.simps [of i buf dat] by (cases dat) (auto split: if_splits)
qed

lemma fill_buffer_progress:
  assumes "(j, buf', rest) = fill_buffer 0 buf dat" and "dat \<noteq> []"
  shows "length rest < length dat"
proof -
  have "fill_buffer 1 (buf[0 := bitreverse8 (hd dat)]) (tl dat) = (j, buf', rest)"
    using assms fill_buffer.simps [of 0 buf dat] by (simp add: chunk_def)
  then have "length rest \<le> length (tl dat)"
    by (rule fill_buffer_shorter)
  then show ?thesis
    using assms(2) by (cases dat) simp_all
qed

function send_chunks ::
    "env \<Rightarrow> nat \<Rightarrow> u8 list list \<Rightarrow> (nat \<times> nat) option \<Rightarrow> u8 list
      \<Rightarrow> (loader st, u8 list list \<times> (nat \<times> nat) option) prog" where
  "send_chunks env bidx bufs tc dat =
     (if dat = [] then ret (bufs, tc)
      else case fill_buffer 0 (bufs ! bidx) dat of (i, buf, rest) \<Rightarrow>
        let bufs' = bufs[bidx := buf]
        in thenE (case tc of None \<Rightarrow> ret () | Some t \<Rightarrow> transfer_done env bufs' t)
          (thenE (transfer_submit env (take i (bufs' ! bidx)))
            (send_chunks env ((bidx + 1) mod 2) bufs' (Some (bidx, i)) rest)))"
  by pat_completeness auto
termination
  by (relation "measure (\<lambda>(env, bidx, bufs, tc, dat). length dat)") (auto dest: fill_buffer_progress)

declare send_chunks.simps [simp del]

text \<open>
  The loop after the last transfer: the result is the final \<open>try\<close> and \<open>status\<close>.  A failing write
  ends it with a negative \<open>ret\<close>, as does a failing \<open>chb_get_high\<close>, and no message is stored; a
  write of nothing ends it with \<open>ret\<close> 0.
\<close>

fun wait_done :: "env \<Rightarrow> nat \<Rightarrow> u8 \<Rightarrow> (loader st, nat \<times> u8) prog" where
  "wait_done env 0 status = ret (0, status)"
| "wait_done env (Suc n) status =
     bindE (perform env (Ftdi_write_data INTERFACE_A (replicate 8 0))) (\<lambda>r.
       if r_ret r < 0 then throw Failed
       else if r_ret r = 0 then ret (Suc n, status)
       else bindE (zoom snd (\<lambda>c (b, _). (b, c)) (chb_get_high env status)) (\<lambda>status'.
         if status' AND PORTB_DONE_BIT \<noteq> 0 then ret (Suc n, status')
         else wait_done env n status'))"

definition bit_load_firmware :: "env \<Rightarrow> u8 list list \<Rightarrow> (loader st, unit) prog" where
  "bit_load_firmware env bufs =
     bindE (gets_obj fst) (\<lambda>b.
     let dat = take (bit_size b) (drop (pos b) (bit_image b))
     in if length dat < bit_size b then throw (Out_of_bounds ''bit->data'')
     else bindE (send_chunks env 0 bufs None dat) (\<lambda>(bufs', tc).
     thenE (case tc of
              None \<Rightarrow> throw (Null_pointer ''tc'')
            | Some t \<Rightarrow> transfer_done env bufs' t)
     (bindE (wait_done env 3 0) (\<lambda>(try, status).
        if try = 0 \<and> status AND PORTB_DONE_BIT = 0
        then fail_str set_loader_error ''done bit stuck low after programming''
        else ret ()))))"

end
