(* ===== verification/Chb_Spec.thy ===== *)
theory Chb_Spec imports
  Chb
begin

text \<open>
  What the operations of \<open>src/chb.c\<close> say to the device, for every device: the configuration
  sequence and its clean-up, the reset pulse and the bounded wait of the program mode.
\<close>

unbundle bit_operations_syntax

section \<open>Opening\<close>

definition chb_setup_calls :: "env \<Rightarrow> call list" where
  "chb_setup_calls env =
     [Ftdi_usb_reset INTERFACE_B,
      Ftdi_set_event_char INTERFACE_B 0 0,
      Ftdi_set_error_char INTERFACE_B 0 0,
      Ftdi_setflowctrl_rts_cts INTERFACE_B,
      Ftdi_set_bitmode INTERFACE_B 0 BITMODE_RESET,
      Ftdi_set_bitmode INTERFACE_B 0 BITMODE_MPSSE,
      Ftdi_write_data INTERFACE_B [opcode env TCK_DIVISOR, 0, 0],
      Ftdi_write_data INTERFACE_B [opcode env SET_BITS_LOW, 0x08, 0x0b]]"

definition chb_open_call :: call where
  "chb_open_call = Ftdi_usb_open INTERFACE_B 0x1d50 0x607c"

lemma chb_open_run:
  "chb_open env s =
     (let h1 = after env chb_open_call (hist s)
      in if r_ret (respond env (hist s) chb_open_call) < 0
         then Some (Inl Failed, s\<lparr>hist := h1, obj := set_chb_error (errtext env h1) (obj s)\<rparr>)
         else case script env (chb_setup_calls env) h1 of
             (True, h) \<Rightarrow> Some (Inr (), s\<lparr>hist := h\<rparr>)
           | (False, h) \<Rightarrow> Some (Inl Failed, s\<lparr>hist := after env (Ftdi_usb_close INTERFACE_B) h,
                                            obj := set_chb_error (errtext env h) (obj s)\<rparr>))"
proof -
  have steps: "[do_checked env set_chb_error (Ftdi_usb_reset INTERFACE_B),
           do_checked env set_chb_error (Ftdi_set_event_char INTERFACE_B 0 0),
           do_checked env set_chb_error (Ftdi_set_error_char INTERFACE_B 0 0),
           do_checked env set_chb_error (Ftdi_setflowctrl_rts_cts INTERFACE_B),
           do_checked env set_chb_error (Ftdi_set_bitmode INTERFACE_B 0 BITMODE_RESET),
           do_checked env set_chb_error (Ftdi_set_bitmode INTERFACE_B 0 BITMODE_MPSSE),
           chb_tck_divisor env 0,
           chb_set_low env PORTB_TMS_BIT] = map (do_checked env set_chb_error) (chb_setup_calls env)"
    by (simp add: chb_setup_calls_def chb_tck_divisor_def chb_set_low_def chb_set_def
        PORTB_TMS_BIT_def PORTB_TCK_BIT_def PORTB_TDI_BIT_def)
  show ?thesis
    unfolding chb_open_def steps
    by (auto simp: thenE_def bindE_def onfail_def do_checked_run seqE_script Let_def chb_open_call_def
        OV_VENDOR_def OV_PRODUCT_def after_def split: prod.split bool.split)
qed

definition all_ok :: "history \<Rightarrow> bool" where
  "all_ok es \<longleftrightarrow> list_all (\<lambda>e. 0 \<le> r_ret (snd e)) es"

text \<open>
  Calls made in order until the first failure, and then, if the first call was a success, a clean-up
  call; \<open>msg\<close> is the error text at the point of the failure.
\<close>

definition stopped_script :: "env \<Rightarrow> history \<Rightarrow> call list \<Rightarrow> call \<Rightarrow> history \<Rightarrow> string \<Rightarrow> bool" where
  "stopped_script env h cs cleanup es msg \<longleftrightarrow>
     (\<exists>done c r rest. map fst (done @ [(c, r)]) = take (length done + 1) cs \<and>
        es = done @ (c, r) # rest \<and> all_ok done \<and> r_ret r < 0 \<and>
        map fst rest = (if done = [] then [] else [cleanup]) \<and>
        msg = errtext env (h @ done @ [(c, r)]))"

lemma failed_script:
  assumes "script env cs (h @ [(c0, r0)]) = (False, h')" and "0 \<le> r_ret r0"
  shows "stopped_script env h (c0 # cs) cl (drop (length h) (after env cl h')) (errtext env h')
    \<and> prefix h h'"
proof -
  obtain k es where es: "h' = (h @ [(c0, r0)]) @ es" "map fst es = take k cs" "k \<le> length cs"
      "list_all (\<lambda>e. 0 \<le> r_ret (snd e)) (butlast es)" "es \<noteq> []" "r_ret (snd (last es)) < 0"
    using script_prefix [OF assms(1)] by auto
  obtain c r where last: "last es = (c, r)"
    by fastforce
  let ?done = "(c0, r0) # butlast es"
  have eq: "(c0, r0) # es = ?done @ [(c, r)]"
    using es(5) last by (metis append_Cons append_butlast_last_id)
  have len: "length es = k"
    using es(2,3) by (metis length_map length_take min.absorb2)
  have "map fst (?done @ [(c, r)]) = take (length ?done + 1) (c0 # cs)"
    using eq es(2,5) len by (metis (no_types, lifting) One_nat_def Suc_pred add.commute
        fst_conv length_Cons length_butlast length_greater_0_conv list.simps(9) plus_1_eq_Suc take_Suc_Cons)
  moreover have "drop (length h) (after env cl h') = ?done @ (c, r) # [(cl, respond env h' cl)]"
    using es(1) eq by (simp add: after_def) 
  moreover have "all_ok ?done"
    using es(4) assms(2) by (simp add: all_ok_def)
  moreover have "h' = h @ ?done @ [(c, r)]"
    using es(1) eq by simp
  ultimately show ?thesis
    using es(6) last unfolding stopped_script_def
    by (intro conjI exI [of _ ?done] exI [of _ c] exI [of _ r] exI [of _ "[(cl, respond env h' cl)]"])
      auto
qed

section \<open>Program mode\<close>

definition program_pulse :: "env \<Rightarrow> call list" where
  "program_pulse env =
     [Ftdi_write_data INTERFACE_B [opcode env SET_BITS_HIGH, 0x8b, 0xcb], Msleep 1,
      Ftdi_write_data INTERFACE_B [opcode env SET_BITS_HIGH, 0x81, 0xcb], Msleep 1,
      Ftdi_write_data INTERFACE_B [opcode env SET_BITS_HIGH, 0x88, 0xcb], Msleep 1]"

lemma chb_get_high_run:
  "\<exists>r s' es. chb_get_high env v s = Some (r, s') \<and> hist s' = hist s @ es \<and> length es \<le> 2 \<and>
     (\<forall>w. r = Inr w \<longrightarrow> (\<exists>rep. es \<noteq> [] \<and> last es = (Ftdi_read_data INTERFACE_B 1, rep) \<and>
        (w = v \<and> r_bytes rep = [] \<or> r_bytes rep \<noteq> [] \<and> w = hd (r_bytes rep)))) \<and>
     (\<forall>e. r = Inl e \<longrightarrow> e = Failed \<and> chb_error (obj s') \<noteq> None)"
  by (auto simp: chb_get_high_def chb_get_def thenE_def bindE_def do_checked_run read_data_run
      Let_def after_def)

lemma chb_wait_program_run:
  "\<exists>r s' es. chb_wait_program env n v s = Some (r, s') \<and> hist s' = hist s @ es \<and> length es \<le> 3 * n \<and>
     (\<forall>e. r = Inl e \<longrightarrow> e = Failed \<and> chb_error (obj s') \<noteq> None) \<and>
     (\<forall>t w. r = Inr (t, w) \<longrightarrow>
        (if t = 0 then n = 0 \<or> w AND PORTB_DONE_BIT \<noteq> 0
         else (\<exists>rep. es \<noteq> [] \<and> last es = (Ftdi_read_data INTERFACE_B 1, rep) \<and>
           (r_bytes rep = [] \<or> hd (r_bytes rep) AND PORTB_DONE_BIT = 0))))"
proof (induction n arbitrary: v s)
  case 0
  then show ?case
    by simp
next
  case (Suc n)
  obtain r1 s1 es1 where get: "chb_get_high env v s = Some (r1, s1)" "hist s1 = hist s @ es1"
      "length es1 \<le> 2"
      "\<And>w. r1 = Inr w \<Longrightarrow> \<exists>rep. es1 \<noteq> [] \<and> last es1 = (Ftdi_read_data INTERFACE_B 1, rep) \<and>
        (w = v \<and> r_bytes rep = [] \<or> r_bytes rep \<noteq> [] \<and> w = hd (r_bytes rep))"
      "\<And>e. r1 = Inl e \<Longrightarrow> e = Failed \<and> chb_error (obj s1) \<noteq> None"
    using chb_get_high_run [of env v s] by blast
  consider (err) e where "r1 = Inl e" | (low) w where "r1 = Inr w" "w AND PORTB_DONE_BIT = 0"
    | (high) w where "r1 = Inr w" "w AND PORTB_DONE_BIT \<noteq> 0"
    by (cases r1) auto
  then show ?case
  proof cases
    case err
    then show ?thesis
      using get by (auto simp: bindE_def)
  next
    case low
    then show ?thesis
      using get(1-3) get(4) [OF low(1)] by (auto simp: bindE_def)
  next
    case high
    let ?s2 = "s1\<lparr>hist := hist s1 @ [(Msleep 10, respond env (hist s1) (Msleep 10))]\<rparr>"
    obtain r s' es where IH: "chb_wait_program env n w ?s2 = Some (r, s')" "hist s' = hist ?s2 @ es"
        "length es \<le> 3 * n" "\<And>e. r = Inl e \<Longrightarrow> e = Failed \<and> chb_error (obj s') \<noteq> None"
        "\<And>t w. r = Inr (t, w) \<Longrightarrow>
          (if t = 0 then n = 0 \<or> w AND PORTB_DONE_BIT \<noteq> 0
           else (\<exists>rep. es \<noteq> [] \<and> last es = (Ftdi_read_data INTERFACE_B 1, rep) \<and>
             (r_bytes rep = [] \<or> hd (r_bytes rep) AND PORTB_DONE_BIT = 0)))"
      using Suc.IH [of w ?s2] by blast
    let ?es = "es1 @ (Msleep 10, respond env (hist s1) (Msleep 10)) # es"
    have run: "chb_wait_program env (Suc n) v s = Some (r, s')"
      using get(1) high IH(1) by (simp add: bindE_def thenE_def msleep_def)
    have hist: "hist s' = hist s @ ?es" "length ?es \<le> 3 * Suc n"
      using get(2,3) IH(2,3) by simp_all
    have status: "w' AND PORTB_DONE_BIT \<noteq> 0" if "r = Inr (0, w')" for w'
    proof (cases n)
      case 0
      then show ?thesis
        using IH(1) that high(2) by simp
    next
      case (Suc m)
      then show ?thesis
        using IH(5) [OF that] by simp
    qed
    have later: "\<exists>rep. ?es \<noteq> [] \<and> last ?es = (Ftdi_read_data INTERFACE_B 1, rep) \<and>
        (r_bytes rep = [] \<or> hd (r_bytes rep) AND PORTB_DONE_BIT = 0)" if "r = Inr (t, w')" "t \<noteq> 0" for t w'
      using IH(5) [OF that(1)] that(2) by auto
    have "(if t = 0 then Suc n = 0 \<or> w AND PORTB_DONE_BIT \<noteq> 0
         else (\<exists>rep. ?es \<noteq> [] \<and> last ?es = (Ftdi_read_data INTERFACE_B 1, rep) \<and>
           (r_bytes rep = [] \<or> hd (r_bytes rep) AND PORTB_DONE_BIT = 0)))" if "r = Inr (t, w)" for t w
      using status [of w] later [of t w] that by (cases "t = 0") auto
    then show ?thesis
      using run hist IH(4) by (intro exI [of _ r] exI [of _ s'] exI [of _ ?es]) blast
  qed
qed

definition program_steps :: "env \<Rightarrow> (chb st, unit) prog list" where
  "program_steps env =
     [chb_set_high env (PORTB_CSI_BIT OR PORTB_RDWR_BIT OR PORTB_PROG_BIT OR PORTB_M1_BIT),
      msleep env 1, chb_set_high env (PORTB_CSI_BIT OR PORTB_M1_BIT), msleep env 1,
      chb_set_high env (PORTB_PROG_BIT OR PORTB_M1_BIT), msleep env 1]"

lemma length_program_pulse: "length (program_pulse env) = 6"
  by (simp add: program_pulse_def)

lemma program_steps_make: "list_all2 (makes env chb_error) (program_steps env) (program_pulse env)"
  by (simp add: program_steps_def program_pulse_def chb_set_high_def chb_set_def msleep_def
      PORTB_CSI_BIT_def PORTB_RDWR_BIT_def PORTB_PROG_BIT_def PORTB_M1_BIT_def PORTB_M0_BIT_def)
    (simp add: makes_call_void makes_do_checked [where err = chb_error and se = set_chb_error])

section \<open>Properties\<close>

text \<open>
  C25: Opening interface B.  For every device: the code makes the configuration calls of the
  sequence in order and stops at the first failure; it succeeds exactly if all succeeded; and if
  the device was opened and a later step failed it is closed again, the error string being
  libftdi's message at the point of the failure.
\<close>

theorem chb_open_sequence:
  "\<exists>r s' es. chb_open env s = Some (r, s') \<and> hist s' = hist s @ es \<and>
     (case r of
        Inr _ \<Rightarrow> map fst es = chb_open_call # chb_setup_calls env \<and> all_ok es
      | Inl e \<Rightarrow> e = Failed \<and> stopped_script env (hist s) (chb_open_call # chb_setup_calls env)
          (Ftdi_usb_close INTERFACE_B) es (the (chb_error (obj s'))))"
proof -
  let ?r0 = "respond env (hist s) chb_open_call"
  let ?h1 = "hist s @ [(chb_open_call, ?r0)]"
  show ?thesis
  proof (cases "r_ret ?r0 < 0")
    case True
    then show ?thesis
      by (intro exI [of _ "Inl Failed"] exI [of _ "[(chb_open_call, ?r0)]"] exI)
        (auto simp: chb_open_run after_def Let_def stopped_script_def all_ok_def
          intro!: exI [of _ "[]"])
  next
    case False
    obtain b h where script: "script env (chb_setup_calls env) ?h1 = (b, h)"
      by fastforce
    show ?thesis
    proof (cases b)
      case True
      then obtain es where "h = ?h1 @ es" "map fst es = chb_setup_calls env"
          "list_all (\<lambda>e. 0 \<le> r_ret (snd e)) es"
        using script_prefix [OF script] by auto
      then show ?thesis
        using True False script
        by (intro exI [of _ "Inr ()"] exI [of _ "(chb_open_call, ?r0) # es"] exI)
          (auto simp: chb_open_run after_def Let_def all_ok_def)
    next
      case fail: False
      let ?h' = "after env (Ftdi_usb_close INTERFACE_B) h"
      have "script env (chb_setup_calls env) ?h1 = (False, h)"
        using script fail by simp
      note stopped = failed_script [OF this, of "Ftdi_usb_close INTERFACE_B"]
      have "prefix (hist s) ?h'"
        using stopped False by (auto simp: after_def prefix_def)
      then have "?h' = hist s @ drop (length (hist s)) ?h'"
        by (auto simp: prefix_def)
      then show ?thesis
        using stopped False script fail
        by (intro exI [of _ "Inl Failed"] exI [of _ "drop (length (hist s)) ?h'"] exI)
          (auto simp: chb_open_run after_def Let_def)
    qed
  qed
qed

text \<open>
  C26: Going into program mode always ends, within 15 calls.  If it succeeds, the pins were driven
  with the three-step reset pulse (mode pins, PROG low, PROG high, 1 ms apart), and the last status
  read found the DONE bit low (or brought no byte); if it fails, the error string is set.
\<close>

theorem chb_program_mode_bounded:
  "\<exists>r s' es. chb_switch_program_mode env s = Some (r, s') \<and> hist s' = hist s @ es \<and>
     length es \<le> 15 \<and>
     (case r of
        Inl e \<Rightarrow> e = Failed \<and> chb_error (obj s') \<noteq> None
      | Inr _ \<Rightarrow> map fst (take 6 es) = program_pulse env \<and> 6 < length es \<and>
          (\<exists>rep. last es = (Ftdi_read_data INTERFACE_B 1, rep) \<and>
             (r_bytes rep = [] \<or> hd (r_bytes rep) AND PORTB_DONE_BIT = 0)))"
proof -
  obtain r1 s1 es1 where p: "seqE (program_steps env) s = Some (r1, s1)" "hist s1 = hist s @ es1"
      "length es1 \<le> 6" "r1 = Inr () \<Longrightarrow> map fst es1 = program_pulse env"
      "\<And>e. r1 = Inl e \<Longrightarrow> e = Failed \<and> chb_error (obj s1) \<noteq> None"
    using seqE_makes [OF program_steps_make, of env s] unfolding length_program_pulse by blast
  note unfold = chb_switch_program_mode_def program_steps_def [symmetric] thenE_def
  show ?thesis
  proof (cases r1)
    case (Inl e)
    then show ?thesis
      using p unfolding unfold by (auto simp: bindE_def)
  next
    case (Inr u)
    obtain r2 s2 es2 where w: "chb_wait_program env 3 0 s1 = Some (r2, s2)" "hist s2 = hist s1 @ es2"
        "length es2 \<le> 3 * 3" "\<And>e. r2 = Inl e \<Longrightarrow> e = Failed \<and> chb_error (obj s2) \<noteq> None"
        "\<And>t w. r2 = Inr (t, w) \<Longrightarrow>
          (if t = 0 then 3 = (0::nat) \<or> w AND PORTB_DONE_BIT \<noteq> 0
           else (\<exists>rep. es2 \<noteq> [] \<and> last es2 = (Ftdi_read_data INTERFACE_B 1, rep) \<and>
             (r_bytes rep = [] \<or> hd (r_bytes rep) AND PORTB_DONE_BIT = 0)))"
      using chb_wait_program_run [of env 3 0 s1] by blast
    have len: "length es1 = 6"
      using p(4) Inr length_program_pulse [of env] by (auto dest: arg_cong [where f = length])
    have run: "chb_switch_program_mode env s = bindE (\<lambda>_. Some (r2, s2)) (\<lambda>(try, status).
        if try = 0 \<and> status AND PORTB_DONE_BIT \<noteq> 0
        then fail_str set_chb_error ''done bit stuck high after going into programming mode''
        else ret ()) s1"
      using p(1) w(1) Inr unfolding unfold by (simp add: bindE_def)
    show ?thesis
    proof (cases r2)
      case (Inl e)
      then show ?thesis
        using run p(2) w(2-4) len by (simp add: bindE_def)
    next
      case (Inr tw)
      obtain t w' where tw: "tw = (t, w')"
        by fastforce
      then show ?thesis
        using run p(2) p(4) \<open>r1 = Inr u\<close> w(2,3) w(5) [of t w'] Inr len
        by (cases "t = 0") (auto simp: bindE_def)
    qed
  qed
qed

end
