(* ===== verification/Bit_Spec.thy ===== *)
theory Bit_Spec imports
  Bit
  Chb_Spec
begin

text \<open>
  The header parser of \<open>src/bit.c\<close> against an encoder of the file format, and what
  \<open>bit_load_firmware\<close> shows to the device through its two buffers.
\<close>

unbundle bit_operations_syntax

section \<open>Bit reversal\<close>

lemma reverse_table:
  "R6 0 @ R6 2 @ R6 1 @ R6 3 =
     map (\<lambda>n. n mod 2 * 128 + n div 2 mod 2 * 64 + n div 4 mod 2 * 32 + n div 8 mod 2 * 16 +
       n div 16 mod 2 * 8 + n div 32 mod 2 * 4 + n div 64 mod 2 * 2 + n div 128 mod 2) [0..<256]"
  by (simp add: R6_def R4_def R2_def upt_rec)

lemma reverse_table_horner:
  "n mod 2 * 128 + n div 2 mod 2 * 64 + n div 4 mod 2 * 32 + n div 8 mod 2 * 16 +
     n div 16 mod 2 * 8 + n div 32 mod 2 * 4 + n div 64 mod 2 * 2 + n div 128 mod 2 =
   (horner_sum of_bool 2 (map (\<lambda>i. bit n (7 - i)) [0..<8]) :: nat)" for n :: nat
  by (simp add: upt_rec bit_iff_odd of_bool_odd_eq_mod_2)

lemma bit_bitreverse8: "i < 8 \<Longrightarrow> bit (bitreverse8 x) i = bit x (7 - i)"
proof -
  assume i: "i < 8"
  have "bitreverse8 x = of_nat (horner_sum of_bool 2 (map (\<lambda>i. bit (unat x) (7 - i)) [0..<8]) :: nat)"
    using unat_u8_less [of x]
    by (simp only: bitreverse8_def reverse_map_def reverse_table reverse_table_horner length_map
        length_upt nth_map nth_upt add_0 minus_nat.diff_0)
  then show ?thesis
    using i by (simp add: bit_of_nat_iff bit_horner_sum_bit_iff bit_unsigned_iff)
qed

section \<open>The header\<close>

definition be16 :: "u16 \<Rightarrow> u8 list" where
  "be16 w = [ucast (drop_bit 8 w), ucast w]"

definition be32 :: "u32 \<Rightarrow> u8 list" where
  "be32 w = [ucast (drop_bit 24 w), ucast (drop_bit 16 w), ucast (drop_bit 8 w), ucast w]"

lemma be16_length [simp]: "length (be16 w) = 2"
  by (simp add: be16_def)

lemma be32_length [simp]: "length (be32 w) = 4"
  by (simp add: be32_def)

lemma load16_be16: "be_to_host_16 (load16 (be16 w)) = w"
  by (rule bit_word_eqI) (auto simp: be_to_host_16_def load16_def be16_def bit_simps)

lemma load32_be32: "be_to_host_32 (load32 (be32 w)) = w" (is "?l = w")
proof (rule bit_word_eqI)
  have m: "(0xFF00 :: u32) = push_bit 8 (mask 8)"
    by (simp add: mask_eq_exp_minus_1)
  fix n
  assume "n < LENGTH(32)"
  then consider "n < 8" | "8 \<le> n" "n < 16" | "16 \<le> n" "n < 24" | "24 \<le> n" "n < 32"
    by fastforce
  then show "bit ?l n = bit w n"
    unfolding be_to_host_32_def load32_def be32_def m
    by cases (simp_all add: bit_simps, auto)
qed

lemma u8_bit: "8 \<le> n \<Longrightarrow> \<not> bit (a :: u8) n"
  using bit_imp_le_length [of a n] by auto

lemma be16_load16: "be16 (be_to_host_16 (load16 [a, b])) = [a, b]"
  by (auto simp: be16_def be_to_host_16_def load16_def bit_simps u8_bit intro!: bit_word_eqI)

lemma be32_load32: "be32 (be_to_host_32 (load32 [a, b, c, d])) = [a, b, c, d]"
proof -
  have m: "(0xFF00 :: u32) = push_bit 8 (mask 8)"
    by (simp add: mask_eq_exp_minus_1)
  show ?thesis
    unfolding be32_def be_to_host_32_def load32_def m
    by (auto simp: bit_simps u8_bit intro!: bit_word_eqI)
qed

text \<open>The file format: a header, four strings with a key and a length, the length of the data, the data.\<close>

definition str_field :: "u8 \<Rightarrow> u8 list \<Rightarrow> u8 list" where
  "str_field key str = key # be16 (of_nat (length str)) @ str"

definition bit_encode :: "u8 list \<Rightarrow> u8 list \<Rightarrow> u8 list \<Rightarrow> u8 list \<Rightarrow> u32 \<Rightarrow> u8 list \<Rightarrow> u8 list" where
  "bit_encode a b c d n payload =
     bit_header @ str_field 0x61 a @ str_field 0x62 b @ str_field 0x63 c @ str_field 0x64 d @
     0x65 # be32 n @ payload"

abbreviation unread :: "bit_file \<Rightarrow> u8 list" where
  "unread b \<equiv> drop (pos b) (bit_image b)"

definition wf_bit :: "bit_file \<Rightarrow> bool" where
  "wf_bit b \<longleftrightarrow> pos b + bit_size b = length (bit_image b)"

definition str_ok :: "u8 list \<Rightarrow> bool" where
  "str_ok str \<longleftrightarrow> length str < 2 ^ 16"

lemmas bit_monad = bindE_def thenE_def gets_def modify_def ret_def throw_def peek_def advance_def
  bit_fail_def set_bit_error_def Let_def

lemma unread_append:
  assumes "wf_bit b" and "unread b = xs @ ys"
  shows "bit_size b = length xs + length ys" and "pos b + length xs + length ys = length (bit_image b)"
    and "drop (pos b + length xs) (bit_image b) = ys"
proof -
  have "length (unread b) = length xs + length ys"
    using assms(2) by simp
  then show "bit_size b = length xs + length ys" "pos b + length xs + length ys = length (bit_image b)"
    using assms(1) by (auto simp: wf_bit_def)
  have "drop (length xs) (unread b) = ys"
    using assms(2) by simp
  then show "drop (pos b + length xs) (bit_image b) = ys"
    by (simp add: add.commute)
qed

text \<open>A setter of one of the four strings.\<close>

definition str_setter :: "(nat \<Rightarrow> bit_file \<Rightarrow> bit_file) \<Rightarrow> bool" where
  "str_setter f \<longleftrightarrow> (\<forall>p b. pos (f p b) = pos b \<and> bit_size (f p b) = bit_size b \<and> bit_image (f p b) = bit_image b \<and>
     (\<forall>x y. f p (b\<lparr>pos := x, bit_size := y\<rparr>) = (f p b)\<lparr>pos := x, bit_size := y\<rparr>))"

lemma field_str_ok:
  assumes "wf_bit b" and "unread b = str_field key str @ xs" and "str_ok str" and "str_setter f"
  shows "bit_do_parse_field_str key f b =
    Some (Inr (), (f (pos b + 3) b)\<lparr>pos := pos b + 3 + length str, bit_size := length xs\<rparr>)"
proof -
  have b: "unread b = [key] @ be16 (of_nat (length str)) @ str @ xs"
    using assms(2) by (simp add: str_field_def)
  have len: "unat (of_nat (length str) :: u16) = length str"
    using assms(3) by (simp add: str_ok_def unat_of_nat)
  note u1 = unread_append [OF assms(1) b]
  have b3: "drop (pos b + 1) (bit_image b) = be16 (of_nat (length str)) @ str @ xs"
    using u1(3) by simp
  have "take 2 (drop (pos b + 1) (bit_image b)) = be16 (of_nat (length str))"
    unfolding b3 by simp
  moreover have "take 1 (unread b) = [key]"
    unfolding b by simp
  ultimately show ?thesis
    using u1 len assms(4)
    by (simp add: bit_do_parse_field_str_def bit_monad load16_be16 str_setter_def numeral_3_eq_3)
qed

lemma str_fieldI:
  assumes "3 \<le> length xs" and "take 1 xs = [key]" and "n = unat (be_to_host_16 (load16 (take 2 (drop 1 xs))))"
    and "n + 3 \<le> length xs"
  shows "\<exists>str ys. str_ok str \<and> xs = str_field key str @ ys"
proof -
  obtain a b zs where xs: "xs = key # a # b # zs"
    using assms(1,2) by (cases xs; cases "tl xs"; cases "tl (tl xs)") auto
  have n: "n = unat (be_to_host_16 (load16 [a, b]))"
    using assms(3) by (simp add: xs)
  have str: "length (take n zs) = n"
    using assms(4) by (simp add: xs)
  then have "str_field key (take n zs) = key # a # b # take n zs"
    by (simp add: str_field_def n be16_load16)
  moreover have "str_ok (take n zs)"
    using str unat_u16_less [of "be_to_host_16 (load16 [a, b])"] by (simp add: str_ok_def n)
  ultimately show ?thesis
    by (intro exI [of _ "take n zs"] exI [of _ "drop n zs"]) (simp add: xs)
qed

lemma field_str_cases:
  assumes "wf_bit b"
  obtains str xs where "str_ok str" and "unread b = str_field key str @ xs"
  | b' msg where "bit_do_parse_field_str key f b = Some (Inl Failed, b')" and "bit_error b' = Some msg"
proof -
  let ?n = "unat (be_to_host_16 (load16 (take 2 (drop 1 (unread b)))))"
  have len: "length (unread b) = bit_size b"
    using assms by (simp add: wf_bit_def)
  show ?thesis
  proof (cases "3 \<le> bit_size b \<and> take 1 (unread b) = [key] \<and> ?n + 3 \<le> bit_size b")
    case True
    then show ?thesis
      using str_fieldI [of "unread b" key ?n] len that(1) by auto
  next
    case False
    then have "\<exists>b' msg. bit_do_parse_field_str key f b = Some (Inl Failed, b') \<and> bit_error b' = Some msg"
      using assms by (auto simp: bit_do_parse_field_str_def bit_monad wf_bit_def add.commute)
    then show ?thesis
      using that(2) by blast
  qed
qed

lemma field1_2_ok:
  assumes "wf_bit b" and "unread b = bit_header @ xs"
  shows "bit_do_parse_field1_2 b = Some (Inr (), b\<lparr>pos := pos b + length bit_header, bit_size := length xs\<rparr>)"
  using unread_append [OF assms] assms(2) by (simp add: bit_do_parse_field1_2_def bit_monad)

lemma field1_2_cases:
  assumes "wf_bit b"
  obtains xs where "unread b = bit_header @ xs"
  | b' msg where "bit_do_parse_field1_2 b = Some (Inl Failed, b')" and "bit_error b' = Some msg"
proof (cases "length bit_header \<le> bit_size b \<and> take (length bit_header) (unread b) = bit_header")
  case True
  then show ?thesis
    using that(1) append_take_drop_id [of "length bit_header" "unread b"] by metis
next
  case False
  then have "\<exists>b' msg. bit_do_parse_field1_2 b = Some (Inl Failed, b') \<and> bit_error b' = Some msg"
    using assms by (auto simp: bit_do_parse_field1_2_def bit_monad wf_bit_def)
  then show ?thesis
    using that(2) by blast
qed

lemma field7_ok:
  assumes "wf_bit b" and "unread b = 0x65 # be32 n @ xs" and "unat n \<le> length xs"
  shows "bit_do_parse_field7 b =
    Some (Inr (), b\<lparr>bit_length := unat n, pos := pos b + 5, bit_size := length xs\<rparr>)"
proof -
  have b: "unread b = ([0x65] @ be32 n) @ xs"
    using assms(2) by simp
  note u1 = unread_append [OF assms(1) b]
  have "drop 1 (unread b) = be32 n @ xs"
    by (simp add: b)
  then have b1: "drop (Suc (pos b)) (bit_image b) = be32 n @ xs"
    by simp
  have "take 1 (unread b) = [0x65]"
    unfolding b by simp
  then show ?thesis
    using u1 assms(3) b1 by (simp add: bit_do_parse_field7_def bit_monad load32_be32 numeral_eq_Suc)
qed

lemma five_bytes: "5 \<le> length xs \<Longrightarrow> \<exists>a b c d e ys. xs = a # b # c # d # e # ys"
  by (auto simp: numeral_eq_Suc Suc_le_length_iff)

lemma field7_cases:
  assumes "wf_bit b"
  obtains n xs where "unread b = 0x65 # be32 n @ xs" and "unat n \<le> length xs"
  | b' msg where "bit_do_parse_field7 b = Some (Inl Failed, b')" and "bit_error b' = Some msg"
proof -
  let ?n = "be_to_host_32 (load32 (take 4 (drop 1 (unread b))))"
  have len: "length (unread b) = bit_size b"
    using assms by (simp add: wf_bit_def)
  show ?thesis
  proof (cases "5 \<le> bit_size b \<and> take 1 (unread b) = [0x65] \<and> unat ?n + 5 \<le> bit_size b")
    case True
    then obtain k c0 c1 c2 c3 ys where "unread b = k # c0 # c1 # c2 # c3 # ys"
      using five_bytes [of "unread b"] len by metis
    then have xs: "unread b = 0x65 # c0 # c1 # c2 # c3 # ys"
      using True by simp
    then show ?thesis
      using that(1) [of ?n ys] True len by (simp add: be32_load32 xs)
  next
    case False
    then have "\<exists>b' msg. bit_do_parse_field7 b = Some (Inl Failed, b') \<and> bit_error b' = Some msg"
      using assms by (auto simp: bit_do_parse_field7_def bit_monad wf_bit_def add.commute)
    then show ?thesis
      using that(2) by blast
  qed
qed

text \<open>The whole header.\<close>

definition parsed :: "bit_file \<Rightarrow> u8 list \<Rightarrow> u8 list \<Rightarrow> u8 list \<Rightarrow> u8 list \<Rightarrow> u32 \<Rightarrow> u8 list \<Rightarrow> bit_file" where
  "parsed bf a b c d n payload =
     (let p1 = 16; p2 = p1 + length a + 3; p3 = p2 + length b + 3; p4 = p3 + length c + 3
      in bf\<lparr>bit_image := bit_encode a b c d n payload, pos := p4 + length d + 5,
            bit_size := length payload, ncd_filename := Some p1, part_name := Some p2,
            date := Some p3, time := Some p4, bit_length := unat n\<rparr>)"

lemmas str_fields = bit_do_parse_field2_3_def bit_do_parse_field4_def bit_do_parse_field5_def
  bit_do_parse_field6_def

lemma str_setters:
  "str_setter (\<lambda>p b. b\<lparr>ncd_filename := Some p\<rparr>)" "str_setter (\<lambda>p b. b\<lparr>part_name := Some p\<rparr>)"
  "str_setter (\<lambda>p b. b\<lparr>date := Some p\<rparr>)" "str_setter (\<lambda>p b. b\<lparr>time := Some p\<rparr>)"
  by (simp_all add: str_setter_def)

lemma str_field_length [simp]: "length (str_field key str) = length str + 3"
  by (simp add: str_field_def)

lemma field_str_step:
  assumes "wf_bit b" and "unread b = str_field key str @ xs" and "str_ok str" and "str_setter f"
  defines "b' \<equiv> (f (pos b + 3) b)\<lparr>pos := pos b + 3 + length str, bit_size := length xs\<rparr>"
  shows "seqE (bit_do_parse_field_str key f # ms) b = seqE ms b'" and "wf_bit b'" and "unread b' = xs"
proof -
  show "seqE (bit_do_parse_field_str key f # ms) b = seqE ms b'"
    using field_str_ok [OF assms(1-4)] by (simp add: thenE_def bindE_def b'_def)
  show "wf_bit b'" "unread b' = xs"
    using unread_append [OF assms(1,2)] assms(4) by (auto simp: b'_def wf_bit_def str_setter_def add.assoc
        add.commute [of 3] add.left_commute)
qed

lemma field1_2_step:
  assumes "wf_bit b" and "unread b = bit_header @ xs"
  defines "b' \<equiv> b\<lparr>pos := pos b + length bit_header, bit_size := length xs\<rparr>"
  shows "seqE (bit_do_parse_field1_2 # ms) b = seqE ms b'" and "wf_bit b'" and "unread b' = xs"
proof -
  show "seqE (bit_do_parse_field1_2 # ms) b = seqE ms b'"
    using field1_2_ok [OF assms(1,2)] by (simp add: thenE_def bindE_def b'_def)
  show "wf_bit b'" "unread b' = xs"
    using unread_append [OF assms(1,2)] by (auto simp: b'_def wf_bit_def add.assoc)
qed

lemma bit_do_parse_ok:
  assumes "list_all str_ok [a, b, c, d]" and "unat n \<le> length payload"
    and "bit_image bf = bit_encode a b c d n payload" and "pos bf = 0" and "wf_bit bf"
  shows "bit_do_parse bf = Some (Inr (), parsed bf a b c d n payload)"
proof -
  have ok: "str_ok a" "str_ok b" "str_ok c" "str_ok d"
    using assms(1) by simp_all
  have r0: "unread bf = bit_header @ str_field 0x61 a @ str_field 0x62 b @ str_field 0x63 c @
      str_field 0x64 d @ 0x65 # be32 n @ payload"
    using assms(3,4) by (simp add: bit_encode_def)
  note s1 = field1_2_step [OF assms(5) r0]
  note s2 = field_str_step [OF s1(2,3) ok(1) str_setters(1)]
  note s3 = field_str_step [OF s2(2,3) ok(2) str_setters(2)]
  note s4 = field_str_step [OF s3(2,3) ok(3) str_setters(3)]
  note s5 = field_str_step [OF s4(2,3) ok(4) str_setters(4)]
  note s6 = field7_ok [OF s5(2,3) assms(2)]
  show ?thesis
    unfolding bit_do_parse_def str_fields s1(1) s2(1) s3(1) s4(1) s5(1)
    unfolding seqE.simps thenE_def bindE_def s6
    using assms(3,4) by (simp add: parsed_def bit_header_def Let_def)
qed

definition stops :: "(bit_file, unit) prog \<Rightarrow> bit_file \<Rightarrow> bool" where
  "stops m b \<longleftrightarrow> (\<exists>b' msg. m b = Some (Inl Failed, b') \<and> bit_error b' = Some msg)"

definition needs :: "(bit_file, unit) prog list \<Rightarrow> (u8 list \<Rightarrow> bool) \<Rightarrow> bool" where
  "needs ms L \<longleftrightarrow> (\<forall>b. wf_bit b \<longrightarrow> L (unread b) \<or> stops (seqE ms) b)"

lemma stops_first:
  "m b = Some (Inl Failed, b') \<Longrightarrow> bit_error b' = Some msg \<Longrightarrow> stops (seqE (m # ms)) b"
  by (auto simp: stops_def thenE_def bindE_def)

lemma stops_cong: "seqE ms b = seqE ns c \<Longrightarrow> stops (seqE ms) b = stops (seqE ns) c"
  by (simp add: stops_def)

lemma needs_field7: "needs [bit_do_parse_field7] (\<lambda>xs. \<exists>n ys. xs = 0x65 # be32 n @ ys \<and> unat n \<le> length ys)"
  unfolding needs_def
proof (intro allI impI)
  fix b
  assume "wf_bit b"
  then show "(\<exists>n ys. unread b = 0x65 # be32 n @ ys \<and> unat n \<le> length ys) \<or> stops (seqE [bit_do_parse_field7]) b"
    by (rule field7_cases) (blast, rule disjI2, rule stops_first)
qed

lemma needs_str:
  assumes "needs ms L" and "str_setter f"
  shows "needs (bit_do_parse_field_str key f # ms) (\<lambda>xs. \<exists>str ys. str_ok str \<and> xs = str_field key str @ ys \<and> L ys)"
  unfolding needs_def
proof (intro allI impI)
  fix b
  assume wf: "wf_bit b"
  let ?ms = "bit_do_parse_field_str key f # ms"
  show "(\<exists>str ys. str_ok str \<and> unread b = str_field key str @ ys \<and> L ys) \<or> stops (seqE ?ms) b"
  proof (rule field_str_cases [OF wf])
    fix str xs
    assume str: "str_ok str" "unread b = str_field key str @ xs"
    note step = field_str_step [OF wf str(2,1) assms(2)]
    have "L xs \<or> stops (seqE ?ms) b"
      using assms(1) [unfolded needs_def, rule_format, OF step(2)]
      unfolding step(3) stops_cong [OF step(1)] .
    then show ?thesis
      using str by blast
  qed (rule disjI2, rule stops_first)
qed

lemma needs_header:
  assumes "needs ms L"
  shows "needs (bit_do_parse_field1_2 # ms) (\<lambda>xs. \<exists>ys. xs = bit_header @ ys \<and> L ys)"
  unfolding needs_def
proof (intro allI impI)
  fix b
  assume wf: "wf_bit b"
  let ?ms = "bit_do_parse_field1_2 # ms"
  show "(\<exists>ys. unread b = bit_header @ ys \<and> L ys) \<or> stops (seqE ?ms) b"
  proof (rule field1_2_cases [OF wf])
    fix xs
    assume hd: "unread b = bit_header @ xs"
    note step = field1_2_step [OF wf hd]
    have "L xs \<or> stops (seqE ?ms) b"
      using assms [unfolded needs_def, rule_format, OF step(2)]
      unfolding step(3) stops_cong [OF step(1)] .
    then show ?thesis
      using hd by blast
  qed (rule disjI2, rule stops_first)
qed

lemma bit_do_parse_cases:
  assumes "wf_bit bf"
  obtains a b c d n payload where "list_all str_ok [a, b, c, d]" and "unat n \<le> length payload"
    and "unread bf = bit_encode a b c d n payload"
  | "stops bit_do_parse bf"
proof -
  note L = needs_header [OF needs_str [OF needs_str [OF needs_str [OF needs_str [OF needs_field7
    str_setters(4)] str_setters(3)] str_setters(2)] str_setters(1)], of "0x61" "0x62" "0x63" "0x64"]
  note split = L [unfolded needs_def, rule_format, OF assms]
  show ?thesis
    using split
  proof (elim disjE exE conjE)
    fix ys a ys1 b ys2 c ys3 d ys4 n payload
    assume eqs: "unread bf = bit_header @ ys" "ys = str_field 0x61 a @ ys1" "ys1 = str_field 0x62 b @ ys2"
      "ys2 = str_field 0x63 c @ ys3" "ys3 = str_field 0x64 d @ ys4" "ys4 = 0x65 # be32 n @ payload"
      and ok: "str_ok a" "str_ok b" "str_ok c" "str_ok d" and n: "unat n \<le> length payload"
    have "unread bf = bit_encode a b c d n payload"
      unfolding eqs bit_encode_def append_assoc by (rule refl)
    moreover have "list_all str_ok [a, b, c, d]"
      using ok by simp
    ultimately show ?thesis
      using that(1) n by blast
  next
    assume "stops (seqE [bit_do_parse_field1_2, bit_do_parse_field_str 0x61 (\<lambda>p b. b\<lparr>ncd_filename := Some p\<rparr>),
      bit_do_parse_field_str 0x62 (\<lambda>p b. b\<lparr>part_name := Some p\<rparr>),
      bit_do_parse_field_str 0x63 (\<lambda>p b. b\<lparr>date := Some p\<rparr>),
      bit_do_parse_field_str 0x64 (\<lambda>p b. b\<lparr>time := Some p\<rparr>), bit_do_parse_field7]) bf"
    then show ?thesis
      by (intro that(2)) (simp only: bit_do_parse_def str_fields)
  qed
qed

section \<open>Loading\<close>

text \<open>Lists in pieces of at most \<open>n\<close> elements.\<close>

function pieces :: "nat \<Rightarrow> 'a list \<Rightarrow> 'a list list" where
  "pieces n xs = (if xs = [] \<or> n = 0 then [] else take n xs # pieces n (drop n xs))"
  by pat_completeness auto
termination
  by (relation "measure (\<lambda>(n, xs). length xs)") auto

declare pieces.simps [simp del]

lemma concat_pieces: "0 < n \<Longrightarrow> concat (pieces n xs) = xs"
  by (induction n xs rule: pieces.induct) (subst pieces.simps, simp)

lemma fill_buffer_spec:
  assumes "length buf = chunk" and "i \<le> chunk" and "fill_buffer i buf dat = (j, buf', rest)"
  shows "j = min chunk (i + length dat)" and "rest = drop (chunk - i) dat" and "length buf' = chunk"
    and "take j buf' = take i buf @ map bitreverse8 (take (chunk - i) dat)"
proof -
  have "j = min chunk (i + length dat) \<and> rest = drop (chunk - i) dat \<and> length buf' = chunk \<and>
      take j buf' = take i buf @ map bitreverse8 (take (chunk - i) dat)"
    using assms
  proof (induction i buf dat rule: fill_buffer.induct)
    case (1 i buf dat)
    show ?case
    proof (cases "i < chunk \<and> dat \<noteq> []")
      case True
      then have run: "fill_buffer (i + 1) (buf[i := bitreverse8 (hd dat)]) (tl dat) = (j, buf', rest)"
        using 1 fill_buffer.simps [of i buf dat] by simp
      have k: "chunk - i = Suc (chunk - (i + 1))"
        using True by linarith
      obtain x xs where dat: "dat = x # xs"
        using True by (cases dat) auto
      show ?thesis
        using "1.IH" [OF True _ _ run] True 1(2) unfolding k dat
        by (auto simp: take_Suc_conv_app_nth)
    next
      case False
      then show ?thesis
        using 1 fill_buffer.simps [of i buf dat] by (cases "dat = []") auto
    qed
  qed
  then show "j = min chunk (i + length dat)" "rest = drop (chunk - i) dat" "length buf' = chunk"
      "take j buf' = take i buf @ map bitreverse8 (take (chunk - i) dat)"
    by blast+
qed

text \<open>Every piece is submitted and, before the next one is, waited for, with the same content.\<close>

definition submit_call :: "u8 list \<Rightarrow> call" where
  "submit_call bs = Ftdi_write_data_submit INTERFACE_A bs"

definition done_call :: "u8 list \<Rightarrow> call" where
  "done_call bs = Ftdi_transfer_data_done INTERFACE_A bs"

definition transfer_plan :: "u8 list \<Rightarrow> call list" where
  "transfer_plan dat = concat (map (\<lambda>bs. [submit_call bs, done_call bs]) (pieces chunk (map bitreverse8 dat)))"

lemma transfer_plan_Nil [simp]: "transfer_plan [] = []"
  by (simp add: transfer_plan_def pieces.simps)

lemma transfer_plan_step:
  assumes "dat \<noteq> []"
  shows "transfer_plan dat = submit_call (map bitreverse8 (take chunk dat)) #
    done_call (map bitreverse8 (take chunk dat)) # transfer_plan (drop chunk dat)"
proof -
  have "chunk \<noteq> 0"
    by (simp add: chunk_def)
  then show ?thesis
    using assms by (simp add: transfer_plan_def pieces.simps [of chunk "map bitreverse8 dat"]
        take_map drop_map)
qed

text \<open>What a transfer in flight will show when it is waited for.\<close>

definition pending :: "u8 list list \<Rightarrow> (nat \<times> nat) option \<Rightarrow> call list" where
  "pending bufs tc = (case tc of None \<Rightarrow> [] | Some t \<Rightarrow> [done_call (take (snd t) (bufs ! fst t))])"

lemma pending_None [simp]: "pending bufs None = []"
  by (simp add: pending_def)

lemma set_loader_error_fields [simp]:
  "bit_error (fst (set_loader_error msg l)) = Some msg" "snd (set_loader_error msg l) = snd l"
  by (simp_all add: set_loader_error_def set_bit_error_def apfst_def map_prod_def split: prod.split)

lemma transfer_done_run:
  "\<exists>r s' es. transfer_done env bufs t s = Some (r, s') \<and> hist s' = hist s @ es \<and>
     map fst es = pending bufs (Some t) \<and>
     (case r of Inr _ \<Rightarrow> obj s' = obj s | Inl e \<Rightarrow> e = Failed \<and> bit_error (fst (obj s')) \<noteq> None)"
  by (auto simp: transfer_done_def do_checked_run Let_def after_def pending_def done_call_def)

lemma wait_run:
  "\<exists>r s' es. (case tc of None \<Rightarrow> ret () | Some t \<Rightarrow> transfer_done env bufs t) s = Some (r, s') \<and>
     hist s' = hist s @ es \<and> map fst es = pending bufs tc \<and>
     (case r of Inr _ \<Rightarrow> obj s' = obj s | Inl e \<Rightarrow> e = Failed \<and> bit_error (fst (obj s')) \<noteq> None)"
proof (cases tc)
  case None
  then show ?thesis
    by (simp add: pending_def)
next
  case (Some t)
  then show ?thesis
    using transfer_done_run [of env bufs t s] by simp
qed

lemma transfer_submit_run:
  "\<exists>r s' es. transfer_submit env bs s = Some (r, s') \<and> hist s' = hist s @ es \<and>
     map fst es = [submit_call bs] \<and>
     (case r of Inr _ \<Rightarrow> obj s' = obj s | Inl e \<Rightarrow> e = Failed \<and> bit_error (fst (obj s')) \<noteq> None)"
  by (auto simp: transfer_submit_def bindE_def after_def submit_call_def)

lemma bit_send_step:
  assumes "dat \<noteq> []" and "fill_buffer 0 (bufs ! bidx) dat = (i, buf, rest)"
  shows "send_chunks env bidx bufs tc dat =
    thenE (case tc of None \<Rightarrow> ret () | Some t \<Rightarrow> transfer_done env (bufs[bidx := buf]) t)
      (thenE (transfer_submit env (take i (bufs[bidx := buf] ! bidx)))
        (send_chunks env ((bidx + 1) mod 2) (bufs[bidx := buf]) (Some (bidx, i)) rest))"
  using assms by (subst send_chunks.simps) (simp add: Let_def)

definition sends :: "call list \<Rightarrow> u8 list list \<Rightarrow> (nat \<times> nat) option \<Rightarrow> loader st \<Rightarrow>
    (error + u8 list list \<times> (nat \<times> nat) option) \<Rightarrow> loader st \<Rightarrow> bool" where
  "sends plan bufs tc s r s' \<longleftrightarrow> (\<exists>es. hist s' = hist s @ es \<and>
     (case r of
        Inr (bufs', tc') \<Rightarrow> obj s' = obj s \<and> map fst es @ pending bufs' tc' = pending bufs tc @ plan
      | Inl e \<Rightarrow> e = Failed \<and> bit_error (fst (obj s')) \<noteq> None \<and> prefix (map fst es) (pending bufs tc @ plan)))"

lemma send_chunks_run:
  assumes "bidx < 2" and "length bufs = 2" and "list_all (\<lambda>b. length b = chunk) bufs"
    and "case tc of None \<Rightarrow> True | Some (k, n) \<Rightarrow> k < 2 \<and> k \<noteq> bidx"
  shows "\<exists>r s'. send_chunks env bidx bufs tc dat s = Some (r, s') \<and> sends (transfer_plan dat) bufs tc s r s' \<and>
    (\<forall>bufs' tc'. r = Inr (bufs', tc') \<longrightarrow> (tc' = None) = (tc = None \<and> dat = []))"
  using assms
proof (induction dat arbitrary: bidx bufs tc s rule: measure_induct_rule [of length])
  case (less dat)
  show ?case
  proof (cases "dat = []")
    case True
    then show ?thesis
      by (simp add: send_chunks.simps sends_def)
  next
    case False
    obtain i buf rest where fill: "fill_buffer 0 (bufs ! bidx) dat = (i, buf, rest)"
      using prod_cases3 by blast
    have "length (bufs ! bidx) = chunk"
      using less.prems by (simp add: list_all_length)
    note f = fill_buffer_spec [OF this _ fill, simplified]
    let ?bufs = "bufs[bidx := buf]"
    let ?bs = "map bitreverse8 (take chunk dat)"
    have bs: "take i (?bufs ! bidx) = ?bs"
      using f less.prems by simp
    have pend: "pending ?bufs tc = pending bufs tc"
      using less.prems(4) by (auto simp: pending_def split: option.splits)
    note run = bit_send_step [OF False fill, of env tc, unfolded bs]
    note plan = transfer_plan_step [OF False]
    obtain r1 s1 es1 where w: "(case tc of None \<Rightarrow> ret () | Some t \<Rightarrow> transfer_done env ?bufs t) s = Some (r1, s1)"
        "hist s1 = hist s @ es1" "map fst es1 = pending bufs tc"
        "case r1 of Inr _ \<Rightarrow> obj s1 = obj s | Inl e \<Rightarrow> e = Failed \<and> bit_error (fst (obj s1)) \<noteq> None"
      using wait_run [where tc = tc and env = env and bufs = ?bufs and s = s] unfolding pend by blast
    obtain r2 s2 es2 where t: "transfer_submit env ?bs s1 = Some (r2, s2)" "hist s2 = hist s1 @ es2"
        "map fst es2 = [submit_call ?bs]"
        "case r2 of Inr _ \<Rightarrow> obj s2 = obj s1 | Inl e \<Rightarrow> e = Failed \<and> bit_error (fst (obj s2)) \<noteq> None"
      using transfer_submit_run [of env ?bs s1] by (elim exE conjE) (rule that)
    consider (wait) e where "r1 = Inl e" | (submit) e where "r1 = Inr ()" "r2 = Inl e"
      | (go) "r1 = Inr ()" "r2 = Inr ()"
      by (cases r1; cases r2) auto
    then show ?thesis
    proof cases
      case wait
      then show ?thesis
        using w unfolding run by (simp add: thenE_def bindE_def sends_def)
    next
      case submit
      then show ?thesis
        using w t unfolding run
        by (simp add: thenE_def bindE_def sends_def plan prefix_def)
    next
      case go
      have "length rest < length dat"
        using f(2) False by (simp add: chunk_def)
      moreover have "pending ?bufs (Some (bidx, i)) = [done_call ?bs]"
        by (simp add: pending_def bs)
      moreover have "(bidx + 1) mod 2 < 2" "list_all (\<lambda>b. length b = chunk) ?bufs" "bidx \<noteq> (bidx + 1) mod 2"
        using less.prems f(3) by (auto simp: list_all_length nth_list_update mod_Suc)
      ultimately obtain r s' where IH: "send_chunks env ((bidx + 1) mod 2) ?bufs (Some (bidx, i)) rest s2 = Some (r, s')"
          "sends (transfer_plan rest) ?bufs (Some (bidx, i)) s2 r s'"
          "\<And>bufs' tc'. r = Inr (bufs', tc') \<Longrightarrow> tc' \<noteq> None"
        using less.IH [of rest "(bidx + 1) mod 2" ?bufs "Some (bidx, i)" s2] less.prems(1,2) by auto
      have "sends (transfer_plan dat) bufs tc s r s'"
        using IH(2) w t go f(2) \<open>pending ?bufs (Some (bidx, i)) = _\<close>
        by (auto simp: sends_def plan split: sum.splits prod.splits)
      then show ?thesis
        using IH w t go False unfolding run by (auto simp: thenE_def bindE_def)
    qed
  qed
qed

text \<open>The loop that waits for the DONE bit makes no transfers.\<close>

definition is_transfer :: "call \<Rightarrow> bool" where
  "is_transfer c = (case c of Ftdi_write_data_submit _ _ \<Rightarrow> True | Ftdi_transfer_data_done _ _ \<Rightarrow> True | _ \<Rightarrow> False)"

definition transfers :: "history \<Rightarrow> call list" where
  "transfers es = filter is_transfer (map fst es)"

lemma transfers_append [simp]: "transfers (es @ fs) = transfers es @ transfers fs"
  by (simp add: transfers_def)

lemma transfers_Nil [simp]: "transfers [] = []"
  by (simp add: transfers_def)

lemma transfer_plan_transfers: "list_all is_transfer (transfer_plan dat)"
  by (auto simp: transfer_plan_def list_all_iff is_transfer_def submit_call_def done_call_def)

lemma pending_transfers: "list_all is_transfer (pending bufs tc)"
  by (auto simp: pending_def is_transfer_def done_call_def split: option.split)

lemma transfers_all: "list_all is_transfer (map fst es) \<Longrightarrow> transfers es = map fst es"
  by (simp add: transfers_def list_all_iff filter_id_conv)

lemma transfers_prefix: "prefix (map fst es) (transfer_plan dat) \<Longrightarrow> transfers es = map fst es"
  using transfer_plan_transfers [of dat] by (intro transfers_all) (auto simp: prefix_def)

definition reads_done :: "history \<Rightarrow> bool" where
  "reads_done es \<longleftrightarrow> (\<exists>rep. last es = (Ftdi_read_data INTERFACE_B 1, rep) \<and> r_bytes rep \<noteq> [] \<and>
     hd (r_bytes rep) AND PORTB_DONE_BIT \<noteq> 0)"

definition writes_nothing :: "history \<Rightarrow> bool" where
  "writes_nothing es \<longleftrightarrow> (\<exists>rep. last es = (Ftdi_write_data INTERFACE_A (replicate 8 0), rep) \<and> r_ret rep = 0)"

definition waited :: "nat \<Rightarrow> loader st \<Rightarrow> (error + nat \<times> u8) \<Rightarrow> loader st \<Rightarrow> bool" where
  "waited n s r s' \<longleftrightarrow> fst (obj s') = fst (obj s) \<and>
     (\<exists>es. hist s' = hist s @ es \<and> transfers es = [] \<and> length es \<le> 3 * n \<and>
       (case r of
          Inl e \<Rightarrow> e = Failed
        | Inr (t, w) \<Rightarrow> if t = 0 then w AND PORTB_DONE_BIT = 0
            else es \<noteq> [] \<and> (reads_done es \<or> writes_nothing es)))"

lemma get_high_run:
  assumes "v AND PORTB_DONE_BIT = 0"
  shows "\<exists>r s' es. zoom snd (\<lambda>c (b, _). (b, c)) (chb_get_high env v) s = Some (r, s') \<and>
     fst (obj s') = fst (obj s) \<and> hist s' = hist s @ es \<and> transfers es = [] \<and> length es \<le> 2 \<and>
     (case r of Inl e \<Rightarrow> e = Failed | Inr w \<Rightarrow> es \<noteq> [] \<and> (w AND PORTB_DONE_BIT \<noteq> 0 \<longrightarrow> reads_done es))"
  using assms
  by (auto simp: zoom_def chb_get_high_def chb_get_def thenE_def bindE_def do_checked_run read_data_run
      Let_def after_def transfers_def is_transfer_def reads_done_def split: prod.splits)

lemma last_append_history:
  "es \<noteq> [] \<Longrightarrow> reads_done (ds @ es) = reads_done es"
  "es \<noteq> [] \<Longrightarrow> writes_nothing (ds @ es) = writes_nothing es"
  by (simp_all add: reads_done_def writes_nothing_def)

lemma wait_done_run:
  "v AND PORTB_DONE_BIT = 0 \<Longrightarrow> \<exists>r s'. wait_done env n v s = Some (r, s') \<and> waited n s r s'"
proof (induction n arbitrary: v s)
  case 0
  then show ?case
    by (simp add: waited_def)
next
  case (Suc n)
  let ?c = "Ftdi_write_data INTERFACE_A (replicate 8 0)"
  let ?r = "respond env (hist s) ?c"
  let ?s1 = "s\<lparr>hist := hist s @ [(?c, ?r)]\<rparr>"
  have none: "transfers ((?c, ?r) # es) = transfers es" for es
    by (simp add: transfers_def is_transfer_def)
  consider "r_ret ?r < 0" | "r_ret ?r = 0" | "0 < r_ret ?r"
    by linarith
  then show ?case
  proof cases
    case 1
    then show ?thesis
      using none by (simp add: bindE_def waited_def)
  next
    case 2
    then show ?thesis
      using none by (simp add: bindE_def waited_def writes_nothing_def)
  next
    case 3
    obtain rh s2 es where get: "zoom snd (\<lambda>c (b, _). (b, c)) (chb_get_high env v) ?s1 = Some (rh, s2)"
        "fst (obj s2) = fst (obj s)" "hist s2 = hist ?s1 @ es" "transfers es = []" "length es \<le> 2"
        "case rh of Inl e \<Rightarrow> e = Failed | Inr w \<Rightarrow> es \<noteq> [] \<and> (w AND PORTB_DONE_BIT \<noteq> 0 \<longrightarrow> reads_done es)"
      using get_high_run [OF Suc.prems, of env ?s1] by auto
    consider (err) e where "rh = Inl e" | (up) w where "rh = Inr w" "w AND PORTB_DONE_BIT \<noteq> 0"
      | (down) w where "rh = Inr w" "w AND PORTB_DONE_BIT = 0"
      by (cases rh) auto
    then show ?thesis
    proof cases
      case err
      then show ?thesis
        using 3 get none by (simp add: bindE_def waited_def)
    next
      case up
      then show ?thesis
        using 3 get none last_append_history(1) [of es "[(?c, ?r)]"] by (simp add: bindE_def waited_def)
    next
      case down
      obtain r s' where IH: "wait_done env n w s2 = Some (r, s')" "waited n s2 r s'"
        using Suc.IH [OF down(2), of s2] by blast
      have run: "wait_done env (Suc n) v s = Some (r, s')"
        using 3 get(1) down IH(1) by (simp add: bindE_def)
      obtain fs where fs: "hist s' = hist s2 @ fs" "transfers fs = []" "length fs \<le> 3 * n"
          "fst (obj s') = fst (obj s2)"
          "case r of Inl e \<Rightarrow> e = Failed
           | Inr (t, w) \<Rightarrow> if t = 0 then w AND PORTB_DONE_BIT = 0
               else fs \<noteq> [] \<and> (reads_done fs \<or> writes_nothing fs)"
        using IH(2) unfolding waited_def by blast
      have "waited (Suc n) s r s'"
        unfolding waited_def
        using fs get none last_append_history [of fs "(?c, ?r) # es"]
        by (intro conjI exI [of _ "(?c, ?r) # es @ fs"])
          (auto simp: transfers_def split: sum.split prod.split)
      then show ?thesis
        using run by blast
    qed
  qed
qed

section \<open>Where the parts of the file are\<close>

definition str_at :: "bit_file \<Rightarrow> nat option \<Rightarrow> u8 list \<Rightarrow> bool" where
  "str_at bf p str = (case p of None \<Rightarrow> False | Some q \<Rightarrow> take (length str) (drop q (bit_image bf)) = str)"

lemma drop_part:
  assumes "dat = xs @ ys" and "length xs = k"
  shows "drop k dat = ys"
  using assms by simp

lemma parsed_unread: "unread (parsed bf a b c d n payload) = payload"
proof -
  let ?xs = "bit_header @ str_field 0x61 a @ str_field 0x62 b @ str_field 0x63 c @ str_field 0x64 d @ 0x65 # be32 n"
  have enc: "bit_encode a b c d n payload = ?xs @ payload"
    by (simp add: bit_encode_def)
  have len: "length ?xs = 16 + length a + 3 + length b + 3 + length c + 3 + length d + 5"
    by (simp add: bit_header_def)
  have "bit_image (parsed bf a b c d n payload) = bit_encode a b c d n payload"
    "pos (parsed bf a b c d n payload) = 16 + length a + 3 + length b + 3 + length c + 3 + length d + 5"
    by (simp_all add: parsed_def Let_def)
  then show ?thesis
    using drop_part [OF enc len] by simp
qed

lemma parsed_wf: "wf_bit (parsed bf a b c d n payload)"
  by (simp add: wf_bit_def parsed_def Let_def bit_encode_def bit_header_def)

lemma str_atI:
  assumes "p = Some (length xs)" and "bit_image bf = xs @ str @ ys"
  shows "str_at bf p str"
  using assms by (simp add: str_at_def)

lemma parsed_strings:
  fixes a b c d payload n bf
  defines "bf' \<equiv> parsed bf a b c d n payload"
  shows "str_at bf' (ncd_filename bf') a" and "str_at bf' (part_name bf') b"
    and "str_at bf' (date bf') c" and "str_at bf' (time bf') d"
proof -
  let ?f = "\<lambda>key str. key # be16 (of_nat (length str)) :: u8 list"
  let ?a = "bit_header @ ?f 0x61 a"
  let ?b = "?a @ a @ ?f 0x62 b"
  let ?c = "?b @ b @ ?f 0x63 c"
  let ?d = "?c @ c @ ?f 0x64 d"
  note defs = bf'_def parsed_def Let_def bit_encode_def str_field_def
  show "str_at bf' (ncd_filename bf') a"
    by (rule str_atI [where xs = ?a]) (simp_all add: defs bit_header_def)
  show "str_at bf' (part_name bf') b"
    by (rule str_atI [where xs = ?b]) (simp_all add: defs bit_header_def)
  show "str_at bf' (date bf') c"
    by (rule str_atI [where xs = ?c]) (simp_all add: defs bit_header_def)
  show "str_at bf' (time bf') d"
    by (rule str_atI [where xs = ?d]) (simp_all add: defs bit_header_def)
qed

lemma bit_init_cases:
  "(\<exists>a b c d n payload. list_all str_ok [a, b, c, d] \<and> unat n \<le> length payload \<and>
      dat = bit_encode a b c d n payload \<and>
      bit_init dat (length dat) bf = Some (Inr (), parsed bf a b c d n payload)) \<or>
   (\<exists>b' msg. bit_init dat (length dat) bf = Some (Inl Failed, b') \<and> bit_error b' = Some msg)"
proof -
  let ?b0 = "bf\<lparr>bit_image := dat, pos := 0, bit_size := length dat\<rparr>"
  have wf: "wf_bit ?b0"
    by (simp add: wf_bit_def)
  have init: "bit_init dat (length dat) bf = bit_do_parse ?b0"
    by (simp add: bit_init_def thenE_def bindE_def modify_def)
  show ?thesis
  proof (rule bit_do_parse_cases [OF wf])
    fix a b c d n payload
    assume ok: "list_all str_ok [a, b, c, d]" "unat n \<le> length payload"
      and "unread ?b0 = bit_encode a b c d n payload"
    then have "bit_do_parse ?b0 = Some (Inr (), parsed bf a b c d n payload)"
      "dat = bit_encode a b c d n payload"
      using bit_do_parse_ok [OF ok _ _ wf] by (simp_all add: parsed_def Let_def)
    then show ?thesis
      unfolding init using ok by blast
  next
    assume "stops bit_do_parse ?b0"
    then show ?thesis
      unfolding init stops_def by blast
  qed
qed

lemma bit_load_firmware_run:
  assumes "wf_bit (fst (obj s))" and "bit_size (fst (obj s)) \<noteq> 0"
    and "length bufs = 2" and "list_all (\<lambda>b. length b = chunk) bufs"
  shows "\<exists>r s' es. bit_load_firmware env bufs s = Some (r, s') \<and> hist s' = hist s @ es \<and>
    (case r of
       Inr _ \<Rightarrow> transfers es = transfer_plan (unread (fst (obj s))) \<and> (reads_done es \<or> writes_nothing es)
     | Inl e \<Rightarrow> e = Failed \<and> prefix (transfers es) (transfer_plan (unread (fst (obj s)))) \<and>
         (bit_error (fst (obj s')) \<noteq> None \<or>
          transfers es = transfer_plan (unread (fst (obj s))) \<and> fst (obj s') = fst (obj s)))"
proof -
  let ?b = "fst (obj s)"
  let ?dat = "unread ?b"
  have dat: "take (bit_size ?b) ?dat = ?dat" "length ?dat = bit_size ?b" "?dat \<noteq> []"
    using assms(1,2) by (auto simp: wf_bit_def)
  obtain r1 s1 where send: "send_chunks env 0 bufs None ?dat s = Some (r1, s1)"
      "sends (transfer_plan ?dat) bufs None s r1 s1" "\<And>bufs' tc'. r1 = Inr (bufs', tc') \<Longrightarrow> tc' \<noteq> None"
    using send_chunks_run [OF _ assms(3,4), of 0 None env ?dat s] dat(3) by auto
  then obtain es1 where es1: "hist s1 = hist s @ es1"
      "case r1 of
        Inr (bufs', tc') \<Rightarrow> obj s1 = obj s \<and> map fst es1 @ pending bufs' tc' = transfer_plan ?dat
      | Inl e \<Rightarrow> e = Failed \<and> bit_error (fst (obj s1)) \<noteq> None \<and> prefix (map fst es1) (transfer_plan ?dat)"
    unfolding sends_def pending_None append_Nil by blast
  have load: "bit_load_firmware env bufs s = bindE (send_chunks env 0 bufs None ?dat) (\<lambda>(bufs', tc).
     thenE (case tc of None \<Rightarrow> throw (Null_pointer ''tc'') | Some t \<Rightarrow> transfer_done env bufs' t)
     (bindE (wait_done env 3 0) (\<lambda>(try, status).
        if try = 0 \<and> status AND PORTB_DONE_BIT = 0
        then fail_str set_loader_error ''done bit stuck low after programming''
        else ret ()))) s"
    using dat by (simp add: bit_load_firmware_def bindE_def)
  show ?thesis
  proof (cases r1)
    case (Inl e)
    then have "transfers es1 = map fst es1"
      using es1(2) by (intro transfers_prefix [of _ ?dat]) simp
    then show ?thesis
      using send(1) es1 Inl unfolding load by (auto simp: bindE_def)
  next
    case (Inr x)
    then obtain bufs' k n where x: "r1 = Inr (bufs', Some (k, n))"
      using send(3) by (cases x; cases "snd x") auto
    have e1: "obj s1 = obj s" "map fst es1 @ pending bufs' (Some (k, n)) = transfer_plan ?dat"
      using es1(2) x by auto
    obtain r2 s2 es2 where fin: "transfer_done env bufs' (k, n) s1 = Some (r2, s2)" "hist s2 = hist s1 @ es2"
        "map fst es2 = pending bufs' (Some (k, n))"
        "case r2 of Inr _ \<Rightarrow> obj s2 = obj s1 | Inl e \<Rightarrow> e = Failed \<and> bit_error (fst (obj s2)) \<noteq> None"
      using transfer_done_run [of env bufs' "(k, n)" s1] by (elim exE conjE) (rule that)
    have tr: "transfers (es1 @ es2) = transfer_plan ?dat"
      using e1(2) fin(3) transfer_plan_transfers [of ?dat] by (subst transfers_all) simp_all
    show ?thesis
    proof (cases r2)
      case (Inl e)
      then show ?thesis
        using send(1) fin es1(1) x tr unfolding load by (auto simp: bindE_def thenE_def)
    next
      case (Inr u)
      obtain r3 s3 where wait: "wait_done env 3 0 s2 = Some (r3, s3)" "waited 3 s2 r3 s3"
        using wait_done_run [of 0 env 3 s2] by auto
      obtain es3 where es3: "hist s3 = hist s2 @ es3" "transfers es3 = []" "fst (obj s3) = fst (obj s2)"
          "case r3 of
            Inl e \<Rightarrow> e = Failed
          | Inr (t, w) \<Rightarrow> if t = 0 then w AND PORTB_DONE_BIT = 0
              else es3 \<noteq> [] \<and> (reads_done es3 \<or> writes_nothing es3)"
        using wait(2) unfolding waited_def by blast
      have hist: "hist s3 = hist s @ (es1 @ es2) @ es3"
        using es1(1) fin(2) es3(1) by simp
      have run: "bit_load_firmware env bufs s = (case r3 of
          Inl e \<Rightarrow> Some (Inl e, s3)
        | Inr (t, w) \<Rightarrow> if t = 0 \<and> w AND PORTB_DONE_BIT = 0
            then fail_str set_loader_error ''done bit stuck low after programming'' s3
            else Some (Inr (), s3))"
        unfolding load using send(1) x fin(1) Inr wait(1)
        by (simp add: bindE_def thenE_def split: sum.split prod.split)
      have objs: "fst (obj s3) = fst (obj s)"
        using es3(3) fin(4) Inr e1(1) by simp
      show ?thesis
        unfolding run using hist tr es3 objs last_append_history [of es3 "es1 @ es2"]
        by (auto simp: transfers_append split: sum.splits prod.splits if_splits)
    qed
  qed
qed

section \<open>Properties\<close>

text \<open>
  C34: Round trip.  A file in the bitstream format is parsed: the four strings, the length and the
  start and size of the data are found where they are, whatever the object held before.
\<close>

theorem bit_header_roundtrip:
  assumes "list_all str_ok [a, b, c, d]" and "unat n \<le> length payload"
  shows "\<exists>bf'. bit_init (bit_encode a b c d n payload) (length (bit_encode a b c d n payload)) bf =
      Some (Inr (), bf') \<and>
    str_at bf' (ncd_filename bf') a \<and> str_at bf' (part_name bf') b \<and> str_at bf' (date bf') c \<and>
    str_at bf' (time bf') d \<and> bit_length bf' = unat n \<and> unread bf' = payload \<and>
    bit_size bf' = length payload"
proof -
  let ?dat = "bit_encode a b c d n payload"
  let ?b0 = "bf\<lparr>bit_image := ?dat, pos := 0, bit_size := length ?dat\<rparr>"
  have "bit_do_parse ?b0 = Some (Inr (), parsed ?b0 a b c d n payload)"
    by (rule bit_do_parse_ok [OF assms]) (simp_all add: wf_bit_def)
  then have "bit_init ?dat (length ?dat) bf = Some (Inr (), parsed bf a b c d n payload)"
    by (simp add: bit_init_def thenE_def bindE_def modify_def parsed_def Let_def)
  then show ?thesis
    using parsed_strings [of bf a b c d n payload] parsed_unread [of bf a b c d n payload]
    by (intro exI [of _ "parsed bf a b c d n payload"]) (simp add: parsed_def Let_def)
qed

definition blank_bit :: bit_file where
  "blank_bit = \<lparr>bit_image = [], pos = 0, bit_size = 0, ncd_filename = None, part_name = None, date = None,
     time = None, bit_length = 0, bit_error = None\<rparr>"

theorem bit_header_roundtrip_witness:
  "\<exists>bf'. bit_init (bit_encode [0x6f, 0] [0x36, 0] [] [] 2 [0xAA, 0x99])
       (length (bit_encode [0x6f, 0] [0x36, 0] [] [] 2 [0xAA, 0x99])) blank_bit = Some (Inr (), bf') \<and>
     str_at bf' (part_name bf') [0x36, 0] \<and> unread bf' = [0xAA, 0x99]"
  using bit_header_roundtrip [of "[0x6f, 0]" "[0x36, 0]" "[]" "[]" 2 "[0xAA, 0x99]" blank_bit]
  by (auto simp: str_ok_def)

text \<open>
  C35: On every file, of any content, \<open>bit_init\<close> reads nothing outside of it and ends: it succeeds
  only if the file is in the format, or returns -1 with the error string set.
\<close>

theorem bit_init_outcome:
  "(\<exists>a b c d n payload. list_all str_ok [a, b, c, d] \<and> unat n \<le> length payload \<and>
      dat = bit_encode a b c d n payload \<and>
      bit_init dat (length dat) bf = Some (Inr (), parsed bf a b c d n payload)) \<or>
   (\<exists>b' msg. bit_init dat (length dat) bf = Some (Inl Failed, b') \<and> bit_error b' = Some msg)"
  using bit_init_cases .


definition bit_test :: "loader st" where
  "bit_test = \<lparr>obj = (blank_bit\<lparr>bit_image := [0x80, 0x01], bit_size := 2\<rparr>, \<lparr>chb_error = None\<rparr>), hist = []\<rparr>"

definition done_env :: env where
  "done_env = \<lparr>respond = \<lambda>h c. \<lparr>r_ret = 1, r_bytes = [0x04], r_size = None\<rparr>, errtext = \<lambda>h. ''error'',
     opcode = \<lambda>_. 0, out_packet_size = 512\<rparr>"

lemma bitreverse8_test: "bitreverse8 0x80 = 0x01" "bitreverse8 0x01 = 0x80"
  by (simp_all add: bitreverse8_def reverse_map_def R6_def R4_def R2_def)


text \<open>
  A file in the format with no data passes \<open>bit_init\<close>; loading it gives libftdi a null pointer to
  wait for, since the loop that submits transfers is never entered.
\<close>

lemma bit_load_firmware_empty:
  assumes "list_all str_ok [a, b, c, d]"
  shows "\<exists>bf'. bit_init (bit_encode a b c d 0 []) (length (bit_encode a b c d 0 [])) bf = Some (Inr (), bf') \<and>
    bit_load_firmware env bufs \<lparr>obj = (bf', cb), hist = h\<rparr> =
      Some (Inl (Null_pointer ''tc''), \<lparr>obj = (bf', cb), hist = h\<rparr>)"
proof -
  let ?dat = "bit_encode a b c d 0 []"
  let ?b0 = "bf\<lparr>bit_image := ?dat, pos := 0, bit_size := length ?dat\<rparr>"
  let ?bf' = "parsed ?b0 a b c d 0 []"
  have "bit_do_parse ?b0 = Some (Inr (), ?bf')"
    by (rule bit_do_parse_ok [OF assms]) (simp_all add: wf_bit_def)
  moreover have "bit_size ?bf' = 0"
    by (simp add: parsed_def Let_def)
  ultimately show ?thesis
    by (intro exI [of _ ?bf'])
      (simp add: bit_init_def bit_load_firmware_def send_chunks.simps thenE_def bindE_def modify_def)
qed

lemma bit_load_firmware_empty_witness:
  "\<exists>bf'. bit_init (bit_encode [0] [0] [0] [0] 0 []) (length (bit_encode [0] [0] [0] [0] 0 [])) blank_bit
       = Some (Inr (), bf') \<and>
     bit_load_firmware done_env [] \<lparr>obj = (bf', \<lparr>chb_error = None\<rparr>), hist = []\<rparr> =
       Some (Inl (Null_pointer ''tc''), \<lparr>obj = (bf', \<lparr>chb_error = None\<rparr>), hist = []\<rparr>)"
  by (rule bit_load_firmware_empty) (simp add: str_ok_def)

end
