(* ===== verification/Reg.thy ===== *)
theory Reg imports
  Prelude
  "HOL-Library.Char_ord"
begin

text \<open>
  The register map of \<open>src/reg.c\<close>: the parser of \<open>map.txt\<close> and the table of register addresses.
  The look-up function \<open>in_word_set\<close> is generated by gperf when the program is built; it is the
  parameter \<open>iws\<close>, and the table it is generated from (\<open>src/reg.gperf\<close>) is \<open>reg_gperf\<close>.  The
  functions of the C library (\<open>strtok\<close>, \<open>strtoul\<close>, \<open>strchr\<close>) are defined as far as they are used.
\<close>

unbundle bit_operations_syntax

section \<open>Registers\<close>

datatype reg_name =
    CSTREAM_CFG
  | CSTREAM_CONS_LO
  | CSTREAM_CONS_HI
  | LEDS_OUT
  | SDRAM_HOST_READ_RING_BASE
  | SDRAM_HOST_READ_RING_END
  | SDRAM_HOST_READ_GO
  | SDRAM_SINK_PTR_READ
  | SDRAM_SINK_RING_BASE
  | SDRAM_SINK_RING_END
  | SDRAM_SINK_GO
  | UCFG_WDATA
  | UCFG_WCMD
  | UCFG_RDATA
  | UCFG_RCMD

text \<open>The loop over \<open>0 .. REG_MAX - 1\<close> needs all of them; \<open>\<forall>\<close> over registers is then executable.\<close>

instantiation reg_name :: enum
begin

definition enum_reg_name :: "reg_name list" where
  "enum_reg_name = [CSTREAM_CFG, CSTREAM_CONS_LO, CSTREAM_CONS_HI, LEDS_OUT,
     SDRAM_HOST_READ_RING_BASE, SDRAM_HOST_READ_RING_END, SDRAM_HOST_READ_GO, SDRAM_SINK_PTR_READ,
     SDRAM_SINK_RING_BASE, SDRAM_SINK_RING_END, SDRAM_SINK_GO, UCFG_WDATA, UCFG_WCMD, UCFG_RDATA,
     UCFG_RCMD]"

definition enum_all_reg_name :: "(reg_name \<Rightarrow> bool) \<Rightarrow> bool" where
  "enum_all_reg_name P \<longleftrightarrow> list_all P enum_class.enum"

definition enum_ex_reg_name :: "(reg_name \<Rightarrow> bool) \<Rightarrow> bool" where
  "enum_ex_reg_name P \<longleftrightarrow> list_ex P enum_class.enum"

instance
proof
  show univ: "(UNIV :: reg_name set) = set enum_class.enum"
    unfolding enum_reg_name_def by (auto intro: reg_name.exhaust)
  show "distinct (enum_class.enum :: reg_name list)"
    by (simp add: enum_reg_name_def)
  show "enum_class.enum_all P \<longleftrightarrow> Ball UNIV P" for P :: "reg_name \<Rightarrow> bool"
    by (simp add: enum_all_reg_name_def univ list_all_iff)
  show "enum_class.enum_ex P \<longleftrightarrow> Bex UNIV P" for P :: "reg_name \<Rightarrow> bool"
    by (simp add: enum_ex_reg_name_def univ list_ex_iff)
qed

end

record reg =
  reg_error :: "string option"
  addr :: "reg_name \<Rightarrow> u16"

definition reg_gperf :: "(string \<times> reg_name) list" where
  "reg_gperf =
     [(''CSTREAM_CFG'', CSTREAM_CFG),
      (''CSTREAM_CONS_LO'', CSTREAM_CONS_LO),
      (''CSTREAM_CONS_HI'', CSTREAM_CONS_HI),
      (''LEDS_OUT'', LEDS_OUT),
      (''SDRAM_HOST_READ_RING_BASE'', SDRAM_HOST_READ_RING_BASE),
      (''SDRAM_HOST_READ_RING_END'', SDRAM_HOST_READ_RING_END),
      (''SDRAM_HOST_READ_GO'', SDRAM_HOST_READ_GO),
      (''SDRAM_SINK_PTR_READ'', SDRAM_SINK_PTR_READ),
      (''SDRAM_SINK_RING_BASE'', SDRAM_SINK_RING_BASE),
      (''SDRAM_SINK_RING_END'', SDRAM_SINK_RING_END),
      (''SDRAM_SINK_GO'', SDRAM_SINK_GO),
      (''UCFG_WDATA'', UCFG_WDATA),
      (''UCFG_WCMD'', UCFG_WCMD),
      (''UCFG_RDATA'', UCFG_RDATA),
      (''UCFG_RCMD'', UCFG_RCMD)]"

section \<open>The functions of the C library\<close>

definition newline :: char where "newline = CHR 0x0A"

text \<open>The part of a string before the first \<open>c\<close>, and the part after it if there is a \<open>c\<close>.\<close>

definition x_strchr :: "char \<Rightarrow> string \<Rightarrow> string \<times> string option" where
  "x_strchr c s = (takeWhile (\<lambda>x. x \<noteq> c) s,
     (case dropWhile (\<lambda>x. x \<noteq> c) s of [] \<Rightarrow> None | _ # n \<Rightarrow> Some n))"

text \<open>The first call of \<open>strtok\<close> on a string.\<close>

definition strtok :: "char \<Rightarrow> string \<Rightarrow> string option" where
  "strtok sep s = (let t = dropWhile (\<lambda>x. x = sep) s
                   in if t = [] then None else Some (takeWhile (\<lambda>x. x \<noteq> sep) t))"

definition isspace :: "char \<Rightarrow> bool" where
  "isspace c \<longleftrightarrow> c = CHR '' '' \<or> (9 \<le> (of_char c :: nat) \<and> (of_char c :: nat) \<le> 13)"

definition hex_value :: "char \<Rightarrow> nat option" where
  "hex_value c = (let n = of_char c in
     if 48 \<le> n \<and> n \<le> 57 then Some (n - 48)
     else if 97 \<le> n \<and> n \<le> 102 then Some (n - 87)
     else if 65 \<le> n \<and> n \<le> 70 then Some (n - 55)
     else None)"

fun hex_digits :: "nat \<Rightarrow> string \<Rightarrow> nat" where
  "hex_digits acc [] = acc"
| "hex_digits acc (c # cs) = (case hex_value c of None \<Rightarrow> acc | Some d \<Rightarrow> hex_digits (16 * acc + d) cs)"

text \<open>\<open>0x\<close> is a prefix only if a hexadecimal digit follows.\<close>

definition skip_0x :: "string \<Rightarrow> string" where
  "skip_0x s = (case s of
       z # x # d # r \<Rightarrow> if z = CHR ''0'' \<and> (x = CHR ''x'' \<or> x = CHR ''X'') \<and> hex_value d \<noteq> None
                       then d # r else s
     | _ \<Rightarrow> s)"

definition ulong_max :: nat where "ulong_max = 2 ^ 64 - 1"

text \<open>\<open>strtoul(s, NULL, 16)\<close>, saturating; a minus sign negates modulo \<open>2 ^ 64\<close>.\<close>

definition strtoul16 :: "string \<Rightarrow> nat" where
  "strtoul16 s =
     (let t = dropWhile isspace s;
          neg = (case t of c # _ \<Rightarrow> c = CHR ''-'' | [] \<Rightarrow> False);
          u = (case t of c # r \<Rightarrow> if c = CHR ''-'' \<or> c = CHR ''+'' then r else t | [] \<Rightarrow> t);
          n = hex_digits 0 (skip_0x u)
      in if n > ulong_max then ulong_max
         else if neg then (2 ^ 64 - n) mod 2 ^ 64 else n)"

section \<open>The parser\<close>

definition reg_from_pair ::
    "(string \<Rightarrow> reg_name option) \<Rightarrow> string \<Rightarrow> nat \<Rightarrow> reg \<Rightarrow> (error + unit) \<times> reg" where
  "reg_from_pair iws key val r =
     (if \<not> val < 0xFFFF then (Inl (Assertion ''value < 0xFFFF''), r)
      else case iws key of
             None \<Rightarrow> (Inl Failed, r)
           | Some n \<Rightarrow> (Inr (), r\<lparr>addr := (addr r)(n := of_nat val)\<rparr>))"

text \<open>The return value of \<open>reg_from_pair\<close> is not looked at.\<close>

definition reg_from_line ::
    "(string \<Rightarrow> reg_name option) \<Rightarrow> string \<Rightarrow> reg \<Rightarrow> (error + unit) \<times> reg" where
  "reg_from_line iws line r =
     (if line = [] \<or> hd line = CHR ''#'' then (Inr (), r)
      else case x_strchr (CHR ''='') line of
             (_, None) \<Rightarrow> (Inl Failed, r)
           | (before, Some val) \<Rightarrow>
               (case strtok (CHR '' '') before of
                  None \<Rightarrow> (Inl (Assertion ''key''), r)
                | Some key \<Rightarrow>
                    (case reg_from_pair iws key (strtoul16 val) r of
                       (Inl Failed, r') \<Rightarrow> (Inr (), r')
                     | res \<Rightarrow> res)))"

definition reg_validate :: "reg \<Rightarrow> (error + unit) \<times> reg" where
  "reg_validate r =
     (if \<exists>n. addr r n = 0xffff
      then (Inl Failed, r\<lparr>reg_error := Some ''Missed register address''\<rparr>)
      else (Inr (), r))"

lemma x_strchr_shorter: "x_strchr c s = (l, Some n) \<Longrightarrow> length n < length s"
  using length_dropWhile_le [of "\<lambda>x. x \<noteq> c" s] by (auto simp: x_strchr_def split: list.splits)

text \<open>The \<open>do ... while (n)\<close> loop over the lines.\<close>

function reg_lines ::
    "(string \<Rightarrow> reg_name option) \<Rightarrow> string \<Rightarrow> reg \<Rightarrow> (error + unit) \<times> reg" where
  "reg_lines iws c r =
     (case x_strchr newline c of
        (line, n) \<Rightarrow>
          (case reg_from_line iws line r of
             (Inl Failed, r') \<Rightarrow> (Inl Failed, r'\<lparr>reg_error := Some ''Can not parse register map''\<rparr>)
           | (Inl e, r') \<Rightarrow> (Inl e, r')
           | (Inr _, r') \<Rightarrow> (case n of None \<Rightarrow> (Inr (), r') | Some n' \<Rightarrow> reg_lines iws n' r')))"
  by pat_completeness auto
termination
  by (relation "measure (\<lambda>(iws, c, r). length c)") (auto dest: x_strchr_shorter [OF sym])

declare reg_lines.simps [simp del]

definition reg_init_from_map ::
    "(string \<Rightarrow> reg_name option) \<Rightarrow> string \<Rightarrow> reg \<Rightarrow> (error + unit) \<times> reg" where
  "reg_init_from_map iws m r = (case reg_lines iws m r of
       (Inl e, r') \<Rightarrow> (Inl e, r')
     | (Inr _, r') \<Rightarrow> reg_validate r')"

text \<open>\<open>memset(reg, 0xff, ...)\<close> and \<open>error_str = NULL\<close>: nothing of the old contents is left.\<close>

definition reg_blank :: reg where
  "reg_blank = \<lparr>reg_error = None, addr = \<lambda>_. 0xffff\<rparr>"

definition reg_init :: "(string \<Rightarrow> reg_name option) \<Rightarrow> string \<Rightarrow> (error + unit) \<times> reg" where
  "reg_init iws m = reg_init_from_map iws m reg_blank"

definition reg_init_from_reg :: "reg \<Rightarrow> reg \<Rightarrow> (error + unit) \<times> reg" where
  "reg_init_from_reg r other = (Inr (), other)"

end
