(* ===== verification/Reg_Spec.thy ===== *)
theory Reg_Spec imports
  Reg
begin

text \<open>
  What the register map parser accepts and what it makes of it: a printer for maps with comments,
  blank lines and any spacing, the round trip, and the possible outcomes on any text.
\<close>

section \<open>Printing\<close>

definition hex_digit :: "nat \<Rightarrow> char" where
  "hex_digit n = char_of (if n < 10 then 48 + n else 87 + n)"

definition hex4 :: "u16 \<Rightarrow> string" where
  "hex4 w = map hex_digit [unat w div 4096, unat w div 256 mod 16, unat w div 16 mod 16, unat w mod 16]"

datatype map_line =
    Comment string
  | Blank
  | Entry nat string nat nat u16   \<comment> \<open>spaces, name, spaces, spaces after the sign, address\<close>

fun print_line :: "map_line \<Rightarrow> string" where
  "print_line (Comment s) = CHR ''#'' # s"
| "print_line Blank = []"
| "print_line (Entry i key j k v) =
     replicate i (CHR '' '') @ key @ replicate j (CHR '' '') @ ''='' @ replicate k (CHR '' '') @
     ''0x'' @ hex4 v"

fun print_map :: "map_line list \<Rightarrow> string" where
  "print_map [] = []"
| "print_map [l] = print_line l"
| "print_map (l # l' # ls) = print_line l @ newline # print_map (l' # ls)"

definition name_ok :: "string \<Rightarrow> bool" where
  "name_ok key \<longleftrightarrow> key \<noteq> [] \<and> CHR '' '' \<notin> set key \<and> CHR ''='' \<notin> set key \<and> newline \<notin> set key \<and>
     hd key \<noteq> CHR ''#''"

fun line_ok :: "map_line \<Rightarrow> bool" where
  "line_ok (Comment s) \<longleftrightarrow> newline \<notin> set s"
| "line_ok Blank \<longleftrightarrow> True"
| "line_ok (Entry i key j k v) \<longleftrightarrow> name_ok key \<and> v \<noteq> 0xffff"

text \<open>The meaning of a line; unknown names are ignored.\<close>

fun assign_line :: "(string \<Rightarrow> reg_name option) \<Rightarrow> map_line \<Rightarrow> (reg_name \<Rightarrow> u16) \<Rightarrow> (reg_name \<Rightarrow> u16)" where
  "assign_line iws (Entry i key j k v) f = (case iws key of None \<Rightarrow> f | Some n \<Rightarrow> f(n := v))"
| "assign_line iws _ f = f"

section \<open>Numbers\<close>

lemma hex_value_digit: "n < 16 \<Longrightarrow> hex_value (hex_digit n) = Some n"
  by (cases "n < 10") (auto simp: hex_value_def hex_digit_def of_char_of)

lemma hex_digit_class:
  assumes "n < 16"
  shows "hex_digit n \<noteq> newline" and "hex_digit n \<noteq> CHR '' ''" and "\<not> isspace (hex_digit n)"
proof -
  have "hex_value newline = None" "hex_value (CHR '' '') = None"
    by (simp_all add: newline_def hex_value_def)
  then show "hex_digit n \<noteq> newline" "hex_digit n \<noteq> CHR '' ''"
    using hex_value_digit [OF assms] by auto
  then show "\<not> isspace (hex_digit n)"
    using assms by (auto simp: isspace_def hex_digit_def of_char_of)
qed

lemma hex_digits_hex4: "hex_digits 0 (hex4 w) = unat w"
proof -
  let ?n = "unat w"
  have "?n < 65536"
    by (rule unat_u16_less)
  then have d: "?n div 4096 < 16" "?n div 256 mod 16 < 16" "?n div 16 mod 16 < 16" "?n mod 16 < 16"
    by (simp_all add: less_mult_imp_div_less)
  have "hex_digits 0 (hex4 w) =
      16 * (16 * (16 * (?n div 4096) + ?n div 256 mod 16) + ?n div 16 mod 16) + ?n mod 16"
    using d by (simp add: hex4_def hex_value_digit)
  also have "\<dots> = ?n"
  proof -
    have "16 * (?n div 4096) + ?n div 256 mod 16 = ?n div 256"
      using div_mult_mod_eq [of "?n div 256" 16] by (simp add: div_mult2_eq [symmetric] mult.commute)
    moreover have "16 * (?n div 256) + ?n div 16 mod 16 = ?n div 16"
      using div_mult_mod_eq [of "?n div 16" 16] by (simp add: div_mult2_eq [symmetric] mult.commute)
    ultimately show ?thesis
      using div_mult_mod_eq [of ?n 16] by simp
  qed
  finally show ?thesis .
qed

lemma hex4_chars: "c \<in> set (hex4 w) \<Longrightarrow> c \<noteq> newline"
proof -
  have "unat w div 4096 < 16"
    using unat_u16_less [of w] by (simp add: less_mult_imp_div_less)
  then have "\<forall>n \<in> {unat w div 4096, unat w div 256 mod 16, unat w div 16 mod 16, unat w mod 16}.
      hex_digit n \<noteq> newline"
    by (auto intro!: hex_digit_class(1))
  then show "c \<in> set (hex4 w) \<Longrightarrow> c \<noteq> newline"
    by (auto simp: hex4_def)
qed

lemma strtoul16_hex4: "strtoul16 (replicate k (CHR '' '') @ ''0x'' @ hex4 w) = unat w"
proof -
  have "unat w div 4096 < 16"
    using unat_u16_less [of w] by (simp add: less_mult_imp_div_less)
  then have first: "hex_value (hd (hex4 w)) \<noteq> None"
    using hex_value_digit by (simp add: hex4_def)
  have "dropWhile isspace (replicate k (CHR '' '') @ ''0x'' @ hex4 w) = ''0x'' @ hex4 w"
    by (induction k) (simp_all add: isspace_def)
  moreover have "skip_0x (''0x'' @ hex4 w) = hex4 w"
    using first by (simp add: skip_0x_def hex4_def)
  moreover have "\<not> ulong_max < unat w"
    using unat_u16_less [of w] by (simp add: ulong_max_def)
  ultimately show ?thesis
    by (simp add: strtoul16_def Let_def hex_digits_hex4)
qed

section \<open>Lines\<close>

lemma x_strchr_append:
  "c \<notin> set s \<Longrightarrow> x_strchr c (s @ c # t) = (s, Some t)"
  by (induction s) (auto simp: x_strchr_def)

lemma x_strchr_none: "c \<notin> set s \<Longrightarrow> x_strchr c s = (s, None)"
  by (induction s) (auto simp: x_strchr_def)

lemma strtok_name:
  assumes "name_ok key"
  shows "strtok (CHR '' '') (replicate i (CHR '' '') @ key @ replicate j (CHR '' '')) = Some key"
proof -
  obtain c cs where key: "key = c # cs" "c \<noteq> CHR '' ''"
    using assms by (cases key) (auto simp: name_ok_def)
  have "dropWhile (\<lambda>x. x = CHR '' '') (replicate i (CHR '' '') @ key @ replicate j (CHR '' '')) =
      key @ replicate j (CHR '' '')"
    using key by (induction i) simp_all
  moreover have "takeWhile (\<lambda>x. x \<noteq> CHR '' '') (key @ replicate j (CHR '' '')) = key"
    using assms by (subst takeWhile_append2) (auto simp: name_ok_def takeWhile_replicate)
  ultimately show ?thesis
    using key(1) by (simp add: strtok_def)
qed

lemma reg_from_printed:
  assumes "line_ok l"
  shows "reg_from_line iws (print_line l) r = (Inr (), r\<lparr>addr := assign_line iws l (addr r)\<rparr>)"
proof (cases l)
  case (Entry i key j k v)
  let ?sp = "\<lambda>n. replicate n (CHR '' '')"
  let ?line = "?sp i @ key @ ?sp j @ ''='' @ ?sp k @ ''0x'' @ hex4 v"
  have name: "name_ok key" and v: "v \<noteq> 0xffff"
    using assms Entry by simp_all
  have start: "?line \<noteq> []" "hd ?line \<noteq> CHR ''#''"
    using name by (cases i; auto simp: name_ok_def)+
  have "x_strchr (CHR ''='') ((?sp i @ key @ ?sp j) @ CHR ''='' # ?sp k @ ''0x'' @ hex4 v) =
      (?sp i @ key @ ?sp j, Some (?sp k @ ''0x'' @ hex4 v))"
    using name by (intro x_strchr_append) (auto simp: name_ok_def)
  then have split: "x_strchr (CHR ''='') ?line = (?sp i @ key @ ?sp j, Some (?sp k @ ''0x'' @ hex4 v))"
    by simp
  have "unat v \<noteq> 65535"
    using v eq_of_nat_unat [of v 65535] by auto
  then have small: "unat v < 0xFFFF"
    using unat_u16_less [of v] by simp
  have r: "r = r\<lparr>addr := addr r\<rparr>"
    by simp
  show ?thesis
    unfolding Entry print_line.simps reg_from_line_def split
    using start small strtok_name [OF name, of i j] strtoul16_hex4 [of k v]
    by (simp add: reg_from_pair_def split: option.split)
qed (simp_all add: reg_from_line_def)

section \<open>Maps\<close>

lemma print_line_no_newline:
  assumes "line_ok l"
  shows "newline \<notin> set (print_line l)"
proof (cases l)
  case (Entry i key j k v)
  have "newline \<notin> set (hex4 v)"
    using hex4_chars [of newline v] by blast
  then show ?thesis
    using assms Entry by (auto simp: name_ok_def newline_def)
qed (use assms in \<open>auto simp: newline_def\<close>)

lemma reg_lines_printed:
  assumes "list_all line_ok ls" and "ls \<noteq> []"
  shows "reg_lines iws (print_map ls) r = (Inr (), r\<lparr>addr := fold (assign_line iws) ls (addr r)\<rparr>)"
  using assms
proof (induction ls arbitrary: r rule: print_map.induct)
  case (2 l)
  then show ?case
    using print_line_no_newline [of l]
    by (subst reg_lines.simps) (simp add: x_strchr_none reg_from_printed)
next
  case (3 l l' ls)
  then show ?case
    using print_line_no_newline [of l]
    by (subst reg_lines.simps) (simp add: x_strchr_append reg_from_printed del: print_map.simps(2,3)
        add: print_map.simps(3) [of l l' ls])
qed simp

text \<open>What the loop over the lines can end with.\<close>

lemma reg_from_line_result:
  "reg_from_line iws line r = (res, r') \<Longrightarrow>
   reg_error r' = reg_error r \<and> (res = Inl Failed \<or> res = Inr () \<or>
     res = Inl (Assertion ''key'') \<or> res = Inl (Assertion ''value < 0xFFFF''))"
  by (auto simp: reg_from_line_def reg_from_pair_def split: if_splits prod.splits option.splits)

lemma reg_lines_result:
  "reg_lines iws c r = (res, r') \<Longrightarrow> reg_error r = None \<Longrightarrow>
   (res = Inl Failed \<and> reg_error r' = Some ''Can not parse register map'') \<or>
   (res = Inr () \<and> reg_error r' = None) \<or>
   res = Inl (Assertion ''key'') \<or> res = Inl (Assertion ''value < 0xFFFF'')"
proof (induction iws c r rule: reg_lines.induct)
  case (1 iws c r)
  obtain line n where split: "x_strchr newline c = (line, n)"
    by fastforce
  obtain res1 r1 where line: "reg_from_line iws line r = (res1, r1)"
    by fastforce
  note res1 = reg_from_line_result [OF line]
  show ?case
  proof (cases "res1 = Inr () \<and> n \<noteq> None")
    case True
    then obtain n' where n': "n = Some n'" "res1 = Inr ()"
      by auto
    have "reg_lines iws n' r1 = (res, r')"
      using "1.prems"(1) split line n' by (subst (asm) reg_lines.simps) simp
    moreover have "reg_error r1 = None"
      using res1 "1.prems"(2) by simp
    ultimately show ?thesis
      using "1.IH" [OF split [symmetric] line [symmetric]] n' by auto
  next
    case False
    then show ?thesis
      using "1.prems" split line res1 by (subst (asm) reg_lines.simps) auto
  qed
qed

lemma reg_init_result:
  assumes "reg_init iws m = (res, r)"
  shows "case res of
      Inr _ \<Rightarrow> reg_error r = None \<and> (\<forall>n. addr r n \<noteq> 0xffff)
    | Inl e \<Rightarrow> (e = Failed \<and> reg_error r \<noteq> None) \<or> e = Assertion ''key'' \<or> e = Assertion ''value < 0xFFFF''"
proof -
  obtain res1 r1 where lines: "reg_lines iws m reg_blank = (res1, r1)"
    by fastforce
  then show ?thesis
    using assms reg_lines_result [OF lines]
    by (auto simp: reg_init_def reg_init_from_map_def reg_validate_def reg_blank_def split: if_splits)
qed

section \<open>Properties\<close>

text \<open>
  C23: Round trip.  A register map printed with any comments, blank lines and spacing is read back:
  every known register has the address of its last line, unknown names are ignored, and the result
  is a success exactly if every register got an address.
\<close>

theorem reg_map_roundtrip:
  assumes "list_all line_ok ls" and "ls \<noteq> []"
  shows "reg_init iws (print_map ls) =
    (let f = fold (assign_line iws) ls (\<lambda>_. 0xffff)
     in if \<forall>n. f n \<noteq> 0xffff then (Inr (), \<lparr>reg_error = None, addr = f\<rparr>)
        else (Inl Failed, \<lparr>reg_error = Some ''Missed register address'', addr = f\<rparr>))"
  using reg_lines_printed [OF assms, of iws reg_blank]
  by (auto simp: reg_init_def reg_init_from_map_def reg_validate_def reg_blank_def Let_def)

definition test_map :: "map_line list" where
  "test_map = Comment '' registers'' # Blank #
     map (\<lambda>(i, nm, _). Entry 0 nm 1 1 (0x800 + of_nat i)) (zip [0..<15] reg_gperf)"

theorem reg_map_roundtrip_witness:
  "fst (reg_init (map_of reg_gperf) (print_map test_map)) = Inr () \<and>
   addr (snd (reg_init (map_of reg_gperf) (print_map test_map))) CSTREAM_CONS_HI = 0x802"
proof -
  have names: "list_all name_ok (map fst reg_gperf)"
    by (simp add: reg_gperf_def name_ok_def newline_def)
  have ok: "list_all line_ok test_map"
    by (simp add: test_map_def reg_gperf_def upt_rec name_ok_def newline_def)
  have "fold (assign_line (map_of reg_gperf)) test_map (\<lambda>_. 0xffff) n \<noteq> 0xffff" for n
    by (cases n) (simp_all add: test_map_def reg_gperf_def upt_rec)
  moreover have "fold (assign_line (map_of reg_gperf)) test_map (\<lambda>_. 0xffff) CSTREAM_CONS_HI = 0x802"
    by (simp add: test_map_def reg_gperf_def upt_rec)
  moreover have "test_map \<noteq> []"
    by (simp add: test_map_def)
  ultimately show ?thesis
    using reg_map_roundtrip [OF ok, of "map_of reg_gperf"] by (simp add: Let_def)
qed

text \<open>
  C30: On any text, \<open>reg_init\<close> ends with one of three outcomes: a success, after which no register
  is without an address and no error string is set; a -1 with the error string set; or one of the
  two assertions of the parser.
\<close>

theorem reg_init_outcomes:
  "case reg_init iws m of
     (Inr _, r) \<Rightarrow> reg_error r = None \<and> (\<forall>n. addr r n \<noteq> 0xffff)
   | (Inl e, r) \<Rightarrow> (e = Failed \<and> reg_error r \<noteq> None) \<or> e = Assertion ''key'' \<or>
       e = Assertion ''value < 0xFFFF''"
  by (cases "reg_init iws m") (auto dest: reg_init_result split: sum.splits)

text \<open>
  The value of a line is checked by an assertion only, and before its name is looked up: a map
  whose first line gives any name a value of 0xFFFF or more aborts the program instead of returning
  an error.
\<close>

lemma reg_init_value_abort:
  assumes "name_ok key" and "newline \<notin> set val" and "0xFFFF \<le> strtoul16 val"
  shows "fst (reg_init iws (key @ ''='' @ val @ newline # rest)) = Inl (Assertion ''value < 0xFFFF'')"
proof -
  let ?line = "key @ ''='' @ val"
  have nl: "newline \<notin> set ?line"
    using assms(1,2) by (auto simp: name_ok_def newline_def)
  have split: "x_strchr (CHR ''='') ?line = (key, Some val)"
    using assms(1) x_strchr_append [of "CHR ''=''" key val] by (simp add: name_ok_def)
  have "strtok (CHR '' '') key = Some key"
    using strtok_name [OF assms(1), of 0 0] by simp
  then have line: "reg_from_line iws ?line reg_blank = (Inl (Assertion ''value < 0xFFFF''), reg_blank)"
    unfolding reg_from_line_def split
    using assms(1,3) by (cases key) (simp_all add: name_ok_def reg_from_pair_def)
  have "x_strchr newline (key @ ''='' @ val @ newline # rest) = (?line, Some rest)"
    using x_strchr_append [OF nl, of rest] by simp
  then have "reg_lines iws (key @ ''='' @ val @ newline # rest) reg_blank =
      (Inl (Assertion ''value < 0xFFFF''), reg_blank)"
    using line by (subst reg_lines.simps) simp
  then show ?thesis
    by (simp add: reg_init_def reg_init_from_map_def)
qed

lemma reg_init_value_abort_witness:
  "fst (reg_init (map_of reg_gperf) (''X'' @ ''='' @ ''10000'' @ newline # []))
     = Inl (Assertion ''value < 0xFFFF'')"
  by (rule reg_init_value_abort)
    (simp_all add: name_ok_def newline_def strtoul16_def isspace_def skip_0x_def hex_value_def ulong_max_def)

end
