(* ===== verification/Fwpkg.thy ===== *)
theory Fwpkg imports
  Platform
  Reg_Spec
begin

text \<open>
  \<open>src/fwpkg.c\<close>, the firmware package (a zip file with \<open>map.txt\<close> and \<open>ov3.bit\<close>), and
  \<open>reg_init_from_fwpkg\<close> of \<open>src/reg.c\<close>, which reads the register map out of it.  libzip is the
  environment.  The package that is linked into the library is the Unix variant.
\<close>

record fwpkg =
  pkg :: bool                  \<comment> \<open>the pointer is not NULL\<close>
  map_index :: u64
  bitstream_index :: u64
  fw_error :: "string option"

definition set_fw_error :: "string \<Rightarrow> fwpkg \<Rightarrow> fwpkg" where
  "set_fw_error msg f = f\<lparr>fw_error := Some msg\<rparr>"

text \<open>The structure after \<open>memset\<close>.\<close>

definition fwpkg_zero :: fwpkg where
  "fwpkg_zero = \<lparr>pkg = False, map_index = 0, bitstream_index = 0, fw_error = None\<rparr>"

section \<open>Operations\<close>

text \<open>\<open>size\<close> is the size of the buffer; the result is the bytes that were put into it.\<close>

definition fwpkg_read_file :: "env \<Rightarrow> nat \<Rightarrow> u64 \<Rightarrow> (fwpkg st, u8 list) prog" where
  "fwpkg_read_file env sz index =
     bindE (perform env (Zip_fopen_index index)) (\<lambda>file.
       if r_ret file = 0 then fail_lib env set_fw_error
       else bindE (perform env (Zip_fread sz)) (\<lambda>r.
         if r_ret r = -1
         then onfail (fail_lib env set_fw_error) (call_void env Zip_fclose)
         else thenE (call_void env Zip_fclose) (ret (take sz (r_bytes r)))))"

definition size_max :: nat where "size_max = 2 ^ 64 - 1"

definition fwpkg_file_size :: "env \<Rightarrow> u64 \<Rightarrow> (fwpkg st, nat) prog" where
  "fwpkg_file_size env index =
     bindE (perform env (Zip_stat_index index)) (\<lambda>sb.
       if r_ret sb = -1
       then (\<lambda>s. thenE (modify_obj (set_fw_error (errtext env (hist s)))) (ret size_max) s)
       else case r_size sb of
              None \<Rightarrow> thenE (modify_obj (set_fw_error ''Can not read uncompressed size'')) (ret size_max)
            | Some n \<Rightarrow> ret (unat n))"

definition fwpkg_locate_files :: "env \<Rightarrow> (fwpkg st, unit) prog" where
  "fwpkg_locate_files env =
     bindE (perform env (Zip_name_locate ''map.txt'')) (\<lambda>r.
     thenE (modify_obj (\<lambda>f. f\<lparr>map_index := of_int (r_ret r)\<rparr>))
       (if of_int (r_ret r) = (-1 :: u64)
        then onfail (fail_str set_fw_error ''Can not find map.txt file'') (call_void env Zip_discard)
        else bindE (perform env (Zip_name_locate ''ov3.bit'')) (\<lambda>r.
          thenE (modify_obj (\<lambda>f. f\<lparr>bitstream_index := of_int (r_ret r)\<rparr>))
            (if of_int (r_ret r) = (-1 :: u64)
             then onfail (fail_str set_fw_error ''Can not find ov3.bit file'') (call_void env Zip_discard)
             else ret ()))))"

definition fwpkg_init_from_buffer :: "env \<Rightarrow> (fwpkg st, unit) prog" where
  "fwpkg_init_from_buffer env =
     thenE (modify_obj (\<lambda>_. fwpkg_zero))
     (bindE (perform env Zip_source_buffer_create) (\<lambda>src.
       if r_ret src = 0 then fail_lib env set_fw_error
       else bindE (perform env Zip_open_from_source) (\<lambda>p.
         thenE (modify_obj (\<lambda>f. f\<lparr>pkg := r_ret p \<noteq> 0\<rparr>))
           (if r_ret p = 0 then fail_lib env set_fw_error else fwpkg_locate_files env))))"

definition fwpkg_init_from_file :: "env \<Rightarrow> string \<Rightarrow> (fwpkg st, unit) prog" where
  "fwpkg_init_from_file env filename =
     thenE (modify_obj (\<lambda>_. fwpkg_zero))
     (bindE (perform env (Zip_open filename)) (\<lambda>p.
       thenE (modify_obj (\<lambda>f. f\<lparr>pkg := r_ret p \<noteq> 0\<rparr>))
         (if r_ret p = 0 then fail_lib env set_fw_error else fwpkg_locate_files env)))"

definition fwpkg_init_from_preload :: "env \<Rightarrow> (fwpkg st, unit) prog" where
  "fwpkg_init_from_preload env = fwpkg_init_from_buffer env"

definition fwpkg_init :: "env \<Rightarrow> string option \<Rightarrow> (fwpkg st, unit) prog" where
  "fwpkg_init env filename = (case filename of
       Some n \<Rightarrow> fwpkg_init_from_file env n | None \<Rightarrow> fwpkg_init_from_preload env)"

definition fwpkg_destroy :: "env \<Rightarrow> (fwpkg st, unit) prog" where
  "fwpkg_destroy env = call_void env Zip_discard"

definition fwpkg_read_map :: "env \<Rightarrow> nat \<Rightarrow> (fwpkg st, u8 list) prog" where
  "fwpkg_read_map env sz = bindE (gets_obj map_index) (fwpkg_read_file env sz)"

definition fwpkg_read_bitstream :: "env \<Rightarrow> nat \<Rightarrow> (fwpkg st, u8 list) prog" where
  "fwpkg_read_bitstream env sz = bindE (gets_obj bitstream_index) (fwpkg_read_file env sz)"

definition fwpkg_map_size :: "env \<Rightarrow> (fwpkg st, nat) prog" where
  "fwpkg_map_size env = bindE (gets_obj map_index) (fwpkg_file_size env)"

definition fwpkg_bitstream_size :: "env \<Rightarrow> (fwpkg st, nat) prog" where
  "fwpkg_bitstream_size env = bindE (gets_obj bitstream_index) (fwpkg_file_size env)"

section \<open>The register map of a package\<close>

text \<open>A NUL-terminated buffer as a string.\<close>

definition c_string :: "u8 list \<Rightarrow> string" where
  "c_string bs = map (\<lambda>b. char_of (unat b)) (takeWhile (\<lambda>b. b \<noteq> 0) bs)"

definition run_pure :: "('c \<Rightarrow> (error + 'a) \<times> 'c) \<Rightarrow> ('c st, 'a) prog" where
  "run_pure f = (\<lambda>s. case f (obj s) of (r, c) \<Rightarrow> Some (r, s\<lparr>obj := c\<rparr>))"

type_synonym reg_fwpkg = "reg \<times> fwpkg"

definition in_reg :: "(reg st, 'a) prog \<Rightarrow> (reg_fwpkg st, 'a) prog" where
  "in_reg = zoom fst (\<lambda>r (_, f). (r, f))"

definition in_fwpkg :: "(fwpkg st, 'a) prog \<Rightarrow> (reg_fwpkg st, 'a) prog" where
  "in_fwpkg = zoom snd (\<lambda>f (r, _). (r, f))"

definition set_reg_error :: "string \<Rightarrow> reg_fwpkg \<Rightarrow> reg_fwpkg" where
  "set_reg_error msg = (\<lambda>(r, f). (r\<lparr>reg_error := Some msg\<rparr>, f))"

text \<open>
  The size of the buffer is a \<open>size_t\<close>, so \<open>fwpkg_map_size(fwpkg) + 1\<close> wraps; \<open>tmp[size] = 0\<close>
  writes one byte behind the bytes that were read.
\<close>

definition reg_init_from_fwpkg ::
    "env \<Rightarrow> (string \<Rightarrow> reg_name option) \<Rightarrow> (reg_fwpkg st, unit) prog" where
  "reg_init_from_fwpkg env iws =
     bindE (in_fwpkg (fwpkg_map_size env)) (\<lambda>n.
     let sz = (n + 1) mod 2 ^ 64 in
     bindE (perform env (Malloc sz)) (\<lambda>tmp.
       if r_ret tmp = 0 then fail_str set_reg_error ''Cannot allocate memory for register map''
       else
         thenE (onfail
           (bindE
             (onfail (in_fwpkg (fwpkg_read_map env sz))
                (modify_obj (\<lambda>(r, f). (r\<lparr>reg_error := fw_error f\<rparr>, f))))
             (\<lambda>bs. if \<not> length bs < sz then throw (Out_of_bounds ''tmp[size]'')
                   else in_reg (run_pure (\<lambda>_. reg_init iws (c_string bs)))))
           (call_void env Free))
         (call_void env Free)))"

section \<open>Runs\<close>

lemma set_fw_error_string [simp]: "fw_error (set_fw_error msg f) = Some msg"
  by (simp add: set_fw_error_def)

lemma set_fw_error_index [simp]:
  "map_index (set_fw_error msg f) = map_index f"
  "bitstream_index (set_fw_error msg f) = bitstream_index f"
  by (simp_all add: set_fw_error_def)

lemma onfail_fail_lib [simp]:
  "onfail (fail_lib env se) (call_void env c) s =
     Some (Inl Failed, s\<lparr>hist := after env c (hist s), obj := se (errtext env (hist s)) (obj s)\<rparr>)"
  by (simp add: onfail_def after_def)

lemma onfail_fail_str [simp]:
  "onfail (fail_str se msg) (call_void env c) s =
     Some (Inl Failed, s\<lparr>hist := after env c (hist s), obj := se msg (obj s)\<rparr>)"
  by (simp add: onfail_def after_def)

text \<open>The file is closed on every path on which it was opened.\<close>

lemma fwpkg_read_file_run:
  "fwpkg_read_file env sz i s =
     (let h = hist s; h1 = after env (Zip_fopen_index i) h; h2 = after env (Zip_fread sz) h1;
          r = respond env h1 (Zip_fread sz)
      in if r_ret (respond env h (Zip_fopen_index i)) = 0
         then Some (Inl Failed, s\<lparr>hist := h1, obj := set_fw_error (errtext env h1) (obj s)\<rparr>)
         else if r_ret r = -1
         then Some (Inl Failed, s\<lparr>hist := after env Zip_fclose h2, obj := set_fw_error (errtext env h2) (obj s)\<rparr>)
         else Some (Inr (take sz (r_bytes r)), s\<lparr>hist := after env Zip_fclose h2\<rparr>))"
  by (simp add: fwpkg_read_file_def bindE_def thenE_def Let_def after_def)

lemma fwpkg_file_size_run:
  "fwpkg_file_size env i s =
     (let h = after env (Zip_stat_index i) (hist s); sb = respond env (hist s) (Zip_stat_index i)
      in if r_ret sb = -1 then Some (Inr size_max, s\<lparr>hist := h, obj := set_fw_error (errtext env h) (obj s)\<rparr>)
         else case r_size sb of
             None \<Rightarrow> Some (Inr size_max,
               s\<lparr>hist := h, obj := set_fw_error ''Can not read uncompressed size'' (obj s)\<rparr>)
           | Some n \<Rightarrow> Some (Inr (unat n), s\<lparr>hist := h\<rparr>))"
  by (simp add: fwpkg_file_size_def bindE_def thenE_def Let_def after_def split: option.split)

end
