(* ===== verification/Packet.thy ===== *)
theory Packet imports
  Prelude
begin

text \<open>
  The data types of the public header (\<open>include/openvizsla.h\<close>): captured USB packets, the
  hardware flags and the USB speeds.
\<close>

unbundle bit_operations_syntax

text \<open>
  \<open>struct ov_packet\<close>. The flexible array member \<open>data[]\<close> is all the storage the caller provided
  behind the 12 byte header, so its length never changes; \<open>pk_size\<close> is the \<open>size\<close> field.
\<close>

record ov_packet =
  pk_magic :: u8
  pk_flags :: u8
  pk_size :: u16
  pk_timestamp :: u64
  pk_data :: "u8 list"

datatype ov_usb_speed = OV_LOW_SPEED | OV_FULL_SPEED | OV_HIGH_SPEED

definition ov_usb_speed_code :: "ov_usb_speed \<Rightarrow> u8" where
  "ov_usb_speed_code sp = (case sp of
     OV_LOW_SPEED \<Rightarrow> 0x4a | OV_FULL_SPEED \<Rightarrow> 0x49 | OV_HIGH_SPEED \<Rightarrow> 0x48)"

definition OV_FLAGS_HF0_ERR :: u8 where "OV_FLAGS_HF0_ERR = 0x01"
definition OV_FLAGS_HF0_OVF :: u8 where "OV_FLAGS_HF0_OVF = 0x02"
definition OV_FLAGS_HF0_TRUNC :: u8 where "OV_FLAGS_HF0_TRUNC = 0x08"
definition OV_FLAGS_HF0_FIRST :: u8 where "OV_FLAGS_HF0_FIRST = 0x10"
definition OV_FLAGS_HF0_LAST :: u8 where "OV_FLAGS_HF0_LAST = 0x20"

definition OV_MAX_PACKET_SIZE :: nat where "OV_MAX_PACKET_SIZE = 1027"

text \<open>\<open>ov_packet_captured_size\<close>: how many data bytes follow the header in the stream.\<close>

definition ov_packet_captured_size :: "ov_packet \<Rightarrow> nat" where
  "ov_packet_captured_size p =
     (if pk_flags p AND OV_FLAGS_HF0_TRUNC \<noteq> 0 then OV_MAX_PACKET_SIZE else unat (pk_size p))"

text \<open>The size of the header, \<open>sizeof(struct ov_packet)\<close> (packed).\<close>

definition ov_packet_header_size :: nat where "ov_packet_header_size = 12"

lemma captured_size_cong [simp]:
  "ov_packet_captured_size (p\<lparr>pk_timestamp := t\<rparr>) = ov_packet_captured_size p"
  "ov_packet_captured_size (p\<lparr>pk_data := d\<rparr>) = ov_packet_captured_size p"
  "ov_packet_captured_size (p\<lparr>pk_magic := m\<rparr>) = ov_packet_captured_size p"
  by (simp_all add: ov_packet_captured_size_def)

lemma captured_size_bound:
  "unat (pk_size p) \<le> n \<Longrightarrow> OV_MAX_PACKET_SIZE \<le> n \<Longrightarrow> ov_packet_captured_size p \<le> n"
  by (simp add: ov_packet_captured_size_def)

lemma ov_usb_speed_code_inject:
  "ov_usb_speed_code a = ov_usb_speed_code b \<longleftrightarrow> a = b"
  by (cases a; cases b) (simp_all add: ov_usb_speed_code_def)

end
