(* ===== verification/Cha.thy ===== *)
theory Cha imports
  Fwpkg
  Packet
begin

text \<open>
  \<open>src/cha.c\<close>, first part: interface A of the FTDI chip, over which the registers of the FPGA are
  written and read, and the operations built on the registers.  (The capture loop is in
  \<open>Cha_Loop\<close>.)  A loop that waits for the device is a \<open>partial_function\<close>: it may never return.
\<close>

unbundle bit_operations_syntax

record cha =
  cha_reg :: reg
  cha_error :: "string option"

definition set_cha_error :: "string \<Rightarrow> cha \<Rightarrow> cha" where
  "set_cha_error msg c = c\<lparr>cha_error := Some msg\<rparr>"

definition UCFG_REG_ADDRMASK :: u8 where "UCFG_REG_ADDRMASK = 0x3f"
definition UCFG_REG_GO :: u8 where "UCFG_REG_GO = 0x80"

definition cha_vendor :: u16 where "cha_vendor = 0x1d50"
definition cha_product :: u16 where "cha_product = 0x607c"

section \<open>Transactions\<close>

definition cha_transaction_checksum :: "u8 list \<Rightarrow> u8" where
  "cha_transaction_checksum buf = foldl (+) 0 buf"

text \<open>\<open>{0x55, addr >> 8, addr & 0xFF, val, 0}\<close> with the checksum put in.\<close>

definition reg_frame :: "u16 \<Rightarrow> u8 \<Rightarrow> u8 list" where
  "reg_frame a val = (let msg = [0x55, ucast (drop_bit 8 a), ucast (a AND 0xFF), val]
                      in msg @ [cha_transaction_checksum msg])"

text \<open>The \<open>for\<close> loop over one buffer; 5 is the state after the whole message.\<close>

fun sync_scan :: "u8 list \<Rightarrow> nat \<Rightarrow> u8 list \<Rightarrow> nat" where
  "sync_scan msg n [] = n"
| "sync_scan msg n (b # bs) =
     (let n' = (if b = msg ! n then n + 1 else 0) in if n' = 5 then 5 else sync_scan msg n' bs)"

partial_function (option) sync_loop ::
    "env \<Rightarrow> u8 list \<Rightarrow> nat \<Rightarrow> cha st \<Rightarrow> ((error + unit) \<times> cha st) option" where
  "sync_loop env msg n s =
     (case read_data env set_cha_error INTERFACE_A 32 s of
        None \<Rightarrow> None
      | Some (Inl e, s') \<Rightarrow> Some (Inl e, s')
      | Some (Inr bs, s') \<Rightarrow>
          (if sync_scan msg n bs = 5 then Some (Inr (), s')
           else sync_loop env msg (sync_scan msg n bs) s'))"

definition cha_sync_stream :: "env \<Rightarrow> u16 \<Rightarrow> (cha st, unit) prog" where
  "cha_sync_stream env a =
     seqE [do_checked env set_cha_error (Ftdi_tcioflush INTERFACE_A),
           do_checked env set_cha_error (Ftdi_write_data INTERFACE_A (reg_frame a 0)),
           sync_loop env (reg_frame a 0) 0,
           do_checked env set_cha_error (Ftdi_tcioflush INTERFACE_A)]"

text \<open>\<open>do ... while (ret == 0)\<close>\<close>

partial_function (option) read_nonempty ::
    "env \<Rightarrow> cha st \<Rightarrow> ((error + u8 list) \<times> cha st) option" where
  "read_nonempty env s =
     (case read_data env set_cha_error INTERFACE_A 5 s of
        None \<Rightarrow> None
      | Some (Inl e, s') \<Rightarrow> Some (Inl e, s')
      | Some (Inr bs, s') \<Rightarrow> if bs = [] then read_nonempty env s' else Some (Inr bs, s'))"

text \<open>
  The answer is read over the message that was sent, so a short answer leaves its tail.  The result
  is \<open>msg[3]\<close>, which the callers without \<open>out_val\<close> drop.
\<close>

definition transaction_answer :: "u16 \<Rightarrow> u8 \<Rightarrow> u8 list \<Rightarrow> (cha st, u8) prog" where
  "transaction_answer a in_val bs =
     (let msg = bs @ drop (length bs) (reg_frame a in_val)
      in if cha_transaction_checksum (take 4 msg) \<noteq> msg ! 4
         then fail_str set_cha_error ''Wrong checksum''
         else ret (msg ! 3))"

definition cha_transaction :: "env \<Rightarrow> u16 \<Rightarrow> u8 \<Rightarrow> (cha st, u8) prog" where
  "cha_transaction env a in_val =
     thenE (do_checked env set_cha_error (Ftdi_write_data INTERFACE_A (reg_frame a in_val)))
     (bindE (read_nonempty env) (transaction_answer a in_val))"

definition cha_switch_mode :: "env \<Rightarrow> bitmode \<Rightarrow> (cha st, unit) prog" where
  "cha_switch_mode env mode =
     seqE [do_checked env set_cha_error (Ftdi_set_bitmode INTERFACE_A 0 BITMODE_RESET),
           do_checked env set_cha_error (Ftdi_set_bitmode INTERFACE_A 0xFF mode),
           do_checked env set_cha_error (Ftdi_set_baudrate INTERFACE_A 315000),
           do_checked env set_cha_error (Ftdi_tcioflush INTERFACE_A)]"

section \<open>Opening and modes\<close>

text \<open>The object of \<open>cha_init\<close> is the channel and the firmware package.\<close>

definition cha_init ::
    "env \<Rightarrow> (string \<Rightarrow> reg_name option) \<Rightarrow> ((cha \<times> fwpkg) st, unit) prog" where
  "cha_init env iws =
     thenE (modify_obj (\<lambda>(_, f).
        (\<lparr>cha_reg = \<lparr>reg_error = None, addr = \<lambda>_. 0\<rparr>, cha_error = None\<rparr>, f)))
     (thenE (onfail
        (zoom (\<lambda>(c, f). (cha_reg c, f)) (\<lambda>(r, f) (c, _). (c\<lparr>cha_reg := r\<rparr>, f))
           (reg_init_from_fwpkg env iws))
        (modify_obj (\<lambda>(c, f). (c\<lparr>cha_error := reg_error (cha_reg c)\<rparr>, f))))
     (zoom fst (\<lambda>c (_, f). (c, f))
        (thenE (do_checked env set_cha_error (Ftdi_init INTERFACE_A))
          (onfail (do_checked env set_cha_error (Ftdi_set_interface INTERFACE_A INTERFACE_A))
             (call_void env (Ftdi_deinit INTERFACE_A))))))"

definition cha_switch_config_mode :: "env \<Rightarrow> (cha st, unit) prog" where
  "cha_switch_config_mode env = cha_switch_mode env BITMODE_BITBANG"

definition cha_open :: "env \<Rightarrow> (cha st, unit) prog" where
  "cha_open env =
     thenE (do_checked env set_cha_error (Ftdi_usb_open INTERFACE_A cha_vendor cha_product))
     (onfail
        (thenE (do_checked env set_cha_error (Ftdi_usb_reset INTERFACE_A)) (cha_switch_config_mode env))
        (call_void env (Ftdi_usb_close INTERFACE_A)))"

definition cha_switch_fifo_mode :: "env \<Rightarrow> (cha st, unit) prog" where
  "cha_switch_fifo_mode env =
     thenE (cha_switch_mode env BITMODE_SYNCFF)
     (thenE (do_checked env set_cha_error (Ftdi_write_data INTERFACE_A (replicate 512 0)))
     (bindE (gets_obj (\<lambda>c. addr (cha_reg c) SDRAM_HOST_READ_GO)) (\<lambda>a.
        cha_sync_stream env (0x8000 OR a))))"

section \<open>Registers\<close>

definition cha_write_reg :: "env \<Rightarrow> u16 \<Rightarrow> u8 \<Rightarrow> (cha st, unit) prog" where
  "cha_write_reg env a val = bindE (cha_transaction env (a OR 0x8000) val) (\<lambda>_. ret ())"

definition cha_read_reg :: "env \<Rightarrow> u16 \<Rightarrow> (cha st, u8) prog" where
  "cha_read_reg env a = cha_transaction env a 0"

definition cast_frame :: "u16 \<Rightarrow> u8 \<Rightarrow> u8 list" where
  "cast_frame a val = (let msg = [0x55, 0x80 OR ucast (drop_bit 8 a), ucast (a AND 0xFF), val]
                       in msg @ [cha_transaction_checksum msg])"

definition cha_cast_reg :: "env \<Rightarrow> u16 \<Rightarrow> u8 \<Rightarrow> (cha st, unit) prog" where
  "cha_cast_reg env a val = do_checked env set_cha_error (Ftdi_write_data INTERFACE_A (cast_frame a val))"

text \<open>
  The two loops over four registers, for any access functions \<open>wr\<close> and \<open>rd\<close>.  \<open>i\<close> is a \<open>uint16_t\<close>;
  the second loop compares it with \<open>addr + 4\<close>, which is an \<open>int\<close> and does not wrap.
\<close>

function write_reg32_loop ::
    "(u16 \<Rightarrow> u8 \<Rightarrow> ('s, unit) prog) \<Rightarrow> u16 \<Rightarrow> u16 \<Rightarrow> u32 \<Rightarrow> ('s, unit) prog" where
  "write_reg32_loop wr a i val =
     (if i = a then ret ()
      else thenE (wr (i - 1) (ucast (val AND 0xFF))) (write_reg32_loop wr a (i - 1) (drop_bit 8 val)))"
  by pat_completeness auto
termination
proof (relation "measure (\<lambda>(wr, a, i, val). unat (i - a))")
  show "((wr, a, i - 1, drop_bit 8 val), (wr, a, i, val)) \<in> measure (\<lambda>(wr, a, i, val). unat (i - a))"
    if "i \<noteq> a" for wr :: "u16 \<Rightarrow> u8 \<Rightarrow> ('s, unit) prog" and a i :: u16 and val :: u32
  proof -
    have "unat (i - a - 1) = unat (i - a) - 1" "0 < unat (i - a)"
      using that by (auto simp: unat_minus_one unat_gt_0)
    then have "unat (i - 1 - a) < unat (i - a)"
      by (subst diff_right_commute) linarith
    then show ?thesis
      by simp
  qed
qed simp

declare write_reg32_loop.simps [simp del]

partial_function (option) read_reg32_loop ::
    "(u16 \<Rightarrow> 's \<Rightarrow> ((error + u8) \<times> 's) option) \<Rightarrow> u16 \<Rightarrow> u16 \<Rightarrow> u32 \<Rightarrow> 's \<Rightarrow> ((error + u32) \<times> 's) option"
  where
  "read_reg32_loop rd a i val s =
     (if unat i = unat a + 4 then Some (Inr val, s)
      else case rd i s of
          None \<Rightarrow> None
        | Some (Inl e, s') \<Rightarrow> Some (Inl e, s')
        | Some (Inr tmp, s') \<Rightarrow> read_reg32_loop rd a (i + 1) (push_bit 8 val OR ucast tmp) s')"

definition cha_write_reg32 :: "env \<Rightarrow> u16 \<Rightarrow> u32 \<Rightarrow> (cha st, unit) prog" where
  "cha_write_reg32 env a val = write_reg32_loop (cha_write_reg env) a (a + 4) val"

text \<open>\<open>val\<close> is what the out-parameter points to before the call.\<close>

definition cha_read_reg32 :: "env \<Rightarrow> u16 \<Rightarrow> u32 \<Rightarrow> (cha st, u32) prog" where
  "cha_read_reg32 env a val = read_reg32_loop (cha_read_reg env) a a val"

definition at_reg :: "reg_name \<Rightarrow> (u16 \<Rightarrow> (cha st, 'a) prog) \<Rightarrow> (cha st, 'a) prog" where
  "at_reg name f = bindE (gets_obj (\<lambda>c. addr (cha_reg c) name)) f"

definition cha_write_reg_by_name :: "env \<Rightarrow> reg_name \<Rightarrow> u8 \<Rightarrow> (cha st, unit) prog" where
  "cha_write_reg_by_name env name val = at_reg name (\<lambda>a. cha_write_reg env a val)"

definition cha_read_reg_by_name :: "env \<Rightarrow> reg_name \<Rightarrow> (cha st, u8) prog" where
  "cha_read_reg_by_name env name = at_reg name (cha_read_reg env)"

definition cha_cast_reg_by_name :: "env \<Rightarrow> reg_name \<Rightarrow> u8 \<Rightarrow> (cha st, unit) prog" where
  "cha_cast_reg_by_name env name val = at_reg name (\<lambda>a. cha_cast_reg env a val)"

definition cha_write_reg32_by_name :: "env \<Rightarrow> reg_name \<Rightarrow> u32 \<Rightarrow> (cha st, unit) prog" where
  "cha_write_reg32_by_name env name val = at_reg name (\<lambda>a. cha_write_reg32 env a val)"

definition cha_read_reg32_by_name :: "env \<Rightarrow> reg_name \<Rightarrow> u32 \<Rightarrow> (cha st, u32) prog" where
  "cha_read_reg32_by_name env name val = at_reg name (\<lambda>a. cha_read_reg32 env a val)"

section \<open>The USB phy\<close>

text \<open>\<open>do { read } while (tmp & UCFG_REG_GO)\<close>\<close>

partial_function (option) poll_go ::
    "('s \<Rightarrow> ((error + u8) \<times> 's) option) \<Rightarrow> 's \<Rightarrow> ((error + unit) \<times> 's) option" where
  "poll_go rd s =
     (case rd s of
        None \<Rightarrow> None
      | Some (Inl e, s') \<Rightarrow> Some (Inl e, s')
      | Some (Inr tmp, s') \<Rightarrow> if tmp AND UCFG_REG_GO \<noteq> 0 then poll_go rd s' else Some (Inr (), s'))"

definition cha_write_ulpi :: "env \<Rightarrow> u8 \<Rightarrow> u8 \<Rightarrow> (cha st, unit) prog" where
  "cha_write_ulpi env a val =
     seqE [cha_write_reg_by_name env UCFG_WDATA val,
           cha_write_reg_by_name env UCFG_WCMD (UCFG_REG_GO OR (a AND UCFG_REG_ADDRMASK)),
           poll_go (cha_read_reg_by_name env UCFG_WCMD)]"

definition cha_read_ulpi :: "env \<Rightarrow> u8 \<Rightarrow> (cha st, u8) prog" where
  "cha_read_ulpi env a =
     thenE (cha_write_reg_by_name env UCFG_RCMD (UCFG_REG_GO OR (a AND UCFG_REG_ADDRMASK)))
     (thenE (poll_go (cha_read_reg_by_name env UCFG_RCMD))
     (cha_read_reg_by_name env UCFG_RDATA))"

definition cha_get_usb_speed :: "env \<Rightarrow> (cha st, ov_usb_speed) prog" where
  "cha_get_usb_speed env =
     bindE (cha_read_ulpi env 0x04) (\<lambda>wdata.
       if wdata = 0x4a then ret OV_LOW_SPEED
       else if wdata = 0x49 then ret OV_FULL_SPEED
       else if wdata = 0x48 then ret OV_HIGH_SPEED
       else fail_str set_cha_error ''Invalid USB speed code'')"

definition cha_set_usb_speed :: "env \<Rightarrow> ov_usb_speed \<Rightarrow> (cha st, unit) prog" where
  "cha_set_usb_speed env speed =
     cha_write_ulpi env 0x04
       (case speed of OV_LOW_SPEED \<Rightarrow> 0x4a | OV_FULL_SPEED \<Rightarrow> 0x49 | OV_HIGH_SPEED \<Rightarrow> 0x48)"

section \<open>Streaming\<close>

definition ring_base :: u32 where "ring_base = 0"
definition ring_end :: u32 where "ring_end = 0x01000000"

definition cha_start_stream :: "env \<Rightarrow> (cha st, unit) prog" where
  "cha_start_stream env =
     seqE [cha_write_reg32_by_name env SDRAM_SINK_RING_BASE ring_base,
           cha_write_reg32_by_name env SDRAM_SINK_RING_END ring_end,
           cha_write_reg32_by_name env SDRAM_HOST_READ_RING_BASE ring_base,
           cha_write_reg32_by_name env SDRAM_HOST_READ_RING_END ring_end,
           cha_write_reg_by_name env SDRAM_SINK_PTR_READ 0,
           cha_write_reg_by_name env SDRAM_SINK_GO 1,
           cha_write_reg_by_name env CSTREAM_CFG 1,
           cha_cast_reg_by_name env SDRAM_HOST_READ_GO 1]"

definition cha_halt_stream :: "env \<Rightarrow> (cha st, unit) prog" where
  "cha_halt_stream env = cha_cast_reg_by_name env SDRAM_HOST_READ_GO 0"

definition cha_stop_stream :: "env \<Rightarrow> (cha st, unit) prog" where
  "cha_stop_stream env =
     seqE [cha_write_reg_by_name env SDRAM_HOST_READ_GO 0,
           cha_write_reg_by_name env CSTREAM_CFG 0,
           cha_write_reg_by_name env SDRAM_SINK_GO 0]"

definition cha_set_reg :: "reg \<Rightarrow> (cha st, unit) prog" where
  "cha_set_reg r =
     onfail
       (zoom cha_reg (\<lambda>r c. c\<lparr>cha_reg := r\<rparr>) (run_pure (\<lambda>old. reg_init_from_reg old r)))
       (modify_obj (\<lambda>c. c\<lparr>cha_error := reg_error (cha_reg c)\<rparr>))"

definition cha_destroy :: "env \<Rightarrow> (cha st, unit) prog" where
  "cha_destroy env = call_void env (Ftdi_deinit INTERFACE_A)"

end
