(* ===== verification/Streaming.thy ===== *)
theory Streaming imports
  Prelude
begin

text \<open>
  The interface of a streaming decoder: a function that takes whatever chunk the transport
  delivers must do the same as a machine that takes one byte at a time.  Inside the locale this
  contract gives independence of the way the stream is cut into chunks.
\<close>

text \<open>Running a byte machine over a list, up to the first error.\<close>

fun run_bytes :: "('s \<Rightarrow> 'b \<Rightarrow> (error + unit) \<times> 's) \<Rightarrow> 's \<Rightarrow> 'b list \<Rightarrow> (error + unit) \<times> 's" where
  "run_bytes step s [] = (Inr (), s)"
| "run_bytes step s (b # bs) = (case step s b of
       (Inl e, s') \<Rightarrow> (Inl e, s')
     | (Inr _, s') \<Rightarrow> run_bytes step s' bs)"

lemma run_bytes_append:
  "run_bytes step s (xs @ ys) = (case run_bytes step s xs of
       (Inl e, s') \<Rightarrow> (Inl e, s')
     | (Inr _, s') \<Rightarrow> run_bytes step s' ys)"
  by (induction xs arbitrary: s) (auto split: prod.splits sum.splits)

lemma run_bytes_inv:
  assumes "\<And>s b r s'. invar s \<Longrightarrow> step s b = (r, s') \<Longrightarrow> invar s'"
  shows "invar s \<Longrightarrow> run_bytes step s bs = (r, s') \<Longrightarrow> invar s'"
proof (induction bs arbitrary: s)
  case (Cons b bs)
  obtain r1 s1 where "step s b = (r1, s1)"
    by fastforce
  then show ?case
    using Cons assms [of s b r1 s1] by (cases r1) auto
qed simp

lemma run_bytes_safe:
  assumes "\<And>s b r s'. invar s \<Longrightarrow> step s b = (r, s') \<Longrightarrow> invar s'"
    and "\<And>s b. invar s \<Longrightarrow> fst (step s b) \<noteq> Inl e"
  shows "invar s \<Longrightarrow> fst (run_bytes step s bs) \<noteq> Inl e"
proof (induction bs arbitrary: s)
  case (Cons b bs)
  obtain r1 s1 where "step s b = (r1, s1)"
    by fastforce
  then show ?case
    using Cons assms(1) [of s b r1 s1] assms(2) [of s b] by (cases r1) auto
qed simp

text \<open>A client's loop over the chunks, which stops at the first error.\<close>

fun feed_chunks :: "('s \<Rightarrow> 'b list \<Rightarrow> (error + unit) \<times> 's) \<Rightarrow> 's \<Rightarrow> 'b list list \<Rightarrow> (error + unit) \<times> 's"
  where
  "feed_chunks feed s [] = (Inr (), s)"
| "feed_chunks feed s (c # cs) = (case feed s c of
       (Inl e, s') \<Rightarrow> (Inl e, s')
     | (Inr _, s') \<Rightarrow> feed_chunks feed s' cs)"

text \<open>
  Two runs agree when they have the same result and the same visible state; after a success they
  have the same state altogether.
\<close>

definition agree :: "('s \<Rightarrow> 'v) \<Rightarrow> (error + unit) \<times> 's \<Rightarrow> (error + unit) \<times> 's \<Rightarrow> bool" where
  "agree view a b \<longleftrightarrow>
     fst a = fst b \<and> view (snd a) = view (snd b) \<and> (fst a = Inr () \<longrightarrow> snd a = snd b)"

lemma agree_refl [simp]: "agree view a a"
  by (simp add: agree_def)

lemma agree_sym: "agree view a b \<Longrightarrow> agree view b a"
  by (simp add: agree_def)

lemma agree_trans: "agree view a b \<Longrightarrow> agree view b c \<Longrightarrow> agree view a c"
  by (simp add: agree_def)

lemma agree_Inr: "agree view a (Inr u, s) \<longleftrightarrow> a = (Inr u, s)"
  by (cases a) (auto simp: agree_def)

lemma agree_Inl: "agree view (Inl e, s) (Inl e', s') \<longleftrightarrow> e = e' \<and> view s = view s'"
  by (auto simp: agree_def)

locale streaming_decoder =
  fixes feed :: "'s \<Rightarrow> 'b list \<Rightarrow> (error + unit) \<times> 's"
    and step :: "'s \<Rightarrow> 'b \<Rightarrow> (error + unit) \<times> 's"
    and invar :: "'s \<Rightarrow> bool"
    and bad :: "error \<Rightarrow> bool"
    and view :: "'s \<Rightarrow> 'v"
  assumes step_inv: "invar s \<Longrightarrow> step s b = (r, s') \<Longrightarrow> invar s'"
    and feed_refines:
      "invar s \<Longrightarrow> (\<And>e. fst (run_bytes step s bs) = Inl e \<Longrightarrow> \<not> bad e) \<Longrightarrow>
       agree view (feed s bs) (run_bytes step s bs)"
begin

lemma run_inv: "invar s \<Longrightarrow> run_bytes step s bs = (r, s') \<Longrightarrow> invar s'"
  using run_bytes_inv [of invar step] step_inv by blast

text \<open>However the stream is cut, the chunks do what the bytes do.\<close>

lemma chunks_refine:
  "invar s \<Longrightarrow> (\<And>e. fst (run_bytes step s (concat cs)) = Inl e \<Longrightarrow> \<not> bad e) \<Longrightarrow>
   agree view (feed_chunks feed s cs) (run_bytes step s (concat cs))"
proof (induction cs arbitrary: s)
  case (Cons c cs)
  obtain r1 s1 where run: "run_bytes step s c = (r1, s1)"
    by fastforce
  have "agree view (feed s c) (r1, s1)"
    using Cons.prems feed_refines [of s c] run by (auto simp: run_bytes_append)
  moreover have "invar s1"
    using Cons.prems(1) run by (rule run_inv)
  ultimately show ?case
    using Cons.prems(2) Cons.IH [of s1] run
    by (cases r1; cases "feed s c"; cases "fst (feed s c)")
       (auto simp: run_bytes_append agree_Inr agree_Inl agree_def)
qed simp

text \<open>Two ways of cutting the same stream agree.\<close>

lemma chunk_independence:
  assumes "invar s" and "\<And>e. fst (run_bytes step s (concat cs)) = Inl e \<Longrightarrow> \<not> bad e"
    and "concat cs = concat ds"
  shows "agree view (feed_chunks feed s cs) (feed_chunks feed s ds)"
proof -
  have "agree view (feed_chunks feed s ds) (run_bytes step s (concat cs))"
    using assms chunks_refine [of s ds] by simp
  then show ?thesis
    using agree_trans agree_sym chunks_refine [OF assms(1,2)] by blast
qed

end

end
