(* ===== verification/Packet_Decoder.thy ===== *)
theory Packet_Decoder imports
  Packet
  Streaming
begin

text \<open>
  The packet decoder of \<open>src/decoder.c\<close>: the state machine that cuts the payload of SDRAM frames
  into USB packets.  \<open>packet_decoder_step\<close> is one iteration of the \<open>while\<close> loop,
  \<open>packet_decoder_proc\<close> the function.  Second part: \<open>packet_byte\<close>, a machine that takes one byte
  at a time and knows no buffers, and the refinement lemmas between the two.
\<close>

unbundle bit_operations_syntax

section \<open>The decoder\<close>

text \<open>
  \<open>struct decoder_ops\<close>: the callbacks, a null pointer being \<open>None\<close>.  What \<open>user_data\<close> points to
  is a value of type \<open>'u\<close> which the callbacks transform.
\<close>

record 'u decoder_ops =
  ops_packet :: "(ov_packet \<Rightarrow> 'u \<Rightarrow> 'u) option"
  ops_bus_frame :: "(u16 \<Rightarrow> u8 \<Rightarrow> 'u \<Rightarrow> 'u) option"

datatype packet_decoder_state =
    NEED_PACKET_MAGIC
  | NEED_PACKET_FLAGS
  | NEED_PACKET_LENGTH_LO
  | NEED_PACKET_LENGTH_HI
  | NEED_PACKET_TIMESTAMP
  | NEED_PACKET_DATA

record 'u packet_decoder =
  packet :: ov_packet
  ops :: "'u decoder_ops"
  user_data :: 'u
  cumulative_ts :: u64
  ts_byte :: nat
  ts_length :: nat
  pd_state :: packet_decoder_state
  buf_actual_length :: nat
  buf_length :: nat
  pd_error_str :: "string option"

text \<open>
  \<open>packet_decoder_init\<close> writes every field, so the old contents of the structure do not appear.
\<close>

definition packet_decoder_init ::
    "ov_packet \<Rightarrow> nat \<Rightarrow> 'u decoder_ops \<Rightarrow> 'u \<Rightarrow> 'u packet_decoder" where
  "packet_decoder_init p sz o' ud =
     \<lparr>packet = p, ops = o', user_data = ud, cumulative_ts = 0, ts_byte = 0, ts_length = 0,
      pd_state = NEED_PACKET_MAGIC, buf_actual_length = 0, buf_length = sz,
      pd_error_str = None\<rparr>"

text \<open>How one iteration of the loop ends: \<open>break\<close> out of the switch, \<open>goto end\<close>, or return.\<close>

datatype iter = Next "u8 list" | Leave "u8 list" | Raise error

definition call_packet :: "'u packet_decoder \<Rightarrow> 'u packet_decoder" where
  "call_packet pd = (case ops_packet (ops pd) of
       None \<Rightarrow> pd
     | Some f \<Rightarrow> pd\<lparr>user_data := f (packet pd) (user_data pd)\<rparr>)"

fun packet_decoder_step ::
    "'u packet_decoder \<Rightarrow> u8 \<Rightarrow> u8 list \<Rightarrow> iter \<times> 'u packet_decoder" where
  "packet_decoder_step pd b bs = (case pd_state pd of
     NEED_PACKET_MAGIC \<Rightarrow>
       if buf_actual_length pd \<noteq> 0 then (Raise (Assertion ''pd->buf_actual_length == 0''), pd)
       else if buf_length pd = 0 then (Raise (Assertion ''pd->buf_length > 0''), pd)
       else if b = 0xa1 then (Next bs, pd)
       else if b \<noteq> 0xa0 \<and> b \<noteq> 0xa2
       then (Raise Failed, pd\<lparr>pd_error_str := Some ''Wrong packet magic''\<rparr>)
       else (Next bs, pd\<lparr>packet := (packet pd)\<lparr>pk_magic := b\<rparr>, pd_state := NEED_PACKET_FLAGS\<rparr>)
   | NEED_PACKET_FLAGS \<Rightarrow>
       (Next bs, pd\<lparr>packet := (packet pd)\<lparr>pk_flags := b\<rparr>, pd_state := NEED_PACKET_LENGTH_LO\<rparr>)
   | NEED_PACKET_LENGTH_LO \<Rightarrow>
       (Next bs, pd\<lparr>packet := (packet pd)\<lparr>pk_size := ucast b\<rparr>,
                    pd_state := NEED_PACKET_LENGTH_HI\<rparr>)
   | NEED_PACKET_LENGTH_HI \<Rightarrow>
       (Next bs, pd\<lparr>packet := (packet pd)\<lparr>
                      pk_size := push_bit 8 (ucast (b AND 0x1f)) OR pk_size (packet pd),
                      pk_timestamp := 0\<rparr>,
                    ts_length := unat (drop_bit 5 (b AND 0xe0)) + 1,
                    ts_byte := 0,
                    pd_state := NEED_PACKET_TIMESTAMP\<rparr>)
   | NEED_PACKET_TIMESTAMP \<Rightarrow>
       (let ts = pk_timestamp (packet pd) OR push_bit (8 * ts_byte pd) (ucast b);
            n = ts_byte pd + 1
        in if n \<ge> ts_length pd
           then (Next bs, pd\<lparr>ts_byte := n,
                             cumulative_ts := cumulative_ts pd + ts,
                             packet := (packet pd)\<lparr>pk_timestamp := cumulative_ts pd + ts\<rparr>,
                             pd_state := NEED_PACKET_DATA\<rparr>)
           else (Next bs, pd\<lparr>ts_byte := n, packet := (packet pd)\<lparr>pk_timestamp := ts\<rparr>\<rparr>))
   | NEED_PACKET_DATA \<Rightarrow>
       (let required_length = size_sub (ov_packet_captured_size (packet pd)) (buf_actual_length pd);
            copy = min required_length (length (b # bs))
        in case memcpy_at (pk_data (packet pd)) (buf_actual_length pd) (take copy (b # bs)) of
             None \<Rightarrow> (Raise (Out_of_bounds ''packet->data''), pd)
           | Some d \<Rightarrow>
               let pd1 = pd\<lparr>packet := (packet pd)\<lparr>pk_data := d\<rparr>,
                            buf_actual_length := buf_actual_length pd + copy\<rparr>
               in if required_length = copy
                  then (Leave (drop copy (b # bs)),
                        (call_packet pd1)\<lparr>buf_actual_length := 0, pd_state := NEED_PACKET_MAGIC\<rparr>)
                  else (Next (drop copy (b # bs)), pd1)))"

declare packet_decoder_step.simps [simp del]

lemma packet_decoder_step_Next_shorter:
  "packet_decoder_step pd b bs = (Next r, pd') \<Longrightarrow> length r < length (b # bs)"
  by (auto simp: packet_decoder_step.simps Let_def min_def
           split: packet_decoder_state.splits if_splits option.splits)

text \<open>
  The \<open>while (buf != end)\<close> loop: the result is the input that is left, or the error.  On every
  path the state at the moment of the return is the second component.
\<close>

function packet_decoder_loop ::
    "'u packet_decoder \<Rightarrow> u8 list \<Rightarrow> (error + u8 list) \<times> 'u packet_decoder" where
  "packet_decoder_loop pd [] = (Inr [], pd)"
| "packet_decoder_loop pd (b # bs) = (case packet_decoder_step pd b bs of
       (Next r, pd') \<Rightarrow> packet_decoder_loop pd' r
     | (Leave r, pd') \<Rightarrow> (Inr r, pd')
     | (Raise e, pd') \<Rightarrow> (Inl e, pd'))"
  by pat_completeness auto
termination
  by (relation "measure (\<lambda>(pd, buf). length buf)")
     (auto dest: packet_decoder_step_Next_shorter [OF sym])

definition packet_decoder_proc ::
    "'u packet_decoder \<Rightarrow> u8 list \<Rightarrow> (error + nat) \<times> 'u packet_decoder" where
  "packet_decoder_proc pd buf = (case packet_decoder_loop pd buf of
       (Inl e, pd') \<Rightarrow> (Inl e, pd')
     | (Inr r, pd') \<Rightarrow> (Inr (length buf - length r), pd'))"

section \<open>The decoder one byte at a time\<close>

text \<open>
  The reference machine: no input buffer, no \<open>memcpy\<close>, no early return.  A packet that is
  complete without data bytes is delivered when the next byte arrives, which is what the loop
  does since its \<open>NEED_PACKET_DATA\<close> case runs only when the buffer is not empty.
\<close>

definition packet_finish :: "'u packet_decoder \<Rightarrow> 'u packet_decoder" where
  "packet_finish pd = (call_packet pd)\<lparr>buf_actual_length := 0, pd_state := NEED_PACKET_MAGIC\<rparr>"

definition packet_flush :: "'u packet_decoder \<Rightarrow> 'u packet_decoder" where
  "packet_flush pd =
     (if pd_state pd = NEED_PACKET_DATA \<and> buf_actual_length pd = ov_packet_captured_size (packet pd)
      then packet_finish pd else pd)"

definition packet_store :: "'u packet_decoder \<Rightarrow> u8 \<Rightarrow> (error + unit) \<times> 'u packet_decoder" where
  "packet_store pd b =
     (if buf_actual_length pd < length (pk_data (packet pd))
      then let pd1 = pd\<lparr>packet := (packet pd)\<lparr>pk_data :=
                          (pk_data (packet pd))[buf_actual_length pd := b]\<rparr>,
                        buf_actual_length := buf_actual_length pd + 1\<rparr>
           in (Inr (), packet_flush pd1)
      else (Inl (Out_of_bounds ''packet->data''), pd))"

definition packet_byte :: "'u packet_decoder \<Rightarrow> u8 \<Rightarrow> (error + unit) \<times> 'u packet_decoder" where
  "packet_byte pd b =
     (let pd0 = packet_flush pd
      in if pd_state pd0 = NEED_PACKET_DATA then packet_store pd0 b
         else case packet_decoder_step pd0 b [] of
                (Raise e, pd1) \<Rightarrow> (Inl e, pd1)
              | (_, pd1) \<Rightarrow> (Inr (), pd1))"

abbreviation packet_bytes ::
    "'u packet_decoder \<Rightarrow> u8 list \<Rightarrow> (error + unit) \<times> 'u packet_decoder" where
  "packet_bytes \<equiv> run_bytes packet_byte"

section \<open>Invariant\<close>

text \<open>
  What the decoder keeps between any two iterations: outside the data phase nothing is copied
  yet; inside it the copied part is a strict part of the packet, unless the packet is empty; the
  timestamp phase always expects another byte and never more than eight; the length field has 13
  bits.
\<close>

definition packet_decoder_inv :: "'u packet_decoder \<Rightarrow> bool" where
  "packet_decoder_inv pd \<longleftrightarrow>
     0 < buf_length pd \<and>
     (pd_state pd \<noteq> NEED_PACKET_DATA \<longrightarrow> buf_actual_length pd = 0) \<and>
     (pd_state pd = NEED_PACKET_DATA \<longrightarrow>
        buf_actual_length pd < ov_packet_captured_size (packet pd) \<or>
        buf_actual_length pd = 0 \<and> ov_packet_captured_size (packet pd) = 0) \<and>
     (pd_state pd = NEED_PACKET_LENGTH_HI \<longrightarrow> unat (pk_size (packet pd)) < 256) \<and>
     (pd_state pd = NEED_PACKET_TIMESTAMP \<longrightarrow> ts_byte pd < ts_length pd \<and> ts_length pd \<le> 8) \<and>
     (pd_state pd \<in> {NEED_PACKET_TIMESTAMP, NEED_PACKET_DATA} \<longrightarrow>
        unat (pk_size (packet pd)) < 8192)"

text \<open>The packet storage takes any packet the 13 bit length field can announce.\<close>

definition packet_room :: "'u packet_decoder \<Rightarrow> bool" where
  "packet_room pd \<longleftrightarrow> 8191 \<le> length (pk_data (packet pd))"

lemma call_packet_simps [simp]:
  "packet (call_packet pd) = packet pd"
  "ops (call_packet pd) = ops pd"
  "cumulative_ts (call_packet pd) = cumulative_ts pd"
  "ts_byte (call_packet pd) = ts_byte pd"
  "ts_length (call_packet pd) = ts_length pd"
  "pd_state (call_packet pd) = pd_state pd"
  "buf_actual_length (call_packet pd) = buf_actual_length pd"
  "buf_length (call_packet pd) = buf_length pd"
  "pd_error_str (call_packet pd) = pd_error_str pd"
  by (simp_all add: call_packet_def split: option.splits)

lemma packet_finish_simps [simp]:
  "packet (packet_finish pd) = packet pd"
  "ops (packet_finish pd) = ops pd"
  "cumulative_ts (packet_finish pd) = cumulative_ts pd"
  "pd_state (packet_finish pd) = NEED_PACKET_MAGIC"
  "buf_actual_length (packet_finish pd) = 0"
  "buf_length (packet_finish pd) = buf_length pd"
  by (simp_all add: packet_finish_def)

lemma size_hi_bound:
  fixes b :: u8 and w :: u16
  assumes "unat w < 256"
  shows "unat (push_bit 8 (ucast (b AND 0x1f)) OR w) < 8192"
proof -
  have m: "(0x1f :: u8) = mask 5"
    by (simp add: mask_eq_exp_minus_1)
  have "(push_bit 8 (ucast (b AND 0x1f)) :: u16) = take_bit 13 (push_bit 8 (ucast (b AND 0x1f)))"
    unfolding m by (rule bit_word_eqI) (auto simp: bit_simps)
  then have "unat (push_bit 8 (ucast (b AND 0x1f)) :: u16) < 2 ^ 13"
    using unat_take_bit_less [of 13] by metis
  moreover have "unat w < 2 ^ 13"
    using assms by simp
  ultimately show ?thesis
    using unat_or_less [of _ 13 w] by fastforce
qed

lemma ts_length_bound: "unat (drop_bit 5 (b AND 0xe0 :: u8)) + 1 \<le> 8"
proof -
  have "unat (drop_bit 5 (b AND 0xe0 :: u8)) = unat (b AND 0xe0) div 32"
    by (simp add: drop_bit_eq_div unat_div)
  also have "\<dots> \<le> 255 div 32"
    using unat_u8_less [of "b AND 0xe0"] by (intro div_le_mono) linarith
  finally show ?thesis by simp
qed

lemma packet_decoder_init_inv:
  "0 < sz \<Longrightarrow> packet_decoder_inv (packet_decoder_init p sz o' ud)"
  by (simp add: packet_decoder_inv_def packet_decoder_init_def)

lemma packet_finish_inv:
  "0 < buf_length pd \<Longrightarrow> packet_decoder_inv (packet_finish pd)"
  by (simp add: packet_decoder_inv_def)

lemma packet_decoder_inv_frame [simp]:
  "packet_decoder_inv (pd\<lparr>pd_error_str := m\<rparr>) = packet_decoder_inv pd"
  "packet_decoder_inv (pd\<lparr>user_data := u\<rparr>) = packet_decoder_inv pd"
  by (simp_all add: packet_decoder_inv_def)

lemma packet_flush_inv:
  "packet_decoder_inv pd \<Longrightarrow> packet_decoder_inv (packet_flush pd)"
  unfolding packet_flush_def by (auto intro: packet_finish_inv simp: packet_decoder_inv_def)

lemma packet_decoder_step_inv:
  assumes inv: "packet_decoder_inv pd" and step: "packet_decoder_step pd b bs = (i, pd')"
  shows "packet_decoder_inv pd'"
proof (cases "pd_state pd")
  case NEED_PACKET_DATA
  then show ?thesis
    using inv step
    by (auto simp: packet_decoder_step.simps Let_def packet_decoder_inv_def min_def
             split: if_splits option.splits)
next
  case NEED_PACKET_LENGTH_HI
  then show ?thesis
    using inv step size_hi_bound [of "pk_size (packet pd)" b] ts_length_bound [of b]
    by (auto simp: packet_decoder_step.simps packet_decoder_inv_def)
next
  case NEED_PACKET_LENGTH_LO
  then show ?thesis
    using inv step unat_u8_less [of b]
    by (auto simp: packet_decoder_step.simps packet_decoder_inv_def)
next
  case NEED_PACKET_TIMESTAMP
  then show ?thesis
    using inv step
    by (auto simp: packet_decoder_step.simps Let_def packet_decoder_inv_def split: if_splits)
qed (use inv step in \<open>auto simp: packet_decoder_step.simps packet_decoder_inv_def split: if_splits\<close>)

lemma packet_decoder_step_no_assert:
  assumes "packet_decoder_inv pd"
  shows "fst (packet_decoder_step pd b bs) \<noteq> Raise (Assertion msg)"
  using assms
  by (cases "pd_state pd") (simp_all add: packet_decoder_step.simps packet_decoder_inv_def Let_def
        split: option.split)

lemma packet_decoder_loop_inv:
  "packet_decoder_inv pd \<Longrightarrow> packet_decoder_loop pd buf = (r, pd') \<Longrightarrow> packet_decoder_inv pd'"
proof (induction pd buf rule: packet_decoder_loop.induct)
  case (2 pd b bs)
  obtain i pd1 where step: "packet_decoder_step pd b bs = (i, pd1)"
    by fastforce
  then have "packet_decoder_inv pd1"
    using "2.prems"(1) by (rule packet_decoder_step_inv [rotated])
  then show ?case
    using "2.IH" "2.prems"(2) step by (cases i) simp_all
qed simp

lemma packet_store_inv:
  "packet_decoder_inv pd \<Longrightarrow> pd_state pd = NEED_PACKET_DATA \<Longrightarrow>
   buf_actual_length pd < ov_packet_captured_size (packet pd) \<Longrightarrow>
   packet_store pd b = (r, pd') \<Longrightarrow> packet_decoder_inv pd'"
  by (auto simp: packet_store_def packet_flush_def packet_finish_inv Let_def packet_decoder_inv_def
           split: if_splits)

text \<open>After a flush the data phase always has a byte to wait for.\<close>

lemma packet_flush_data:
  "packet_decoder_inv pd \<Longrightarrow> pd_state (packet_flush pd) = NEED_PACKET_DATA \<Longrightarrow>
   packet_flush pd = pd \<and> buf_actual_length pd < ov_packet_captured_size (packet pd)"
  by (auto simp: packet_flush_def packet_decoder_inv_def split: if_splits)

lemma packet_byte_inv:
  assumes "packet_decoder_inv pd" and "packet_byte pd b = (r, pd')"
  shows "packet_decoder_inv pd'"
proof (cases "pd_state (packet_flush pd) = NEED_PACKET_DATA")
  case True
  then show ?thesis
    using assms packet_flush_data [OF assms(1)] packet_store_inv by (auto simp: packet_byte_def)
next
  case False
  then show ?thesis
    using assms packet_flush_inv [OF assms(1)]
    by (auto simp: packet_byte_def split: prod.splits iter.splits dest: packet_decoder_step_inv)
qed

lemma packet_bytes_inv:
  "packet_decoder_inv pd \<Longrightarrow> packet_bytes pd bs = (r, pd') \<Longrightarrow> packet_decoder_inv pd'"
  using run_bytes_inv [of packet_decoder_inv packet_byte] packet_byte_inv by blast

section \<open>Refinement: the loop is the byte machine\<close>

lemma packet_flush_finish [simp]: "packet_flush (packet_finish pd) = packet_finish pd"
  by (simp add: packet_flush_def)

lemma packet_flush_idem [simp]: "packet_flush (packet_flush pd) = packet_flush pd"
  by (simp add: packet_flush_def)

lemma packet_byte_flush [simp]: "packet_byte (packet_flush pd) b = packet_byte pd b"
  by (simp add: packet_byte_def)

lemma packet_bytes_flush: "bs \<noteq> [] \<Longrightarrow> packet_bytes (packet_flush pd) bs = packet_bytes pd bs"
  by (cases bs) simp_all

lemma packet_byte_header:
  assumes "pd_state pd \<noteq> NEED_PACKET_DATA"
  shows "packet_byte pd b = (case packet_decoder_step pd b [] of
           (Raise e, pd1) \<Rightarrow> (Inl e, pd1) | (_, pd1) \<Rightarrow> (Inr (), pd1))"
  using assms by (simp add: packet_byte_def packet_flush_def)

lemma packet_decoder_step_header:
  assumes "pd_state pd \<noteq> NEED_PACKET_DATA"
  shows "packet_decoder_step pd b bs = (case packet_decoder_step pd b [] of
           (Raise e, pd1) \<Rightarrow> (Raise e, pd1) | (_, pd1) \<Rightarrow> (Next bs, pd1))"
  using assms
  by (auto simp: packet_decoder_step.simps Let_def split: packet_decoder_state.splits)

text \<open>Outside the data phase the loop takes the bytes one at a time.\<close>

lemma packet_decoder_loop_header:
  assumes "pd_state pd \<noteq> NEED_PACKET_DATA" and "packet_byte pd b = (Inr (), pd1)"
  shows "packet_decoder_loop pd (b # bs) = packet_decoder_loop pd1 bs"
proof -
  have "packet_decoder_step pd b bs = (Next bs, pd1)"
    using assms packet_decoder_step_header [OF assms(1), of b bs]
    by (auto simp: packet_byte_header split: prod.splits iter.splits)
  then show ?thesis
    by simp
qed

text \<open>Copying a chunk is storing its bytes one by one.\<close>

lemma packet_bytes_chunk:
  assumes "pd_state pd = NEED_PACKET_DATA" and "xs \<noteq> []"
    and "buf_actual_length pd + length xs \<le> ov_packet_captured_size (packet pd)"
    and "memcpy_at (pk_data (packet pd)) (buf_actual_length pd) xs = Some d"
  shows "packet_bytes pd xs =
     (Inr (), packet_flush (pd\<lparr>packet := (packet pd)\<lparr>pk_data := d\<rparr>,
                              buf_actual_length := buf_actual_length pd + length xs\<rparr>))"
  using assms
proof (induction xs arbitrary: pd)
  case (Cons b xs)
  let ?n = "buf_actual_length pd"
  let ?pd1 = "pd\<lparr>packet := (packet pd)\<lparr>pk_data := (pk_data (packet pd))[?n := b]\<rparr>,
                buf_actual_length := ?n + 1\<rparr>"
  have flush: "packet_flush pd = pd"
    using Cons.prems by (auto simp: packet_flush_def)
  have n: "?n < length (pk_data (packet pd))"
    using Cons.prems by (simp add: memcpy_at_def split: if_splits)
  have byte: "packet_byte pd b = (Inr (), packet_flush ?pd1)"
    using Cons.prems n by (simp add: packet_byte_def flush packet_store_def Let_def)
  have one: "memcpy_at (pk_data (packet pd)) ?n [b] = Some (pk_data (packet ?pd1))"
    using n by (simp add: memcpy_at_def upd_conv_take_nth_drop)
  show ?case
  proof (cases "xs = []")
    case True
    then show ?thesis
      using byte one Cons.prems by simp
  next
    case False
    have rest: "memcpy_at (pk_data (packet ?pd1)) (buf_actual_length ?pd1) xs = Some d"
      using memcpy_at_append [OF one, of xs] Cons.prems by simp
    have "packet_bytes ?pd1 xs = (Inr (), packet_flush (?pd1\<lparr>packet := (packet ?pd1)\<lparr>pk_data := d\<rparr>,
             buf_actual_length := buf_actual_length ?pd1 + length xs\<rparr>))"
      using False Cons.prems rest by (intro Cons.IH) auto
    moreover have "packet_bytes (packet_flush ?pd1) xs = packet_bytes ?pd1 xs"
      using False by (rule packet_bytes_flush)
    ultimately show ?thesis
      using byte by simp
  qed
qed simp

lemma packet_bytes_chunk_overflow:
  assumes "pd_state pd = NEED_PACKET_DATA" and "xs \<noteq> []"
    and "buf_actual_length pd + length xs \<le> ov_packet_captured_size (packet pd)"
    and "memcpy_at (pk_data (packet pd)) (buf_actual_length pd) xs = None"
  shows "fst (packet_bytes pd (xs @ ys)) = Inl (Out_of_bounds ''packet->data'')"
  using assms
proof (induction xs arbitrary: pd)
  case (Cons b xs)
  let ?n = "buf_actual_length pd"
  let ?pd1 = "pd\<lparr>packet := (packet pd)\<lparr>pk_data := (pk_data (packet pd))[?n := b]\<rparr>,
                buf_actual_length := ?n + 1\<rparr>"
  have flush: "packet_flush pd = pd"
    using Cons.prems by (auto simp: packet_flush_def)
  show ?case
  proof (cases "?n < length (pk_data (packet pd))")
    case False
    then show ?thesis
      using Cons.prems by (simp add: packet_byte_def flush packet_store_def)
  next
    case True
    then have byte: "packet_byte pd b = (Inr (), packet_flush ?pd1)"
      using Cons.prems by (simp add: packet_byte_def flush packet_store_def Let_def)
    have ne: "xs \<noteq> []"
      using Cons.prems True by (auto simp: memcpy_at_None)
    have "fst (packet_bytes ?pd1 (xs @ ys)) = Inl (Out_of_bounds ''packet->data'')"
      using ne Cons.prems by (intro Cons.IH) (auto simp: memcpy_at_None)
    moreover have "packet_bytes (packet_flush ?pd1) (xs @ ys) = packet_bytes ?pd1 (xs @ ys)"
      using ne by (intro packet_bytes_flush) simp
    ultimately show ?thesis
      using byte by simp
  qed
qed simp

text \<open>
  \<open>packet_consumed pd buf r pd'\<close>: the byte machine reaches \<open>pd'\<close> on the part of \<open>buf\<close> before
  \<open>r\<close>; the loop may also have delivered a packet without data, which the byte machine does
  with the first byte of \<open>r\<close>.
\<close>

definition packet_consumed ::
    "'u packet_decoder \<Rightarrow> u8 list \<Rightarrow> u8 list \<Rightarrow> 'u packet_decoder \<Rightarrow> bool" where
  "packet_consumed pd buf r pd' \<longleftrightarrow>
     (\<exists>used pd1. buf = used @ r \<and> packet_bytes pd used = (Inr (), pd1) \<and>
                 (pd' = pd1 \<or> r \<noteq> [] \<and> pd' = packet_flush pd1))"

lemma packet_consumed_Cons:
  assumes "packet_byte pd b = (Inr (), pd1)" and "packet_consumed pd1 bs r pd'"
  shows "packet_consumed pd (b # bs) r pd'"
proof -
  obtain used pd2 where "bs = used @ r" "packet_bytes pd1 used = (Inr (), pd2)"
    "pd' = pd2 \<or> r \<noteq> [] \<and> pd' = packet_flush pd2"
    using assms(2) by (auto simp: packet_consumed_def)
  then have "b # bs = (b # used) @ r" "packet_bytes pd (b # used) = (Inr (), pd2)"
    "pd' = pd2 \<or> r \<noteq> [] \<and> pd' = packet_flush pd2"
    using assms(1) by simp_all
  then show ?thesis
    unfolding packet_consumed_def by blast
qed

lemma packet_consumed_bytes:
  assumes "packet_consumed pd buf r pd'"
  shows "packet_bytes pd buf = packet_bytes pd' r"
proof -
  obtain used pd1 where "buf = used @ r" "packet_bytes pd used = (Inr (), pd1)"
    "pd' = pd1 \<or> r \<noteq> [] \<and> pd' = packet_flush pd1"
    using assms by (auto simp: packet_consumed_def)
  then show ?thesis
    using packet_bytes_flush [of r pd1] by (auto simp: run_bytes_append)
qed

lemma packet_decoder_step_data:
  assumes inv: "packet_decoder_inv pd" and data: "pd_state pd = NEED_PACKET_DATA"
    and safe: "fst (packet_bytes pd (b # bs)) \<noteq> Inl (Out_of_bounds ''packet->data'')"
  shows "\<exists>r pd'. packet_consumed pd (b # bs) r pd' \<and>
           (packet_decoder_step pd b bs = (Leave r, pd') \<or>
            packet_decoder_step pd b bs = (Next r, pd') \<and> r = [])"
proof -
  let ?n = "buf_actual_length pd" and ?c = "ov_packet_captured_size (packet pd)"
  let ?copy = "min (?c - ?n) (length (b # bs))"
  let ?xs = "take ?copy (b # bs)" and ?ys = "drop ?copy (b # bs)"
  have split: "b # bs = ?xs @ ?ys"
    by (simp only: append_take_drop_id)
  show ?thesis
  proof (cases "?c = ?n")
    case True
    then have "buf_actual_length pd = 0"
      using inv data by (simp add: packet_decoder_inv_def)
    then have same: "pd\<lparr>buf_actual_length := 0\<rparr> = pd"
      by (cases pd) simp
    have "packet_decoder_step pd b bs = (Leave (b # bs), packet_flush pd)"
      using True inv data
      by (simp add: packet_decoder_step.simps packet_decoder_inv_def packet_flush_def
            packet_finish_def Let_def same)
    moreover have "packet_consumed pd (b # bs) (b # bs) (packet_flush pd)"
      unfolding packet_consumed_def by (intro exI [of _ "[]"]) simp
    ultimately show ?thesis
      by blast
  next
    case False
    then have n: "?n < ?c"
      using inv data by (auto simp: packet_decoder_inv_def)
    then have ne: "?xs \<noteq> []" and le: "?n + length ?xs \<le> ?c" and len: "length ?xs = ?copy"
      by auto
    obtain d where d: "memcpy_at (pk_data (packet pd)) ?n ?xs = Some d"
      using packet_bytes_chunk_overflow [OF data ne le, of ?ys] safe split
      by (cases "memcpy_at (pk_data (packet pd)) ?n ?xs") (metis, blast)
    let ?pd2 = "pd\<lparr>packet := (packet pd)\<lparr>pk_data := d\<rparr>, buf_actual_length := ?n + ?copy\<rparr>"
    have "packet_bytes pd ?xs = (Inr (), packet_flush ?pd2)"
      using packet_bytes_chunk [OF data ne le d] len by simp
    then have consumed: "packet_consumed pd (b # bs) ?ys (packet_flush ?pd2)"
      unfolding packet_consumed_def using split by blast
    have req: "size_sub ?c ?n = ?c - ?n"
      using n by simp
    have step: "packet_decoder_step pd b bs =
       (if ?c - ?n = ?copy then (Leave ?ys, packet_finish ?pd2) else (Next ?ys, ?pd2))"
      using data d by (simp add: packet_decoder_step.simps Let_def packet_finish_def req)
    show ?thesis
    proof (cases "?c - ?n = ?copy")
      case True
      then have "packet_flush ?pd2 = packet_finish ?pd2"
        using data n by (simp add: packet_flush_def)
      then show ?thesis
        using step consumed True by (auto intro!: exI)
    next
      case False
      then have "?ys = []" and "packet_flush ?pd2 = ?pd2"
        using n by (auto simp: packet_flush_def min_def)
      then show ?thesis
        using step consumed False by (auto intro!: exI)
    qed
  qed
qed

lemma packet_decoder_loop_refines:
  assumes "packet_decoder_inv pd"
    and "fst (packet_bytes pd buf) \<noteq> Inl (Out_of_bounds ''packet->data'')"
  shows "case packet_decoder_loop pd buf of
           (Inl e, pd') \<Rightarrow> packet_bytes pd buf = (Inl e, pd')
         | (Inr r, pd') \<Rightarrow> packet_consumed pd buf r pd'"
  using assms
proof (induction pd buf rule: packet_decoder_loop.induct)
  case (1 pd)
  then show ?case
    by (simp add: packet_consumed_def)
next
  case (2 pd b bs)
  show ?case
  proof (cases "pd_state pd = NEED_PACKET_DATA")
    case True
    show ?thesis
      using packet_decoder_step_data [OF "2.prems"(1) True "2.prems"(2)] by auto
  next
    case False
    obtain i pd1 where one: "packet_decoder_step pd b [] = (i, pd1)"
      by fastforce
    then have inv1: "packet_decoder_inv pd1"
      using "2.prems"(1) by (rule packet_decoder_step_inv [rotated])
    note header = packet_decoder_step_header [OF False, of b bs] packet_byte_header [OF False, of b]
    show ?thesis
    proof (cases "\<exists>e. i = Raise e")
      case True
      then show ?thesis
        using one header by auto
    next
      case no_raise: False
      then have step: "packet_decoder_step pd b bs = (Next bs, pd1)"
        and byte: "packet_byte pd b = (Inr (), pd1)"
        using one header by (auto split: iter.splits)
      show ?thesis
        using "2.IH" [OF step [symmetric] refl inv1] "2.prems"(2) step byte
        by (auto split: prod.splits sum.splits intro: packet_consumed_Cons)
    qed
  qed
qed

text \<open>How the loop moves through its input.\<close>

lemma packet_decoder_step_Leave:
  "packet_decoder_step pd b bs = (Leave r, pd') \<Longrightarrow>
   pd_state pd = NEED_PACKET_DATA \<and> pd_state pd' = NEED_PACKET_MAGIC \<and>
   (\<exists>k. r = drop k (b # bs))"
  by (auto simp: packet_decoder_step.simps Let_def
           split: packet_decoder_state.splits if_splits option.splits)

lemma packet_decoder_loop_shorter:
  "packet_decoder_loop pd buf = (Inr r, pd') \<Longrightarrow>
   length r < length buf \<or> buf = [] \<and> r = [] \<and> pd' = pd \<or>
   r = buf \<and> pd_state pd = NEED_PACKET_DATA \<and> pd_state pd' = NEED_PACKET_MAGIC"
proof (induction pd buf arbitrary: r pd' rule: packet_decoder_loop.induct)
  case (2 pd b bs)
  obtain i pd1 where step: "packet_decoder_step pd b bs = (i, pd1)"
    by fastforce
  show ?case
  proof (cases i)
    case (Next bs')
    then have "length bs' < length (b # bs)"
      using step packet_decoder_step_Next_shorter by blast
    moreover have "packet_decoder_loop pd1 bs' = (Inr r, pd')"
      using Next step "2.prems" by simp
    ultimately show ?thesis
      using "2.IH" [OF step [symmetric] Next] by fastforce
  next
    case (Leave r')
    then show ?thesis
      using step "2.prems" packet_decoder_step_Leave [of pd b bs r' pd1] drop_shorter [of _ "b # bs"]
      by fastforce
  qed (use step "2.prems" in simp)
qed simp

lemma packet_decoder_proc_le: "packet_decoder_proc pd buf = (Inr n, pd') \<Longrightarrow> n \<le> length buf"
  by (auto simp: packet_decoder_proc_def split: prod.splits sum.splits)

end
