(* ===== verification/Frame_Decoder.thy ===== *)
theory Frame_Decoder imports
  Packet_Decoder
begin

text \<open>
  The frame decoder of \<open>src/decoder.c\<close>: the state machine over the raw byte stream of the
  device, which separates bus frames (register accesses echoed by the FPGA) from SDRAM frames
  (slices of the packet stream) and hands the latter to the packet decoder.  Second part:
  \<open>frame_byte\<close>, one byte at a time, and the refinement.
\<close>

unbundle bit_operations_syntax

datatype frame_decoder_state =
    NEED_FRAME_MAGIC
  | NEED_SDRAM_FRAME_LENGTH
  | NEED_SDRAM_FRAME_DATA
  | NEED_BUS_FRAME_ADDR_HI
  | NEED_BUS_FRAME_ADDR_LO
  | NEED_BUS_FRAME_VALUE
  | NEED_BUS_FRAME_CHECKSUM

text \<open>
  The structure ends in an anonymous union of \<open>sdram\<close> and \<open>bus\<close>.  \<open>sdram.required_length\<close> and
  \<open>bus.addr\<close> are the same two bytes; \<open>fd_word\<close> is this shared word.
\<close>

record 'u frame_decoder =
  fd_pd :: "'u packet_decoder"
  fd_state :: frame_decoder_state
  fd_word :: u16
  bus_value :: u8
  bus_checksum :: u8

definition frame_decoder_init ::
    "'u frame_decoder \<Rightarrow> ov_packet \<Rightarrow> nat \<Rightarrow> 'u decoder_ops \<Rightarrow> 'u \<Rightarrow> 'u frame_decoder" where
  "frame_decoder_init fd p sz o' ud =
     fd\<lparr>fd_pd := packet_decoder_init p sz o' ud, fd_state := NEED_FRAME_MAGIC\<rparr>"

definition call_bus_frame :: "'u frame_decoder \<Rightarrow> 'u frame_decoder" where
  "call_bus_frame fd = (case ops_bus_frame (ops (fd_pd fd)) of
       None \<Rightarrow> fd
     | Some f \<Rightarrow>
         fd\<lparr>fd_pd := (fd_pd fd)\<lparr>user_data := f (fd_word fd) (bus_value fd) (user_data (fd_pd fd))\<rparr>\<rparr>)"

fun frame_decoder_step ::
    "'u frame_decoder \<Rightarrow> u8 \<Rightarrow> u8 list \<Rightarrow> iter \<times> 'u frame_decoder" where
  "frame_decoder_step fd b bs = (case fd_state fd of
     NEED_FRAME_MAGIC \<Rightarrow>
       if b = 0x55 then (Next bs, fd\<lparr>fd_state := NEED_BUS_FRAME_ADDR_HI\<rparr>)
       else if b = 0xd0 then (Next bs, fd\<lparr>fd_state := NEED_SDRAM_FRAME_LENGTH\<rparr>)
       else (Raise Failed, fd\<lparr>fd_pd := (fd_pd fd)\<lparr>pd_error_str := Some ''Wrong frame magic''\<rparr>\<rparr>)
   | NEED_SDRAM_FRAME_LENGTH \<Rightarrow>
       (Next bs, fd\<lparr>fd_word := (ucast b + 1) * 2, fd_state := NEED_SDRAM_FRAME_DATA\<rparr>)
   | NEED_SDRAM_FRAME_DATA \<Rightarrow>
       (let psize = min (unat (fd_word fd)) (length (b # bs))
        in case packet_decoder_proc (fd_pd fd) (take psize (b # bs)) of
             (Inl e, pd') \<Rightarrow> (Raise e, fd\<lparr>fd_pd := pd'\<rparr>)
           | (Inr n, pd') \<Rightarrow>
               let w = fd_word fd - of_nat n
               in (Next (drop n (b # bs)),
                   fd\<lparr>fd_pd := pd', fd_word := w,
                      fd_state := (if w = 0 then NEED_FRAME_MAGIC else fd_state fd)\<rparr>))
   | NEED_BUS_FRAME_ADDR_HI \<Rightarrow>
       (Next bs, fd\<lparr>fd_word := push_bit 8 (ucast b), fd_state := NEED_BUS_FRAME_ADDR_LO\<rparr>)
   | NEED_BUS_FRAME_ADDR_LO \<Rightarrow>
       (Next bs, fd\<lparr>fd_word := fd_word fd OR ucast b, fd_state := NEED_BUS_FRAME_VALUE\<rparr>)
   | NEED_BUS_FRAME_VALUE \<Rightarrow>
       (Next bs, fd\<lparr>bus_value := b, fd_state := NEED_BUS_FRAME_CHECKSUM\<rparr>)
   | NEED_BUS_FRAME_CHECKSUM \<Rightarrow>
       (Next bs, call_bus_frame (fd\<lparr>bus_checksum := b, fd_state := NEED_FRAME_MAGIC\<rparr>)))"

declare frame_decoder_step.simps [simp del]

text \<open>
  The loop may take iterations that consume nothing: the delivery of a packet without data, and
  the leaving of an SDRAM frame of which nothing is left.  The measure pays for both.
\<close>

definition frame_measure :: "'u frame_decoder \<Rightarrow> u8 list \<Rightarrow> nat" where
  "frame_measure fd buf = 4 * length buf
     + (if fd_state fd = NEED_SDRAM_FRAME_DATA then 2 else 0)
     + (if pd_state (fd_pd fd) = NEED_PACKET_DATA then 1 else 0)"

lemma call_bus_frame_simps [simp]:
  "fd_state (call_bus_frame fd) = fd_state fd"
  "fd_word (call_bus_frame fd) = fd_word fd"
  "packet (fd_pd (call_bus_frame fd)) = packet (fd_pd fd)"
  "pd_state (fd_pd (call_bus_frame fd)) = pd_state (fd_pd fd)"
  "packet_decoder_inv (fd_pd (call_bus_frame fd)) = packet_decoder_inv (fd_pd fd)"
  by (simp_all add: call_bus_frame_def split: option.splits)

lemma packet_decoder_proc_progress:
  assumes "packet_decoder_proc pd buf = (Inr n, pd')" and "buf \<noteq> []"
  shows "0 < n \<or> pd_state pd = NEED_PACKET_DATA \<and> pd_state pd' = NEED_PACKET_MAGIC"
proof -
  obtain r where "packet_decoder_loop pd buf = (Inr r, pd')" and "n = length buf - length r"
    using assms(1) by (auto simp: packet_decoder_proc_def split: prod.splits sum.splits)
  then show ?thesis
    using packet_decoder_loop_shorter [of pd buf r pd'] assms(2) by auto
qed

lemma packet_decoder_proc_Nil [simp]: "packet_decoder_proc pd [] = (Inr 0, pd)"
  by (simp add: packet_decoder_proc_def)

lemma frame_decoder_step_measure:
  assumes "frame_decoder_step fd b bs = (Next r, fd')"
  shows "frame_measure fd' r < frame_measure fd (b # bs)"
proof (cases "fd_state fd = NEED_SDRAM_FRAME_DATA")
  case False
  then show ?thesis
    using assms
    by (auto simp: frame_decoder_step.simps frame_measure_def split: frame_decoder_state.splits
        if_splits)
next
  case True
  let ?psize = "min (unat (fd_word fd)) (length (b # bs))"
  obtain n pd' where proc: "packet_decoder_proc (fd_pd fd) (take ?psize (b # bs)) = (Inr n, pd')"
    and r: "r = drop n (b # bs)"
    and fd': "fd' = fd\<lparr>fd_pd := pd', fd_word := fd_word fd - of_nat n,
        fd_state := (if fd_word fd - of_nat n = 0 then NEED_FRAME_MAGIC else fd_state fd)\<rparr>"
    using assms True
    by (auto simp: frame_decoder_step.simps Let_def split: prod.splits sum.splits)
  show ?thesis
  proof (cases "fd_word fd = 0")
    case True
    then show ?thesis
      using proc r fd' \<open>fd_state fd = _\<close> by (simp add: frame_measure_def)
  next
    case False
    then have "take ?psize (b # bs) \<noteq> []"
      by (simp add: unat_gt_0)
    then show ?thesis
      using packet_decoder_proc_progress [OF proc] packet_decoder_proc_le [OF proc] r fd' True
      by (auto simp: frame_measure_def)
  qed
qed

function frame_decoder_loop ::
    "'u frame_decoder \<Rightarrow> u8 list \<Rightarrow> (error + unit) \<times> 'u frame_decoder" where
  "frame_decoder_loop fd [] = (Inr (), fd)"
| "frame_decoder_loop fd (b # bs) = (case frame_decoder_step fd b bs of
       (Raise e, fd') \<Rightarrow> (Inl e, fd')
     | (Next r, fd') \<Rightarrow> frame_decoder_loop fd' r
     | (Leave r, fd') \<Rightarrow> (Inr (), fd'))"
  by pat_completeness auto
termination
  by (relation "measure (\<lambda>(fd, buf). frame_measure fd buf)")
     (auto dest: frame_decoder_step_measure [OF sym])

text \<open>
  \<open>frame_decoder_proc\<close>: the loop only ends with the buffer used up, so the function returns its
  size, or the error.
\<close>

definition frame_decoder_proc ::
    "'u frame_decoder \<Rightarrow> u8 list \<Rightarrow> (error + nat) \<times> 'u frame_decoder" where
  "frame_decoder_proc fd buf = (case frame_decoder_loop fd buf of
       (Inl e, fd') \<Rightarrow> (Inl e, fd')
     | (Inr _, fd') \<Rightarrow> (Inr (length buf), fd'))"

section \<open>The decoder one byte at a time\<close>

definition frame_byte :: "'u frame_decoder \<Rightarrow> u8 \<Rightarrow> (error + unit) \<times> 'u frame_decoder" where
  "frame_byte fd b =
     (if fd_state fd = NEED_SDRAM_FRAME_DATA
      then case packet_byte (fd_pd fd) b of
             (Inl e, pd') \<Rightarrow> (Inl e, fd\<lparr>fd_pd := pd'\<rparr>)
           | (Inr _, pd') \<Rightarrow>
               (Inr (), fd\<lparr>fd_pd := pd', fd_word := fd_word fd - 1,
                           fd_state := (if fd_word fd = 1 then NEED_FRAME_MAGIC
                                        else NEED_SDRAM_FRAME_DATA)\<rparr>)
      else case frame_decoder_step fd b [] of
             (Raise e, fd') \<Rightarrow> (Inl e, fd')
           | (_, fd') \<Rightarrow> (Inr (), fd'))"

abbreviation frame_bytes ::
    "'u frame_decoder \<Rightarrow> u8 list \<Rightarrow> (error + unit) \<times> 'u frame_decoder" where
  "frame_bytes \<equiv> run_bytes frame_byte"

definition frame_decoder_inv :: "'u frame_decoder \<Rightarrow> bool" where
  "frame_decoder_inv fd \<longleftrightarrow>
     packet_decoder_inv (fd_pd fd) \<and>
     (fd_state fd = NEED_SDRAM_FRAME_DATA \<longrightarrow> 0 < unat (fd_word fd) \<and> unat (fd_word fd) \<le> 512)"

lemma frame_decoder_init_inv:
  "0 < sz \<Longrightarrow> frame_decoder_inv (frame_decoder_init fd p sz o' ud)"
  by (simp add: frame_decoder_inv_def frame_decoder_init_def packet_decoder_init_inv)

lemma sdram_length: "unat ((ucast (b :: u8) + 1) * 2 :: u16) = 2 * (unat b + 1)"
proof -
  have "2 * (unat b + 1) < 65536" and "unat b + 1 < 65536"
    using unat_u8_less [of b] by simp_all
  then show ?thesis
    by (simp add: unat_word_ariths)
qed

lemma frame_byte_inv:
  assumes inv: "frame_decoder_inv fd" and byte: "frame_byte fd b = (r, fd')"
  shows "frame_decoder_inv fd'"
proof (cases "fd_state fd = NEED_SDRAM_FRAME_DATA")
  case True
  obtain r1 pd1 where one: "packet_byte (fd_pd fd) b = (r1, pd1)"
    by fastforce
  have "packet_decoder_inv pd1"
    using inv one packet_byte_inv by (auto simp: frame_decoder_inv_def)
  moreover have "fd_word fd \<noteq> 1 \<Longrightarrow> 0 < unat (fd_word fd - 1) \<and> unat (fd_word fd - 1) \<le> 512"
    using inv True unat_pred [of "fd_word fd"] unfolding frame_decoder_inv_def by linarith
  ultimately show ?thesis
    using inv byte True one
    by (cases r1; cases "fd_word fd = 1") (auto simp: frame_byte_def frame_decoder_inv_def)
next
  case False
  have "fd_state fd' = NEED_SDRAM_FRAME_DATA \<Longrightarrow> unat (fd_word fd') = 2 * (unat b + 1)"
    using byte False sdram_length [of b]
    by (cases "fd_state fd") (auto simp: frame_byte_def frame_decoder_step.simps split: if_splits)
  moreover have "packet_decoder_inv (fd_pd fd')"
    using inv byte False
    by (cases "fd_state fd")
       (auto simp: frame_byte_def frame_decoder_step.simps frame_decoder_inv_def
          split: if_splits)
  ultimately show ?thesis
    using unat_u8_less [of b] by (auto simp: frame_decoder_inv_def)
qed

section \<open>Refinement: the loop is the byte machine\<close>

lemma frame_decoder_step_header:
  assumes "fd_state fd \<noteq> NEED_SDRAM_FRAME_DATA"
  shows "frame_decoder_step fd b bs = (case frame_decoder_step fd b [] of
           (Raise e, fd1) \<Rightarrow> (Raise e, fd1) | (_, fd1) \<Rightarrow> (Next bs, fd1))"
  using assms
  by (auto simp: frame_decoder_step.simps split: frame_decoder_state.splits)

text \<open>The SDRAM frame of which \<open>n\<close> more bytes are used up.\<close>

definition sdram_used :: "'u frame_decoder \<Rightarrow> nat \<Rightarrow> 'u packet_decoder \<Rightarrow> 'u frame_decoder" where
  "sdram_used fd n pd' = fd\<lparr>fd_pd := pd', fd_word := fd_word fd - of_nat n,
     fd_state := (if fd_word fd - of_nat n = 0 then NEED_FRAME_MAGIC else NEED_SDRAM_FRAME_DATA)\<rparr>"

lemma frame_bytes_sdram:
  assumes "fd_state fd = NEED_SDRAM_FRAME_DATA" and "0 < unat (fd_word fd)"
    and "length xs \<le> unat (fd_word fd)" and "packet_bytes (fd_pd fd) xs = (r, pd1)"
  shows "case r of
           Inl e \<Rightarrow> \<exists>fd1. frame_bytes fd xs = (Inl e, fd1) \<and> fd_pd fd1 = pd1
         | Inr _ \<Rightarrow> frame_bytes fd xs = (Inr (), sdram_used fd (length xs) pd1)"
  using assms
proof (induction xs arbitrary: fd)
  case Nil
  then show ?case
    by (cases fd) (auto simp: sdram_used_def)
next
  case (Cons b xs)
  obtain r2 pd2 where one: "packet_byte (fd_pd fd) b = (r2, pd2)"
    by fastforce
  show ?case
  proof (cases r2)
    case (Inl e)
    then show ?thesis
      using one Cons.prems by (auto simp: frame_byte_def)
  next
    case Inr
    let ?fd2 = "sdram_used fd 1 pd2"
    have byte: "frame_byte fd b = (Inr (), ?fd2)"
      using one Inr Cons.prems(1) by (simp add: frame_byte_def sdram_used_def)
    show ?thesis
    proof (cases "fd_word fd = 1")
      case True
      then have "xs = []"
        using Cons.prems by simp
      then show ?thesis
        using byte one Inr Cons.prems by (auto simp: True)
    next
      case False
      note w = unat_pred [OF Cons.prems(2) False]
      have "case r of
           Inl e \<Rightarrow> \<exists>fd1. frame_bytes ?fd2 xs = (Inl e, fd1) \<and> fd_pd fd1 = pd1
         | Inr _ \<Rightarrow> frame_bytes ?fd2 xs = (Inr (), sdram_used ?fd2 (length xs) pd1)"
        using False w one Inr Cons.prems by (intro Cons.IH) (auto simp: sdram_used_def)
      moreover have "sdram_used ?fd2 (length xs) pd1 = sdram_used fd (length (b # xs)) pd1"
        by (simp add: sdram_used_def algebra_simps)
      ultimately show ?thesis
        using byte by (cases r) auto
    qed
  qed
qed

lemma frame_byte_sdram_flush:
  assumes "fd_word fd - of_nat n \<noteq> 0"
  shows "frame_byte (sdram_used fd n (packet_flush pd1)) c = frame_byte (sdram_used fd n pd1) c"
  using assms by (simp add: frame_byte_def sdram_used_def split: prod.split sum.split)

lemma frame_decoder_step_sdram:
  assumes inv: "frame_decoder_inv fd" and data: "fd_state fd = NEED_SDRAM_FRAME_DATA"
    and safe: "fst (frame_bytes fd (b # bs)) \<noteq> Inl (Out_of_bounds ''packet->data'')"
  shows "(\<exists>e fd1 fd2. frame_decoder_step fd b bs = (Raise e, fd1) \<and>
                     frame_bytes fd (b # bs) = (Inl e, fd2) \<and> fd_pd fd1 = fd_pd fd2)
       \<or> (\<exists>r fd1. frame_decoder_step fd b bs = (Next r, fd1) \<and> frame_decoder_inv fd1 \<and>
                 frame_bytes fd (b # bs) = frame_bytes fd1 r)"
proof -
  let ?psize = "min (unat (fd_word fd)) (length (b # bs))"
  let ?xs = "take ?psize (b # bs)" and ?ys = "drop ?psize (b # bs)"
  have split: "b # bs = ?xs @ ?ys"
    by (simp only: append_take_drop_id)
  have w: "0 < unat (fd_word fd)" and pinv: "packet_decoder_inv (fd_pd fd)"
    using inv data by (auto simp: frame_decoder_inv_def)
  obtain r1 pd1 where run: "packet_bytes (fd_pd fd) ?xs = (r1, pd1)"
    by fastforce
  have bytes: "frame_bytes fd (b # bs) = (case frame_bytes fd ?xs of
      (Inl e, s) \<Rightarrow> (Inl e, s) | (Inr _, s) \<Rightarrow> frame_bytes s ?ys)"
    using run_bytes_append [of frame_byte fd ?xs ?ys] split by simp
  have xs_le: "length ?xs \<le> unat (fd_word fd)"
    by simp
  note sdram = frame_bytes_sdram [OF data w xs_le run]
  have psafe: "fst (packet_bytes (fd_pd fd) ?xs) \<noteq> Inl (Out_of_bounds ''packet->data'')"
    using sdram safe bytes run by (cases r1) auto
  obtain lr pd' where loop: "packet_decoder_loop (fd_pd fd) ?xs = (lr, pd')"
    by fastforce
  note refines = packet_decoder_loop_refines [OF pinv psafe]
  show ?thesis
  proof (cases lr)
    case (Inl e)
    then have "frame_decoder_step fd b bs = (Raise e, fd\<lparr>fd_pd := pd'\<rparr>)"
      using loop data by (simp add: frame_decoder_step.simps packet_decoder_proc_def)
    moreover have "r1 = Inl e" and "pd1 = pd'"
      using refines loop run Inl by auto
    ultimately show ?thesis
      using sdram bytes by auto
  next
    case (Inr r)
    then obtain used pd2 where used: "?xs = used @ r"
        "packet_bytes (fd_pd fd) used = (Inr (), pd2)"
        "pd' = pd2 \<or> r \<noteq> [] \<and> pd' = packet_flush pd2"
      using refines loop by (auto simp: packet_consumed_def)
    let ?n = "length used"
    have n_le: "?n \<le> unat (fd_word fd)"
      using used(1) xs_le by (metis length_append add_leE)
    have n: "length ?xs - length r = ?n" and dropn: "drop ?n (b # bs) = r @ ?ys"
      using used(1) split by (simp, metis append.assoc append_eq_conv_conj)
    have blist: "b # bs = used @ r @ ?ys"
      using split used(1) by (metis append.assoc)
    have step: "frame_decoder_step fd b bs = (Next (r @ ?ys), sdram_used fd ?n pd')"
      using loop data Inr n dropn
      by (simp add: frame_decoder_step.simps packet_decoder_proc_def sdram_used_def Let_def)
    have pre: "frame_bytes fd used = (Inr (), sdram_used fd ?n pd2)"
      using frame_bytes_sdram [OF data w n_le used(2)] by simp
    then have inv2: "frame_decoder_inv (sdram_used fd ?n pd2)"
      using run_bytes_inv [of frame_decoder_inv frame_byte fd used] frame_byte_inv inv by blast
    have "frame_bytes fd (b # bs) = frame_bytes fd (used @ r @ ?ys)"
      by (rule arg_cong [OF blist])
    also have "\<dots> = frame_bytes (sdram_used fd ?n pd2) (r @ ?ys)"
      by (subst run_bytes_append) (simp only: pre prod.case sum.case)
    finally have "frame_bytes fd (b # bs) = frame_bytes (sdram_used fd ?n pd2) (r @ ?ys)" .
    moreover have "frame_decoder_inv (sdram_used fd ?n pd')"
      using inv2 used(3) packet_flush_inv by (auto simp: frame_decoder_inv_def sdram_used_def)
    moreover have "frame_bytes (sdram_used fd ?n pd') (r @ ?ys)
        = frame_bytes (sdram_used fd ?n pd2) (r @ ?ys)"
    proof (cases r)
      case (Cons c cs)
      then have "?n < unat (fd_word fd)"
        using xs_le arg_cong [OF used(1), of length] by simp
      then have "fd_word fd - of_nat ?n \<noteq> 0"
        by (rule word_minus_of_nat)
      then show ?thesis
        using Cons used(3) by (auto simp: frame_byte_sdram_flush)
    qed (use used(3) in auto)
    ultimately show ?thesis
      using step by metis
  qed
qed

lemma frame_decoder_loop_refines:
  assumes "frame_decoder_inv fd"
    and "fst (frame_bytes fd buf) \<noteq> Inl (Out_of_bounds ''packet->data'')"
  shows "agree fd_pd (frame_decoder_loop fd buf) (frame_bytes fd buf)"
  using assms
proof (induction fd buf rule: frame_decoder_loop.induct)
  case (2 fd b bs)
  show ?case
  proof (cases "fd_state fd = NEED_SDRAM_FRAME_DATA")
    case True
    then show ?thesis
      using frame_decoder_step_sdram [OF "2.prems"(1) True "2.prems"(2)] "2.IH" "2.prems"(2)
      by (auto simp: agree_Inl simp del: run_bytes.simps)
  next
    case False
    obtain i fd1 where one: "frame_decoder_step fd b [] = (i, fd1)"
      by fastforce
    note header = frame_decoder_step_header [OF False, of b bs]
    have byte: "frame_byte fd b = (case (i, fd1) of (Raise e, fd') \<Rightarrow> (Inl e, fd') | (_, fd') \<Rightarrow> (Inr (), fd'))"
      using False one by (simp add: frame_byte_def)
    show ?thesis
    proof (cases "\<exists>e. i = Raise e")
      case True
      then show ?thesis
        using one header byte by auto
    next
      case no_raise: False
      then have step: "frame_decoder_step fd b bs = (Next bs, fd1)"
        and byte1: "frame_byte fd b = (Inr (), fd1)"
        using one header byte by (auto split: iter.splits)
      have "frame_decoder_inv fd1"
        using "2.prems"(1) byte1 by (rule frame_byte_inv)
      then show ?thesis
        using "2.IH" [OF step [symmetric] refl] "2.prems"(2) step byte1 by simp
    qed
  qed
qed simp

interpretation frame_stream: streaming_decoder frame_decoder_loop frame_byte frame_decoder_inv
  "\<lambda>e. e = Out_of_bounds ''packet->data''" fd_pd
  by unfold_locales (auto intro: frame_byte_inv frame_decoder_loop_refines)

section \<open>Enough storage\<close>

text \<open>A decoder in its invariant whose packet storage takes any packet.\<close>

definition frame_decoder_safe :: "'u frame_decoder \<Rightarrow> bool" where
  "frame_decoder_safe fd \<longleftrightarrow> frame_decoder_inv fd \<and> packet_room (fd_pd fd)"

lemma packet_byte_data_length:
  "packet_byte pd b = (r, pd') \<Longrightarrow>
   length (pk_data (packet pd')) = length (pk_data (packet pd))"
  by (cases "pd_state (packet_flush pd)")
     (auto simp: packet_byte_def packet_store_def packet_flush_def packet_decoder_step.simps Let_def
       split: if_splits)

lemma packet_byte_room:
  assumes "packet_decoder_inv pd" and "packet_room pd"
  shows "fst (packet_byte pd b) \<noteq> Inl (Out_of_bounds m)"
    and "fst (packet_byte pd b) \<noteq> Inl (Assertion m)"
    and "fst (packet_byte pd b) \<noteq> Inl (Null_pointer m)"
proof -
  let ?pd = "packet_flush pd"
  have "fst (packet_byte pd b) \<in> {Inr (), Inl Failed}"
  proof (cases "pd_state ?pd = NEED_PACKET_DATA")
    case True
    note data = packet_flush_data [OF assms(1) True]
    have "ov_packet_captured_size (packet pd) \<le> 8191"
      using assms(1) True data
      by (intro captured_size_bound) (auto simp: packet_decoder_inv_def OV_MAX_PACKET_SIZE_def)
    then have "buf_actual_length pd < length (pk_data (packet pd))"
      using data assms(2) by (simp add: packet_room_def)
    then show ?thesis
      using True data by (simp add: packet_byte_def packet_store_def Let_def)
  next
    case False
    have "packet_decoder_inv ?pd"
      using assms(1) by (rule packet_flush_inv)
    then show ?thesis
      using False
      by (cases "pd_state ?pd")
         (auto simp: packet_byte_def packet_decoder_step.simps Let_def packet_decoder_inv_def)
  qed
  then show "fst (packet_byte pd b) \<noteq> Inl (Out_of_bounds m)"
    and "fst (packet_byte pd b) \<noteq> Inl (Assertion m)"
    and "fst (packet_byte pd b) \<noteq> Inl (Null_pointer m)"
    by auto
qed

lemma frame_byte_safe:
  assumes "frame_decoder_safe fd"
  shows "frame_byte fd b = (r, fd') \<Longrightarrow> frame_decoder_safe fd'"
    and "e \<noteq> Failed \<Longrightarrow> fst (frame_byte fd b) \<noteq> Inl e"
proof -
  have inv: "packet_decoder_inv (fd_pd fd)" and room: "packet_room (fd_pd fd)"
    and finv: "frame_decoder_inv fd"
    using assms by (auto simp: frame_decoder_safe_def frame_decoder_inv_def)
  obtain r1 pd1 where one: "packet_byte (fd_pd fd) b = (r1, pd1)"
    by fastforce
  have "fst (frame_byte fd b) \<in> {Inr (), Inl Failed}"
    using packet_byte_room [OF inv room, of b] one
    by (cases "fd_state fd"; cases r1; cases "projl r1")
       (auto simp: frame_byte_def frame_decoder_step.simps)
  then show "fst (frame_byte fd b) \<noteq> Inl e" if "e \<noteq> Failed"
    using that by auto
  show "frame_decoder_safe fd'" if "frame_byte fd b = (r, fd')"
  proof -
    have "length (pk_data (packet (fd_pd fd'))) = length (pk_data (packet (fd_pd fd)))"
      using that one packet_byte_data_length [OF one]
      by (cases "fd_state fd"; cases r1)
         (auto simp: frame_byte_def frame_decoder_step.simps split: if_splits)
    then show ?thesis
      using frame_byte_inv [OF finv that] room
      by (simp add: frame_decoder_safe_def packet_room_def)
  qed
qed

lemma frame_bytes_safe:
  assumes "frame_decoder_safe fd"
  shows "frame_bytes fd bs = (r, fd') \<Longrightarrow> frame_decoder_safe fd'"
    and "e \<noteq> Failed \<Longrightarrow> fst (frame_bytes fd bs) \<noteq> Inl e"
  using run_bytes_inv [of frame_decoder_safe frame_byte fd bs]
    run_bytes_safe [of frame_decoder_safe frame_byte e fd bs] frame_byte_safe assms
  by blast+

lemma frame_decoder_init_safe:
  assumes "0 < sz" and "8191 \<le> length (pk_data p)"
  shows "frame_decoder_safe (frame_decoder_init fd p sz o' ud)"
  unfolding frame_decoder_safe_def
  using frame_decoder_init_inv [OF assms(1)] assms(2)
  by (simp add: packet_room_def frame_decoder_init_def packet_decoder_init_def)

lemma frame_decoder_proc_total:
  assumes "frame_decoder_safe fd"
  shows "case frame_decoder_proc fd buf of
           (Inl e, fd') \<Rightarrow> e = Failed
         | (Inr n, fd') \<Rightarrow> n = length buf \<and> frame_decoder_safe fd'"
proof -
  obtain r fd1 where run: "frame_bytes fd buf = (r, fd1)"
    by fastforce
  have safe1: "frame_decoder_safe fd1"
    using assms run by (rule frame_bytes_safe(1))
  have err: "e = Failed" if "r = Inl e" for e
    using frame_bytes_safe(2) [OF assms, of e buf] run that by auto
  have "frame_decoder_inv fd" "fst (frame_bytes fd buf) \<noteq> Inl (Out_of_bounds ''packet->data'')"
    using assms frame_bytes_safe(2) [OF assms] by (auto simp: frame_decoder_safe_def)
  then have agree: "agree fd_pd (frame_decoder_loop fd buf) (r, fd1)"
    using frame_decoder_loop_refines [of fd buf] run by simp
  then show ?thesis
    using safe1 err by (auto simp: frame_decoder_proc_def agree_def split: prod.split sum.split)
qed

text \<open>A failing call leaves the decoder in its invariant, too: the next call may follow.\<close>

definition word_ok :: "'u frame_decoder \<Rightarrow> bool" where
  "word_ok fd \<longleftrightarrow> (fd_state fd = NEED_SDRAM_FRAME_DATA \<longrightarrow> 0 < unat (fd_word fd) \<and> unat (fd_word fd) \<le> 512)"

lemma frame_decoder_step_word:
  assumes "word_ok fd" and "frame_decoder_step fd b bs = (it, fd')"
  shows "word_ok fd'"
proof (cases "fd_state fd = NEED_SDRAM_FRAME_DATA")
  case True
  let ?buf = "take (min (unat (fd_word fd)) (length (b # bs))) (b # bs)"
  obtain r pd' where proc: "packet_decoder_proc (fd_pd fd) ?buf = (r, pd')"
    by fastforce
  show ?thesis
  proof (cases r)
    case (Inl e)
    then show ?thesis
      using assms True proc by (auto simp: frame_decoder_step.simps word_ok_def)
  next
    case (Inr n)
    then have "n \<le> unat (fd_word fd)"
      using packet_decoder_proc_le [of "fd_pd fd" ?buf n pd'] proc by simp
    then have "unat (fd_word fd - word_of_nat n) = unat (fd_word fd) - n"
      by (rule unat_minus_of_nat)
    then show ?thesis
      using assms True proc Inr
      by (auto simp: frame_decoder_step.simps word_ok_def Let_def unat_gt_0 unat_eq_zero)
  qed
next
  case False
  have "fd_state fd' = NEED_SDRAM_FRAME_DATA \<Longrightarrow> unat (fd_word fd') = 2 * (unat b + 1)"
    using assms(2) False sdram_length [of b]
    by (cases "fd_state fd") (auto simp: frame_decoder_step.simps split: if_splits)
  then show ?thesis
    using unat_u8_less [of b] by (auto simp: word_ok_def)
qed

lemma frame_decoder_loop_word:
  "frame_decoder_loop fd buf = (r, fd') \<Longrightarrow> word_ok fd \<Longrightarrow> word_ok fd'"
proof (induction fd buf rule: frame_decoder_loop.induct)
  case (2 fd b bs)
  obtain it fd1 where step: "frame_decoder_step fd b bs = (it, fd1)"
    by fastforce
  note word1 = frame_decoder_step_word [OF "2.prems"(2) step]
  show ?case
    using "2.IH" [OF step [symmetric]] "2.prems"(1) word1 step
    by (cases it) auto
qed simp

lemma frame_decoder_stays_safe:
  assumes "frame_decoder_safe fd" and "frame_decoder_proc fd buf = (r, fd')"
  shows "frame_decoder_safe fd'"
proof -
  obtain lr where loop: "frame_decoder_loop fd buf = (lr, fd')"
    using assms(2) by (auto simp: frame_decoder_proc_def split: prod.splits sum.splits)
  obtain r1 fd1 where run: "frame_bytes fd buf = (r1, fd1)"
    by fastforce
  have "fst (frame_bytes fd buf) \<noteq> Inl (Out_of_bounds ''packet->data'')"
    using frame_bytes_safe(2) [OF assms(1)] by simp
  then have "agree fd_pd (lr, fd') (r1, fd1)"
    using frame_decoder_loop_refines [of fd buf] assms(1) loop run by (simp add: frame_decoder_safe_def)
  then have "fd_pd fd' = fd_pd fd1"
    by (auto simp: agree_def split: sum.splits)
  moreover have "frame_decoder_safe fd1"
    using assms(1) run by (rule frame_bytes_safe(1))
  moreover have "word_ok fd'"
    using frame_decoder_loop_word [OF loop] assms(1)
    by (simp add: word_ok_def frame_decoder_safe_def frame_decoder_inv_def)
  ultimately show ?thesis
    by (simp add: frame_decoder_safe_def frame_decoder_inv_def word_ok_def)
qed

end
