(* ===== verification/Cha_Loop.thy ===== *)
theory Cha_Loop imports
  Cha
  Frame_Decoder
begin

text \<open>
  \<open>src/cha.c\<close>, second part: the capture loop.  Three bulk transfers are kept in flight; libusb calls
  \<open>cha_loop_transfer_callback\<close> for each that ends, the data goes through the frame decoder, whose
  callbacks call the user's, and the transfer is submitted again until the loop is stopped.

  The order in which libusb reports events is not the program's: the loop is a step relation over
  events, and the theorems are about everything that is reachable.
\<close>

unbundle bit_operations_syntax

section \<open>Data\<close>

datatype cha_loop_state =
  RUNNING | FATAL_ERROR | BREAK_LOOP | COUNT_LIMIT | END_OF_STREAM | HOST_READ_OFF

fun state_code :: "cha_loop_state \<Rightarrow> int" where
  "state_code RUNNING = 0"
| "state_code FATAL_ERROR = 1"
| "state_code BREAK_LOOP = 2"
| "state_code COUNT_LIMIT = 3"
| "state_code END_OF_STREAM = 4"
| "state_code HOST_READ_OFF = 5"

text \<open>
  libusb's view of a transfer: not submitted, in flight, or in flight with a cancellation requested.
\<close>

datatype transfer = Idle | In_flight | Cancelling

text \<open>
  A callback gets the packet and its user data; it may abort (a failed assertion), and it may call
  \<open>ov_capture_breakloop\<close>, which is the boolean.
\<close>

type_synonym 'u callback = "ov_packet \<Rightarrow> 'u \<Rightarrow> error + 'u \<times> bool"

text \<open>
  \<open>struct cha_loop\<close> without its decoder.  The decoder's \<open>user_data\<close> points to this structure, so
  the whole of a \<open>struct cha_loop\<close> is a frame decoder over it.  \<open>lp_abort\<close> is set when a callback has
  ended the program.
\<close>

record 'u loop_data =
  lp_cha :: cha
  lp_transfer :: "transfer list"
  active_transfers :: nat
  lp_callback :: "'u callback option"
  lp_user :: 'u
  lp_count :: int
  max_count :: int
  lp_state :: cha_loop_state
  lp_complete :: bool
  lp_abort :: "error option"

type_synonym 'u cha_loop = "'u loop_data frame_decoder"

definition loop_data :: "'u cha_loop \<Rightarrow> 'u loop_data" where
  "loop_data l = user_data (fd_pd l)"

definition on_loop :: "('u loop_data \<Rightarrow> 'u loop_data) \<Rightarrow> 'u cha_loop \<Rightarrow> 'u cha_loop" where
  "on_loop f l = l\<lparr>fd_pd := (fd_pd l)\<lparr>user_data := f (user_data (fd_pd l))\<rparr>\<rparr>"

definition loop_error :: "string option \<Rightarrow> 'u loop_data \<Rightarrow> 'u loop_data" where
  "loop_error msg d = d\<lparr>lp_state := FATAL_ERROR, lp_cha := (lp_cha d)\<lparr>cha_error := msg\<rparr>\<rparr>"

section \<open>Callbacks of the decoder\<close>

definition request_cancel :: "transfer \<Rightarrow> transfer" where
  "request_cancel t = (if t = Idle then Idle else Cancelling)"

definition cha_loop_cancel_transfer :: "'u loop_data \<Rightarrow> 'u loop_data" where
  "cha_loop_cancel_transfer d = d\<lparr>lp_transfer := map request_cancel (lp_transfer d)\<rparr>"

definition cha_loop_break :: "'u loop_data \<Rightarrow> 'u loop_data" where
  "cha_loop_break d = cha_loop_cancel_transfer (d\<lparr>lp_state := BREAK_LOOP\<rparr>)"

text \<open>\<open>loop->callback(packet, loop->user_data)\<close>\<close>

definition call_user :: "ov_packet \<Rightarrow> 'u loop_data \<Rightarrow> 'u loop_data" where
  "call_user p d = (case lp_callback d of
       None \<Rightarrow> d
     | Some f \<Rightarrow> (case f p (lp_user d) of
           Inl e \<Rightarrow> d\<lparr>lp_abort := Some e\<rparr>
         | Inr (u, brk) \<Rightarrow>
             if brk then cha_loop_break (d\<lparr>lp_user := u\<rparr>) else d\<lparr>lp_user := u\<rparr>))"

text \<open>\<open>loop->max_count > 0 && loop->count++ >= loop->max_count\<close>: the count moves only if there is a limit.\<close>

definition count_packet :: "'u loop_data \<Rightarrow> 'u loop_data" where
  "count_packet d =
     (if 0 < max_count d
      then if max_count d \<le> lp_count d then d\<lparr>lp_count := lp_count d + 1, lp_state := COUNT_LIMIT\<rparr>
           else d\<lparr>lp_count := lp_count d + 1\<rparr>
      else d)"

definition cha_loop_packet_callback :: "ov_packet \<Rightarrow> 'u loop_data \<Rightarrow> 'u loop_data" where
  "cha_loop_packet_callback p d =
     (if lp_abort d \<noteq> None \<or> lp_state d \<noteq> RUNNING then d
      else let d1 = call_user p d
           in if lp_abort d1 \<noteq> None then d1
              else let d2 = count_packet d1
                   in if pk_flags p AND OV_FLAGS_HF0_LAST \<noteq> 0 then d2\<lparr>lp_state := END_OF_STREAM\<rparr> else d2)"

definition cha_loop_bus_frame_callback :: "u16 \<Rightarrow> u8 \<Rightarrow> 'u loop_data \<Rightarrow> 'u loop_data" where
  "cha_loop_bus_frame_callback a val d =
     (if lp_abort d \<noteq> None then d
      else if a AND NOT 0x8000 = addr (cha_reg (lp_cha d)) SDRAM_HOST_READ_GO \<and> val = 0
      then d\<lparr>lp_state := HOST_READ_OFF\<rparr> else d)"

definition loop_ops :: "'u loop_data decoder_ops" where
  "loop_ops = \<lparr>ops_packet = Some cha_loop_packet_callback, ops_bus_frame = Some cha_loop_bus_frame_callback\<rparr>"

section \<open>Transfers\<close>

datatype transfer_status =
    LIBUSB_TRANSFER_COMPLETED
  | LIBUSB_TRANSFER_ERROR
  | LIBUSB_TRANSFER_TIMED_OUT
  | LIBUSB_TRANSFER_CANCELLED
  | LIBUSB_TRANSFER_STALL
  | LIBUSB_TRANSFER_NO_DEVICE
  | LIBUSB_TRANSFER_OVERFLOW

fun status_code :: "transfer_status \<Rightarrow> int" where
  "status_code LIBUSB_TRANSFER_COMPLETED = 0"
| "status_code LIBUSB_TRANSFER_ERROR = 1"
| "status_code LIBUSB_TRANSFER_TIMED_OUT = 2"
| "status_code LIBUSB_TRANSFER_CANCELLED = 3"
| "status_code LIBUSB_TRANSFER_STALL = 4"
| "status_code LIBUSB_TRANSFER_NO_DEVICE = 5"
| "status_code LIBUSB_TRANSFER_OVERFLOW = 6"

definition LIBUSB_ERROR_TIMEOUT :: int where "LIBUSB_ERROR_TIMEOUT = -7"
definition LIBUSB_ERROR_INTERRUPTED :: int where "LIBUSB_ERROR_INTERRUPTED = -10"

text \<open>What the loop uses of libftdi and libusb: the size of a USB packet and the names of errors.\<close>

record usb =
  max_packet_size :: nat
  error_name :: "int \<Rightarrow> string"

text \<open>
  The \<open>while\<close> loop over one transfer, in packets with a header of two bytes each; \<open>buf\<close> is what is
  left after \<open>offset\<close>.  With a packet size of 0 it would not end.
\<close>

partial_function (option) transfer_packets ::
    "nat \<Rightarrow> u8 list \<Rightarrow> 'u cha_loop \<Rightarrow> ((error + unit) \<times> 'u cha_loop) option" where
  "transfer_packets mps buf l =
     (if lp_state (loop_data l) = RUNNING \<and> buf \<noteq> []
      then let packet_length = min (length buf) mps
           in if 2 < packet_length
              then (let r = frame_decoder_proc l (take (packet_length - 2) (drop 2 buf)); l' = snd r
                    in case lp_abort (loop_data l') of
                         Some e \<Rightarrow> Some (Inl e, l')
                       | None \<Rightarrow>
                         (case fst r of
                            Inl e \<Rightarrow>
                              if e = Failed
                              then transfer_packets mps (drop packet_length buf)
                                     (on_loop (loop_error (pd_error_str (fd_pd l'))) l')
                              else Some (Inl e, l')
                          | Inr n \<Rightarrow> transfer_packets mps (drop packet_length buf) l'))
              else transfer_packets mps (drop packet_length buf) l
      else Some (Inr (), l))"

text \<open>
  The loop that submits a transfer again while it is interrupted, on the answers of libusb; \<open>None\<close>
  if there is always another interruption.
\<close>

fun submit_retry :: "int list \<Rightarrow> int option" where
  "submit_retry [] = None"
| "submit_retry (r # rs) = (if r < 0 \<and> r = LIBUSB_ERROR_INTERRUPTED then submit_retry rs else Some r)"

text \<open>\<open>loop->complete = !(--loop->active_transfers)\<close>; a \<open>size_t\<close> wraps below zero.\<close>

definition transfer_ended :: "'u loop_data \<Rightarrow> 'u loop_data" where
  "transfer_ended d =
     (let n = size_sub (active_transfers d) 1 in d\<lparr>active_transfers := n, lp_complete := (n = 0)\<rparr>)"

text \<open>
  The end of a completed transfer: submit it again if the loop is running, and close it if it is
  not running, or no longer.
\<close>

definition resubmit :: "usb \<Rightarrow> nat \<Rightarrow> int list \<Rightarrow> 'u loop_data \<Rightarrow> 'u loop_data option" where
  "resubmit usb i answers d =
     (let r = (if lp_state d = RUNNING then submit_retry answers else Some 0)
      in case r of
           None \<Rightarrow> None
         | Some rc \<Rightarrow>
             let d1 = (if rc < 0 then loop_error (Some (error_name usb rc)) d
                       else if lp_state d = RUNNING then d\<lparr>lp_transfer := (lp_transfer d)[i := In_flight]\<rparr>
                       else d)
             in if lp_state d1 \<noteq> RUNNING then Some (transfer_ended (cha_loop_cancel_transfer d1))
                else Some d1)"

text \<open>
  libusb has taken transfer \<open>i\<close> out of flight and calls the callback; \<open>buf\<close> is the part of its buffer
  that was filled, \<open>answers\<close> what \<open>libusb_submit_transfer\<close> will return.
\<close>

definition cha_loop_transfer_callback ::
    "usb \<Rightarrow> nat \<Rightarrow> transfer_status \<Rightarrow> u8 list \<Rightarrow> int list \<Rightarrow> 'u cha_loop
      \<Rightarrow> ((error + unit) \<times> 'u cha_loop) option" where
  "cha_loop_transfer_callback usb i status buf answers l0 =
     (let l = on_loop (\<lambda>d. d\<lparr>lp_transfer := (lp_transfer d)[i := Idle]\<rparr>) l0
      in case status of
           LIBUSB_TRANSFER_COMPLETED \<Rightarrow>
             (case transfer_packets (max_packet_size usb) buf l of
                None \<Rightarrow> None
              | Some (Inl e, l') \<Rightarrow> Some (Inl e, l')
              | Some (Inr _, l') \<Rightarrow>
                  (case resubmit usb i answers (loop_data l') of
                     None \<Rightarrow> None
                   | Some d \<Rightarrow> Some (Inr (), on_loop (\<lambda>_. d) l')))
         | LIBUSB_TRANSFER_CANCELLED \<Rightarrow> Some (Inr (), on_loop transfer_ended l)
         | _ \<Rightarrow>
             Some (Inr (), on_loop (\<lambda>d. transfer_ended
               (loop_error (Some (error_name usb (status_code status))) d)) l))"

section \<open>The loop\<close>

definition cha_loop_set_callback ::
    "'u callback option \<Rightarrow> 'u \<Rightarrow> 'u loop_data \<Rightarrow> 'u loop_data \<times> 'u callback option" where
  "cha_loop_set_callback f u d = (d\<lparr>lp_callback := f, lp_user := u\<rparr>, lp_callback d)"

text \<open>
  The \<open>for\<close> loop that submits the three transfers, from the \<open>i\<close>-th on; \<open>ret\<close> is still 0 when the error
  is named.
\<close>

definition transfers_count :: nat where "transfers_count = 3"

function submit_all :: "usb \<Rightarrow> (nat \<Rightarrow> int) \<Rightarrow> 'u loop_data \<Rightarrow> 'u loop_data" where
  "submit_all usb answer d =
     (let i = active_transfers d
      in if i < transfers_count
         then if answer i < 0 then loop_error (Some (error_name usb 0)) d
              else submit_all usb answer
                (d\<lparr>lp_transfer := (lp_transfer d)[i := In_flight], active_transfers := i + 1\<rparr>)
         else d)"
  by pat_completeness auto
termination
  by (relation "measure (\<lambda>(usb, answer, d). transfers_count - active_transfers d)") auto

declare submit_all.simps [simp del]

definition loop_reset :: "int \<Rightarrow> 'u loop_data \<Rightarrow> 'u loop_data" where
  "loop_reset cnt d = d\<lparr>lp_count := 0, max_count := cnt, lp_complete := False\<rparr>"

definition loop_start :: "usb \<Rightarrow> (nat \<Rightarrow> int) \<Rightarrow> 'u loop_data \<Rightarrow> 'u loop_data" where
  "loop_start usb answer d =
     (let d1 = submit_all usb answer (d\<lparr>active_transfers := 0\<rparr>)
      in if lp_state d1 \<noteq> RUNNING then cha_loop_cancel_transfer d1 else d1)"

text \<open>
  What can happen while \<open>libusb_handle_events_timeout_completed\<close> runs: the callback of a transfer that
  ended, which is cancelled only if that was requested; an error of the function itself; another
  thread that calls \<open>cha_loop_break\<close>.
\<close>

definition may_end :: "transfer_status \<Rightarrow> transfer \<Rightarrow> bool" where
  "may_end status t \<longleftrightarrow> t = Cancelling \<or> t = In_flight \<and> status \<noteq> LIBUSB_TRANSFER_CANCELLED"

inductive loop_step :: "usb \<Rightarrow> 'u cha_loop \<Rightarrow> 'u cha_loop \<Rightarrow> bool" for usb where
  transfer_step: "i < length (lp_transfer (loop_data l)) \<Longrightarrow> may_end status (lp_transfer (loop_data l) ! i) \<Longrightarrow>
    cha_loop_transfer_callback usb i status buf answers l = Some (Inr (), l') \<Longrightarrow> loop_step usb l l'"
| events_step: "rc < 0 \<Longrightarrow> rc \<noteq> LIBUSB_ERROR_INTERRUPTED \<Longrightarrow> rc \<noteq> LIBUSB_ERROR_TIMEOUT \<Longrightarrow>
    loop_step usb l (on_loop (loop_error (Some (error_name usb rc))) l)"
| break_step: "loop_step usb l (on_loop cha_loop_break l)"

definition loop_reaches :: "usb \<Rightarrow> 'u cha_loop \<Rightarrow> 'u cha_loop \<Rightarrow> bool" where
  "loop_reaches usb = (loop_step usb)\<^sup>*\<^sup>*"

text \<open>The end of \<open>cha_loop_run\<close>, with its assertions.\<close>

definition loop_result :: "'u loop_data \<Rightarrow> error + int" where
  "loop_result d =
     (if lp_state d = RUNNING then Inl (Assertion ''loop->state != RUNNING'')
      else if active_transfers d \<noteq> 0 then Inl (Assertion ''loop->active_transfers == 0'')
      else if lp_state d \<noteq> COUNT_LIMIT then Inr (- state_code (lp_state d))
      else Inr (lp_count d))"

text \<open>\<open>cha_loop_run\<close> may return \<open>ret\<close> and leave \<open>l'\<close>: at once, or when the loop is complete.\<close>

inductive cha_loop_run ::
    "usb \<Rightarrow> (nat \<Rightarrow> int) \<Rightarrow> int \<Rightarrow> 'u cha_loop \<Rightarrow> error + int \<Rightarrow> 'u cha_loop \<Rightarrow> bool" for usb answer cnt where
  run_fatal: "lp_state (loop_data l) = FATAL_ERROR \<Longrightarrow>
    cha_loop_run usb answer cnt l (Inr (- state_code FATAL_ERROR)) (on_loop (loop_reset cnt) l)"
| run_loop: "lp_state (loop_data l) \<noteq> FATAL_ERROR \<Longrightarrow>
    loop_reaches usb (on_loop (loop_start usb answer) (on_loop (loop_reset cnt) l)) l' \<Longrightarrow>
    lp_complete (loop_data l') \<Longrightarrow>
    cha_loop_run usb answer cnt l (loop_result (loop_data l')) l'"

section \<open>Creating and destroying\<close>

text \<open>
  The loop that allocates the transfers and their buffers, with \<open>n\<close> left to do, and the clean-up,
  which frees the transfers that exist in reverse order.
\<close>

fun free_transfers :: "env \<Rightarrow> nat \<Rightarrow> (cha st, unit) prog" where
  "free_transfers env 0 = ret ()"
| "free_transfers env (Suc i) = thenE (call_void env (Libusb_free_transfer i)) (free_transfers env i)"

fun alloc_transfers :: "env \<Rightarrow> nat \<Rightarrow> (cha st, unit) prog" where
  "alloc_transfers env 0 = ret ()"
| "alloc_transfers env (Suc n) =
     (let i = transfers_count - Suc n
      in bindE (perform env Libusb_alloc_transfer) (\<lambda>r.
           if r_ret r = 0
           then onfail (fail_str set_cha_error ''Can not allocate libusb_transfer'') (free_transfers env i)
           else bindE (perform env (Malloc 4096)) (\<lambda>m.
             if r_ret m = 0
             then onfail (fail_str set_cha_error ''Can not allocate transfer buffer'') (free_transfers env (i + 1))
             else alloc_transfers env n)))"

text \<open>
  \<open>cha_loop_init\<close>; \<open>frame_decoder_init\<close> does not fail.  The pointer \<open>loop->cha\<close> is a copy of what it
  points to.  The counters are not initialised here; no callback has crashed yet.
\<close>

definition init_data :: "cha \<Rightarrow> 'u callback option \<Rightarrow> 'u \<Rightarrow> 'u loop_data \<Rightarrow> 'u loop_data" where
  "init_data c f u d = d\<lparr>lp_cha := c, lp_callback := f, lp_user := u, lp_state := RUNNING,
     lp_transfer := replicate transfers_count Idle, lp_abort := None\<rparr>"

definition cha_loop_init ::
    "env \<Rightarrow> ov_packet \<Rightarrow> nat \<Rightarrow> 'u callback option \<Rightarrow> 'u \<Rightarrow> ((cha \<times> 'u cha_loop) st, unit) prog" where
  "cha_loop_init env p n f u =
     thenE (modify_obj (\<lambda>(c, l). (c, frame_decoder_init l p n loop_ops (init_data c f u (loop_data l)))))
       (zoom fst (\<lambda>c (_, l). (c, l)) (alloc_transfers env transfers_count))"

definition cha_loop_destroy :: "env \<Rightarrow> 'u cha_loop \<Rightarrow> (cha st, unit) prog" where
  "cha_loop_destroy env l =
     (if active_transfers (loop_data l) \<noteq> 0 then throw (Assertion ''loop->active_transfers == 0'')
      else seqE (map (\<lambda>i. call_void env (Libusb_free_transfer i)) [0..<transfers_count]))"

end
