(* ===== verification/Decoder_Client.thy ===== *)
theory Decoder_Client imports
  Frame_Decoder
begin

text \<open>
  What a client of the frame decoder can rely on: its user data is changed by its own two callbacks
  only.  The contract is a relation between user data that both callbacks respect.
\<close>

locale decoder_client =
  fixes on_packet :: "ov_packet \<Rightarrow> 'u \<Rightarrow> 'u" and on_bus :: "u16 \<Rightarrow> u8 \<Rightarrow> 'u \<Rightarrow> 'u"
    and R :: "'u \<Rightarrow> 'u \<Rightarrow> bool"
  assumes user_refl: "R u u"
    and user_trans: "R u v \<Longrightarrow> R v w \<Longrightarrow> R u w"
    and packet_user: "R u (on_packet p u)"
    and bus_user: "R u (on_bus a val u)"
begin

definition client_ops :: "'u decoder_ops" where
  "client_ops = \<lparr>ops_packet = Some on_packet, ops_bus_frame = Some on_bus\<rparr>"

lemma packet_step_user:
  assumes "ops pd = client_ops" and "packet_decoder_step pd b bs = (it, pd')"
  shows "ops pd' = client_ops \<and> R (user_data pd) (user_data pd')"
  using assms
  by (auto simp: packet_decoder_step.simps call_packet_def client_ops_def Let_def user_refl packet_user
      split: packet_decoder_state.splits if_splits option.splits)

lemma packet_loop_user:
  "packet_decoder_loop pd buf = (r, pd') \<Longrightarrow> ops pd = client_ops \<Longrightarrow>
   ops pd' = client_ops \<and> R (user_data pd) (user_data pd')"
proof (induction pd buf rule: packet_decoder_loop.induct)
  case (2 pd b bs)
  obtain it pd1 where step: "packet_decoder_step pd b bs = (it, pd1)"
    by fastforce
  note one = packet_step_user [OF "2.prems"(2) step]
  show ?case
  proof (cases it)
    case (Next r1)
    then show ?thesis
      using "2.IH" [OF step [symmetric] Next] "2.prems" step one user_trans by auto
  qed (use "2.prems" step one in auto)
qed (simp add: user_refl)

lemma packet_proc_user:
  assumes "packet_decoder_proc pd buf = (r, pd')" and "ops pd = client_ops"
  shows "ops pd' = client_ops \<and> R (user_data pd) (user_data pd')"
  using assms packet_loop_user [of pd buf _ pd']
  by (auto simp: packet_decoder_proc_def split: prod.splits sum.splits)

lemma frame_step_user:
  assumes "ops (fd_pd fd) = client_ops" and "frame_decoder_step fd b bs = (it, fd')"
  shows "ops (fd_pd fd') = client_ops \<and> R (user_data (fd_pd fd)) (user_data (fd_pd fd'))"
proof (cases "fd_state fd = NEED_SDRAM_FRAME_DATA")
  case True
  obtain r pd' where "packet_decoder_proc (fd_pd fd) (take (min (unat (fd_word fd)) (length (b # bs))) (b # bs)) = (r, pd')"
    by fastforce
  then show ?thesis
    using packet_proc_user assms True
    by (cases r) (auto simp: frame_decoder_step.simps Let_def)
next
  case False
  then show ?thesis
    using assms
    by (auto simp: frame_decoder_step.simps call_bus_frame_def client_ops_def user_refl bus_user
        split: frame_decoder_state.splits if_splits)
qed

lemma frame_loop_user:
  "frame_decoder_loop fd buf = (r, fd') \<Longrightarrow> ops (fd_pd fd) = client_ops \<Longrightarrow>
   ops (fd_pd fd') = client_ops \<and> R (user_data (fd_pd fd)) (user_data (fd_pd fd'))"
proof (induction fd buf rule: frame_decoder_loop.induct)
  case (2 fd b bs)
  obtain it fd1 where step: "frame_decoder_step fd b bs = (it, fd1)"
    by fastforce
  note one = frame_step_user [OF "2.prems"(2) step]
  show ?case
  proof (cases it)
    case (Next r1)
    then show ?thesis
      using "2.IH" [OF step [symmetric] Next] "2.prems" step one user_trans by auto
  qed (use "2.prems" step one in auto)
qed (simp add: user_refl)

lemma frame_proc_user:
  assumes "frame_decoder_proc fd buf = (r, fd')" and "ops (fd_pd fd) = client_ops"
  shows "ops (fd_pd fd') = client_ops" and "R (user_data (fd_pd fd)) (user_data (fd_pd fd'))"
  using assms frame_loop_user [of fd buf _ fd']
  by (auto simp: frame_decoder_proc_def split: prod.splits sum.splits)

text \<open>The same for the decoder that takes one byte at a time.\<close>

lemma packet_flush_user:
  assumes "ops pd = client_ops"
  shows "ops (packet_flush pd) = client_ops" and "R (user_data pd) (user_data (packet_flush pd))"
  using assms by (auto simp: packet_flush_def packet_finish_def call_packet_def client_ops_def user_refl packet_user)

lemma packet_byte_user:
  assumes "ops pd = client_ops" and "packet_byte pd b = (r, pd')"
  shows "ops pd' = client_ops \<and> R (user_data pd) (user_data pd')"
proof -
  let ?pd = "packet_flush pd"
  note flush = packet_flush_user [OF assms(1)]
  let ?pd1 = "?pd\<lparr>packet := (packet ?pd)\<lparr>pk_data := (pk_data (packet ?pd))[buf_actual_length ?pd := b]\<rparr>,
      buf_actual_length := buf_actual_length ?pd + 1\<rparr>"
  have store: "ops pd' = client_ops \<and> R (user_data ?pd) (user_data pd')" if "packet_store ?pd b = (r, pd')"
    using that flush(1) user_refl packet_flush_user [of ?pd1]
    by (auto simp: packet_store_def Let_def split: if_splits)
  have "ops pd' = client_ops \<and> R (user_data ?pd) (user_data pd')"
    using store assms(2) packet_step_user [OF flush(1)]
    by (auto simp: packet_byte_def Let_def split: if_splits prod.splits iter.splits)
  then show ?thesis
    using flush(2) user_trans by blast
qed

lemma packet_bytes_user:
  "packet_bytes pd bs = (r, pd') \<Longrightarrow> ops pd = client_ops \<Longrightarrow>
   ops pd' = client_ops \<and> R (user_data pd) (user_data pd')"
proof (induction bs arbitrary: pd)
  case (Cons b bs)
  obtain r1 pd1 where one: "packet_byte pd b = (r1, pd1)"
    by fastforce
  show ?case
    using Cons packet_byte_user [OF Cons.prems(2) one] one user_trans
    by (cases r1) auto
qed (simp add: user_refl)

end

text \<open>
  A change of the user data that commutes with both callbacks commutes with the decoder.
\<close>

locale decoder_symmetry =
  fixes on_packet :: "ov_packet \<Rightarrow> 'u \<Rightarrow> 'u" and on_bus :: "u16 \<Rightarrow> u8 \<Rightarrow> 'u \<Rightarrow> 'u"
    and h :: "'u \<Rightarrow> 'u"
  assumes packet_commutes: "h (on_packet p u) = on_packet p (h u)"
    and bus_commutes: "h (on_bus a val u) = on_bus a val (h u)"
begin

definition symmetric_ops :: "'u decoder_ops" where
  "symmetric_ops = \<lparr>ops_packet = Some on_packet, ops_bus_frame = Some on_bus\<rparr>"

definition moved :: "'u packet_decoder \<Rightarrow> 'u packet_decoder" where
  "moved pd = pd\<lparr>user_data := h (user_data pd)\<rparr>"

definition frame_moved :: "'u frame_decoder \<Rightarrow> 'u frame_decoder" where
  "frame_moved fd = fd\<lparr>fd_pd := moved (fd_pd fd)\<rparr>"

lemma moved_fields [simp]:
  "packet (moved pd) = packet pd" "ops (moved pd) = ops pd" "pd_state (moved pd) = pd_state pd"
  "buf_actual_length (moved pd) = buf_actual_length pd" "buf_length (moved pd) = buf_length pd"
  "cumulative_ts (moved pd) = cumulative_ts pd" "ts_byte (moved pd) = ts_byte pd"
  "ts_length (moved pd) = ts_length pd" "user_data (moved pd) = h (user_data pd)"
  by (simp_all add: moved_def)

lemma packet_step_moved:
  assumes "ops pd = symmetric_ops"
  shows "packet_decoder_step (moved pd) b bs = map_prod id moved (packet_decoder_step pd b bs)"
  using assms
  by (cases "pd_state pd")
    (auto simp: packet_decoder_step.simps call_packet_def symmetric_ops_def Let_def moved_def packet_commutes
      split: option.splits)

lemma packet_step_ops: "packet_decoder_step pd b bs = (it, pd') \<Longrightarrow> ops pd' = ops pd"
  by (cases "pd_state pd") (auto simp: packet_decoder_step.simps call_packet_def Let_def
      split: if_splits option.splits)

lemma packet_loop_moved:
  "ops pd = symmetric_ops \<Longrightarrow>
   packet_decoder_loop (moved pd) buf = map_prod id moved (packet_decoder_loop pd buf) \<and>
   ops (snd (packet_decoder_loop pd buf)) = symmetric_ops"
proof (induction pd buf rule: packet_decoder_loop.induct)
  case (2 pd b bs)
  obtain it pd1 where step: "packet_decoder_step pd b bs = (it, pd1)"
    by fastforce
  have ops: "ops pd1 = symmetric_ops"
    using packet_step_ops [OF step] "2.prems" by simp
  show ?case
    using "2.IH" [OF step [symmetric]] packet_step_moved [OF "2.prems", of b bs] step ops
    by (cases it) simp_all
qed simp

lemma frame_step_moved:
  assumes "ops (fd_pd fd) = symmetric_ops"
  shows "frame_decoder_step (frame_moved fd) b bs = map_prod id frame_moved (frame_decoder_step fd b bs)"
    and "ops (fd_pd (snd (frame_decoder_step fd b bs))) = symmetric_ops"
proof -
  let ?buf = "take (min (unat (fd_word fd)) (length (b # bs))) (b # bs)"
  obtain r pd' where loop: "packet_decoder_loop (fd_pd fd) ?buf = (r, pd')"
    by fastforce
  have moved: "packet_decoder_proc (moved (fd_pd fd)) ?buf = map_prod id moved (packet_decoder_proc (fd_pd fd) ?buf)"
    "ops pd' = symmetric_ops"
    using packet_loop_moved [OF assms, of ?buf] loop by (cases r; simp add: packet_decoder_proc_def)+
  show "frame_decoder_step (frame_moved fd) b bs = map_prod id frame_moved (frame_decoder_step fd b bs)"
    using moved(1) loop assms
    by (cases "fd_state fd"; cases r)
      (simp_all add: frame_decoder_step.simps frame_moved_def packet_decoder_proc_def call_bus_frame_def
        symmetric_ops_def moved_def bus_commutes Let_def)
  show "ops (fd_pd (snd (frame_decoder_step fd b bs))) = symmetric_ops"
    using moved(2) loop assms
    by (cases "fd_state fd"; cases r)
      (simp_all add: frame_decoder_step.simps packet_decoder_proc_def call_bus_frame_def
        symmetric_ops_def Let_def)
qed

lemma frame_loop_moved:
  "ops (fd_pd fd) = symmetric_ops \<Longrightarrow>
   frame_decoder_loop (frame_moved fd) buf = map_prod id frame_moved (frame_decoder_loop fd buf) \<and>
   ops (fd_pd (snd (frame_decoder_loop fd buf))) = symmetric_ops"
proof (induction fd buf rule: frame_decoder_loop.induct)
  case (2 fd b bs)
  obtain it fd1 where step: "frame_decoder_step fd b bs = (it, fd1)"
    by fastforce
  note m = frame_step_moved [OF "2.prems", of b bs]
  show ?case
    using "2.IH" [OF step [symmetric]] m step
    by (cases it) simp_all
qed simp

end

end
