(* ===== verification/Cha_Loop_Rules.thy ===== *)
theory Cha_Loop_Rules imports
  Cha_Loop
  Decoder_Client
begin

text \<open>
  Rules for the capture loop: what the callbacks of the decoder may do to the loop, what a transfer
  does, and the invariant of everything that is reachable.
\<close>

unbundle bit_operations_syntax

section \<open>The two views of the loop\<close>

lemma loop_data_on_loop [simp]: "loop_data (on_loop f l) = f (loop_data l)"
  by (simp add: loop_data_def on_loop_def)

lemma on_loop_decoder [simp]:
  "ops (fd_pd (on_loop f l)) = ops (fd_pd l)" "fd_state (on_loop f l) = fd_state l"
  "packet (fd_pd (on_loop f l)) = packet (fd_pd l)"
  "frame_decoder_safe (on_loop f l) = frame_decoder_safe l"
  by (simp_all add: on_loop_def frame_decoder_safe_def frame_decoder_inv_def packet_room_def)

section \<open>What the callbacks may do\<close>

definition busy :: "transfer list \<Rightarrow> nat" where
  "busy ts = length (filter (\<lambda>t. t \<noteq> Idle) ts)"

definition in_limit :: "'u loop_data \<Rightarrow> bool" where
  "in_limit d \<longleftrightarrow>
     (if 0 < max_count d
      then 0 \<le> lp_count d \<and> lp_count d \<le> max_count d + 1 \<and>
        (lp_state d = RUNNING \<longrightarrow> lp_count d \<le> max_count d) \<and>
        (lp_state d = COUNT_LIMIT \<longrightarrow> lp_count d = max_count d + 1)
      else lp_state d \<noteq> COUNT_LIMIT)"

text \<open>Whatever counts the calls of the user's callback moves with the count of the loop.\<close>

definition counts_calls :: "'u callback \<Rightarrow> ('u \<Rightarrow> int) \<Rightarrow> bool" where
  "counts_calls f g \<longleftrightarrow> (\<forall>p u u' brk. f p u = Inr (u', brk) \<longrightarrow> g u' = g u + 1)"

definition calls_counted :: "'u loop_data \<Rightarrow> 'u loop_data \<Rightarrow> bool" where
  "calls_counted d d' \<longleftrightarrow> (\<forall>f g. lp_callback d = Some f \<longrightarrow> 0 < max_count d \<longrightarrow> counts_calls f g \<longrightarrow>
     g (lp_user d') - lp_count d' = g (lp_user d) - lp_count d)"

text \<open>The user data moves along every relation that the calls of the user's callback move along.\<close>

definition moves_by :: "'u callback \<Rightarrow> ('u \<Rightarrow> 'u \<Rightarrow> bool) \<Rightarrow> bool" where
  "moves_by f R \<longleftrightarrow> reflp R \<and> transp R \<and> (\<forall>p u u' brk. f p u = Inr (u', brk) \<longrightarrow> R u u')"

definition user_moved :: "'u loop_data \<Rightarrow> 'u loop_data \<Rightarrow> bool" where
  "user_moved d d' \<longleftrightarrow>
     (\<forall>f R. lp_callback d = Some f \<longrightarrow> moves_by f R \<longrightarrow> R (lp_user d) (lp_user d'))"

definition obeys :: "'u loop_data \<Rightarrow> 'u loop_data \<Rightarrow> bool" where
  "obeys d d' \<longleftrightarrow>
     active_transfers d' = active_transfers d \<and> lp_complete d' = lp_complete d \<and>
     max_count d' = max_count d \<and> lp_callback d' = lp_callback d \<and> cha_reg (lp_cha d') = cha_reg (lp_cha d) \<and>
     map (\<lambda>t. t = Idle) (lp_transfer d') = map (\<lambda>t. t = Idle) (lp_transfer d) \<and>
     (lp_state d' = RUNNING \<longrightarrow> lp_state d = RUNNING \<and> lp_transfer d' = lp_transfer d) \<and>
     (lp_state d \<noteq> RUNNING \<longrightarrow> lp_user d' = lp_user d \<and> lp_count d' = lp_count d) \<and>
     (lp_callback d = None \<longrightarrow> lp_user d' = lp_user d) \<and>
     (in_limit d \<longrightarrow> in_limit d') \<and> calls_counted d d' \<and> user_moved d d' \<and>
     (lp_abort d \<noteq> None \<longrightarrow> lp_abort d' = lp_abort d)"

lemma calls_counted_refl: "calls_counted d d"
  by (simp add: calls_counted_def)

lemma calls_counted_same:
  "lp_user d' = lp_user d \<Longrightarrow> lp_count d' = lp_count d \<Longrightarrow> calls_counted d d'"
  by (simp add: calls_counted_def)

lemma calls_counted_trans:
  "calls_counted d e \<Longrightarrow> calls_counted e f \<Longrightarrow> lp_callback e = lp_callback d \<Longrightarrow> max_count e = max_count d \<Longrightarrow>
   calls_counted d f"
  by (simp add: calls_counted_def)

lemma user_moved_same: "lp_user d' = lp_user d \<Longrightarrow> user_moved d d'"
  by (auto simp: user_moved_def moves_by_def intro: reflpD)

lemma user_moved_refl: "user_moved d d"
  by (simp add: user_moved_same)

lemma user_moved_trans:
  "user_moved d e \<Longrightarrow> user_moved e f \<Longrightarrow> lp_callback e = lp_callback d \<Longrightarrow> user_moved d f"
  unfolding user_moved_def moves_by_def by (metis transpD)

lemma obeys_refl: "obeys d d"
  by (simp add: obeys_def calls_counted_refl user_moved_refl)

lemma obeys_trans: "obeys d e \<Longrightarrow> obeys e f \<Longrightarrow> obeys d f"
  using calls_counted_trans [of d e f] user_moved_trans [of d e f]
  by (cases "lp_state d = RUNNING"; cases "lp_state e = RUNNING") (simp_all add: obeys_def)

lemma request_cancel_Idle [simp]: "(request_cancel t = Idle) = (t = Idle)"
  by (simp add: request_cancel_def)

lemma cancel_fields [simp]:
  "lp_transfer (cha_loop_cancel_transfer d) = map request_cancel (lp_transfer d)"
  "lp_state (cha_loop_cancel_transfer d) = lp_state d"
  "active_transfers (cha_loop_cancel_transfer d) = active_transfers d"
  "lp_complete (cha_loop_cancel_transfer d) = lp_complete d"
  "max_count (cha_loop_cancel_transfer d) = max_count d"
  "lp_count (cha_loop_cancel_transfer d) = lp_count d"
  "lp_callback (cha_loop_cancel_transfer d) = lp_callback d"
  "lp_cha (cha_loop_cancel_transfer d) = lp_cha d"
  "lp_user (cha_loop_cancel_transfer d) = lp_user d"
  "lp_abort (cha_loop_cancel_transfer d) = lp_abort d"
  by (simp_all add: cha_loop_cancel_transfer_def)

lemma error_fields [simp]:
  "lp_transfer (loop_error msg d) = lp_transfer d" "lp_state (loop_error msg d) = FATAL_ERROR"
  "active_transfers (loop_error msg d) = active_transfers d" "lp_complete (loop_error msg d) = lp_complete d"
  "max_count (loop_error msg d) = max_count d" "lp_count (loop_error msg d) = lp_count d"
  "lp_callback (loop_error msg d) = lp_callback d" "cha_reg (lp_cha (loop_error msg d)) = cha_reg (lp_cha d)"
  "lp_user (loop_error msg d) = lp_user d" "lp_abort (loop_error msg d) = lp_abort d"
  by (simp_all add: loop_error_def)

text \<open>A packet is one call and, if there is a limit, one count.\<close>

lemma call_user_same:
  "active_transfers (call_user p d) = active_transfers d" "lp_complete (call_user p d) = lp_complete d"
  "max_count (call_user p d) = max_count d" "lp_callback (call_user p d) = lp_callback d"
  "lp_cha (call_user p d) = lp_cha d" "lp_count (call_user p d) = lp_count d"
  "map (\<lambda>t. t = Idle) (lp_transfer (call_user p d)) = map (\<lambda>t. t = Idle) (lp_transfer d)"
  by (auto simp: call_user_def cha_loop_break_def split: option.split sum.split)

lemma call_user_state:
  assumes "lp_state d = RUNNING"
  shows "lp_state (call_user p d) = RUNNING \<or> lp_state (call_user p d) = BREAK_LOOP"
    and "lp_state (call_user p d) = RUNNING \<Longrightarrow> lp_transfer (call_user p d) = lp_transfer d"
    and "lp_abort d = None \<Longrightarrow> lp_abort (call_user p d) \<noteq> None \<Longrightarrow> call_user p d = d\<lparr>lp_abort := lp_abort (call_user p d)\<rparr>"
  using assms by (auto simp: call_user_def cha_loop_break_def split: option.splits sum.splits if_splits)

lemma call_user_counted:
  assumes "lp_callback d = Some f" and "counts_calls f g" and "lp_abort (call_user p d) = None"
  shows "g (lp_user (call_user p d)) = g (lp_user d) + 1"
  using assms
  by (auto simp: call_user_def cha_loop_break_def counts_calls_def split: sum.splits if_splits)

lemma call_user_moved: "lp_abort (call_user p d) = None \<Longrightarrow> user_moved d (call_user p d)"
  by (auto simp: user_moved_def moves_by_def call_user_def cha_loop_break_def split: sum.splits if_splits)

lemma count_packet_same [simp]:
  "active_transfers (count_packet d) = active_transfers d" "lp_complete (count_packet d) = lp_complete d"
  "max_count (count_packet d) = max_count d" "lp_callback (count_packet d) = lp_callback d"
  "lp_cha (count_packet d) = lp_cha d" "lp_transfer (count_packet d) = lp_transfer d"
  "lp_user (count_packet d) = lp_user d" "lp_abort (count_packet d) = lp_abort d"
  "lp_count (count_packet d) = (if 0 < max_count d then lp_count d + 1 else lp_count d)"
  "lp_state (count_packet d) =
     (if 0 < max_count d \<and> max_count d \<le> lp_count d then COUNT_LIMIT else lp_state d)"
  by (simp_all add: count_packet_def)

lemma packet_callback_obeys: "obeys d (cha_loop_packet_callback p d)"
proof (cases "lp_abort d \<noteq> None \<or> lp_state d \<noteq> RUNNING")
  case True
  then show ?thesis
    by (auto simp: cha_loop_packet_callback_def obeys_refl)
next
  case False
  let ?c = "call_user p d"
  have r: "lp_state d = RUNNING" "lp_abort d = None"
    using False by simp_all
  note u = call_user_same [of p d] call_user_state [OF r(1), of p]
  have silent: "lp_callback d = None \<Longrightarrow> ?c = d"
    by (simp add: call_user_def)
  show ?thesis
  proof (cases "lp_abort ?c = None")
    case True
    have fields: "lp_user (cha_loop_packet_callback p d) = lp_user ?c"
      "0 < max_count d \<Longrightarrow> lp_count (cha_loop_packet_callback p d) = lp_count d + 1"
      using True r u by (simp_all add: cha_loop_packet_callback_def Let_def)
    have "calls_counted d (cha_loop_packet_callback p d)"
      unfolding calls_counted_def
    proof (intro allI impI)
      fix f g
      assume "lp_callback d = Some f" "0 < max_count d" "counts_calls f g"
      then show "g (lp_user (cha_loop_packet_callback p d)) - lp_count (cha_loop_packet_callback p d)
          = g (lp_user d) - lp_count d"
        using call_user_counted [OF _ _ True, of f g] fields by simp
    qed
    moreover have "user_moved d (cha_loop_packet_callback p d)"
      using call_user_moved [OF True] fields(1) by (simp add: user_moved_def)
    ultimately show ?thesis
      using True r u silent by (auto simp: obeys_def cha_loop_packet_callback_def Let_def in_limit_def)
  next
    case False
    then have "cha_loop_packet_callback p d = d\<lparr>lp_abort := lp_abort ?c\<rparr>"
      using r u(10) by (simp add: cha_loop_packet_callback_def Let_def)
    then show ?thesis
      using r by (simp add: obeys_def in_limit_def calls_counted_def user_moved_same)
  qed
qed

lemma bus_callback_obeys: "obeys d (cha_loop_bus_frame_callback a v d)"
  by (auto simp: cha_loop_bus_frame_callback_def obeys_def in_limit_def calls_counted_def user_moved_same)

lemma loop_error_obeys: "obeys d (loop_error msg d)"
  by (auto simp: obeys_def in_limit_def calls_counted_def user_moved_same)

interpretation loop_client: decoder_client cha_loop_packet_callback cha_loop_bus_frame_callback obeys
  by unfold_locales
    (auto intro: obeys_refl obeys_trans packet_callback_obeys bus_callback_obeys)

lemma loop_client_ops: "loop_client.client_ops = loop_ops"
  by (simp add: loop_client.client_ops_def loop_ops_def)

lemma frame_proc_obeys:
  assumes "ops (fd_pd l) = loop_ops"
  shows "ops (fd_pd (snd (frame_decoder_proc l buf))) = loop_ops"
    and "obeys (loop_data l) (loop_data (snd (frame_decoder_proc l buf)))"
  using loop_client.frame_proc_user [of l buf "fst (frame_decoder_proc l buf)" "snd (frame_decoder_proc l buf)"]
    assms by (simp_all add: loop_client_ops loop_data_def)

section \<open>One transfer\<close>

text \<open>
  \<open>sound l\<close>: the decoder is the loop's and no callback has aborted.  It does not say that the packet
  storage is large enough; with too little of it a callback of libusb may end in an error value.  With
  \<open>frame_decoder_safe\<close> it cannot, unless a callback of the user aborts.
\<close>

definition sound :: "'u cha_loop \<Rightarrow> bool" where
  "sound l \<longleftrightarrow> ops (fd_pd l) = loop_ops \<and> lp_abort (loop_data l) = None"

lemma frame_proc_safe:
  assumes "frame_decoder_safe l"
  shows "fst (frame_decoder_proc l buf) = Inl Failed \<or>
    fst (frame_decoder_proc l buf) = Inr (length buf)"
    and "frame_decoder_safe (snd (frame_decoder_proc l buf))"
  using frame_decoder_proc_total [OF assms, of buf] frame_decoder_stays_safe [OF assms, of buf]
  by (auto split: prod.splits sum.splits)

lemma transfer_packets_obeys:
  "transfer_packets mps buf l = Some y \<Longrightarrow> sound l \<Longrightarrow>
   obeys (loop_data l) (loop_data (snd y)) \<and>
   (case fst y of
      Inr _ \<Rightarrow> sound (snd y) \<and> (frame_decoder_safe l \<longrightarrow> frame_decoder_safe (snd y))
    | Inl e \<Rightarrow> frame_decoder_safe l \<longrightarrow> lp_abort (loop_data (snd y)) = Some e)"
proof (induction rule: transfer_packets.raw_induct [rotated, consumes 1, case_names step])
  case (step loop mps buf l y)
  let ?n = "min (length buf) mps"
  let ?r = "frame_decoder_proc l (take (?n - 2) (drop 2 buf))"
  let ?l = "snd ?r"
  have l: "ops (fd_pd l) = loop_ops" "lp_abort (loop_data l) = None"
    using step(3) by (simp_all add: sound_def)
  show ?case
  proof (cases "lp_state (loop_data l) = RUNNING \<and> buf \<noteq> [] \<and> 2 < ?n")
    case False
    then show ?thesis
      using step(1) [of mps "drop ?n buf" l y] step(2,3) l
      by (auto simp: obeys_refl Let_def split: if_splits)
  next
    case True
    note after = frame_proc_obeys [OF l(1), of "take (?n - 2) (drop 2 buf)"]
    note safe = frame_proc_safe [of l "take (?n - 2) (drop 2 buf)"]
    show ?thesis
    proof (cases "lp_abort (loop_data ?l)")
      case (Some e)
      then have "y = (Inl e, ?l)"
        using step(2) True by (simp add: Let_def)
      then show ?thesis
        using after(2) Some by simp
    next
      case None
      let ?next = "if fst ?r = Inl Failed then on_loop (loop_error (pd_error_str (fd_pd ?l))) ?l else ?l"
      have next_: "sound ?next" "obeys (loop_data l) (loop_data ?next)"
          "frame_decoder_safe l \<Longrightarrow> frame_decoder_safe ?next"
        using None after obeys_trans [OF after(2) loop_error_obeys] safe(2) by (simp_all add: sound_def)
      show ?thesis
      proof (cases "\<exists>e. fst ?r = Inl e \<and> e \<noteq> Failed")
        case True
        then obtain e where e: "fst ?r = Inl e" "e \<noteq> Failed"
          by blast
        then have "y = (Inl e, ?l)"
          using step(2) None \<open>lp_state (loop_data l) = RUNNING \<and> buf \<noteq> [] \<and> 2 < ?n\<close> by (simp add: Let_def)
        then show ?thesis
          using after(2) safe(1) e by auto
      next
        case False
        then have "loop mps (drop ?n buf) ?next = Some y"
          using step(2) None True by (auto simp: Let_def split: sum.splits)
        then have "obeys (loop_data ?next) (loop_data (snd y)) \<and>
            (case fst y of
               Inr _ \<Rightarrow> sound (snd y) \<and> (frame_decoder_safe ?next \<longrightarrow> frame_decoder_safe (snd y))
             | Inl e \<Rightarrow> frame_decoder_safe ?next \<longrightarrow> lp_abort (loop_data (snd y)) = Some e)"
          using step(1) next_(1) by blast
        then show ?thesis
          using next_(2,3) obeys_trans by (auto split: sum.splits)
      qed
    qed
  qed
qed

lemma transfer_packets_total: "0 < mps \<Longrightarrow> \<exists>y. transfer_packets mps buf l = Some y"
proof (induction buf arbitrary: l rule: measure_induct_rule [of length])
  case (less buf)
  let ?n = "min (length buf) mps"
  have "\<exists>y. transfer_packets mps (drop ?n buf) l' = Some y" if "buf \<noteq> []" for l' :: "'a cha_loop"
    using less that by (intro less.IH) auto
  then show ?case
    by (subst transfer_packets.simps) (auto simp: Let_def split: option.splits sum.splits)
qed

section \<open>The invariant\<close>

lemma busy_cong:
  assumes "map (\<lambda>t. t = Idle) ts = map (\<lambda>t. t = Idle) us"
  shows "busy ts = busy us" and "length ts = length us"
proof -
  have "busy ts = length (filter Not (map (\<lambda>t. t = Idle) ts))" for ts
    by (simp add: busy_def filter_map comp_def)
  then show "busy ts = busy us"
    using assms by metis
  show "length ts = length us"
    using assms by (rule map_eq_imp_length_eq)
qed

lemma busy_idle:
  assumes "i < length ts" and "ts ! i \<noteq> Idle"
  shows "busy ts = Suc (busy (ts[i := Idle]))"
proof -
  have "ts = take i ts @ ts ! i # drop (Suc i) ts"
    using assms(1) by (rule id_take_nth_drop)
  then have "busy ts = busy (take i ts) + Suc (busy (drop (Suc i) ts))"
    using assms(2) by (metis (mono_tags, lifting) busy_def filter.simps(2) filter_append length_Cons length_append)
  moreover have "busy (ts[i := Idle]) = busy (take i ts) + busy (drop (Suc i) ts)"
    using assms(1) by (simp add: upd_conv_take_nth_drop busy_def)
  ultimately show ?thesis
    by simp
qed

lemma busy_cancel [simp]: "busy (map request_cancel ts) = busy ts"
  by (rule busy_cong) simp

text \<open>What every step keeps; \<open>stopped\<close> loops never run again and never call the user.\<close>

definition advances :: "'u loop_data \<Rightarrow> 'u loop_data \<Rightarrow> bool" where
  "advances d d' \<longleftrightarrow> max_count d' = max_count d \<and> lp_callback d' = lp_callback d \<and>
     cha_reg (lp_cha d') = cha_reg (lp_cha d) \<and>
     (lp_state d \<noteq> RUNNING \<longrightarrow> lp_state d' \<noteq> RUNNING \<and> lp_user d' = lp_user d \<and> lp_count d' = lp_count d) \<and>
     (lp_callback d = None \<longrightarrow> lp_user d' = lp_user d) \<and>
     (in_limit d \<longrightarrow> in_limit d') \<and> calls_counted d d' \<and> user_moved d d'"

lemma advances_refl: "advances d d"
  by (simp add: advances_def calls_counted_refl user_moved_refl)

lemma advances_trans: "advances d e \<Longrightarrow> advances e f \<Longrightarrow> advances d f"
  using calls_counted_trans [of d e f] user_moved_trans [of d e f]
  by (cases "lp_state d = RUNNING"; cases "lp_state e = RUNNING") (simp_all add: advances_def)

lemma obeys_advances: "obeys d d' \<Longrightarrow> advances d d'"
  by (auto simp: obeys_def advances_def)

text \<open>A transfer that has been taken out of flight is in flight again or closed.\<close>

definition all_running :: "transfer list \<Rightarrow> bool" where
  "all_running ts \<longleftrightarrow> ts = replicate transfers_count In_flight"

definition settled :: "'u loop_data \<Rightarrow> 'u loop_data \<Rightarrow> bool" where
  "settled d d' \<longleftrightarrow> length (lp_transfer d') = transfers_count \<and> active_transfers d' = busy (lp_transfer d') \<and>
     (if lp_state d' = RUNNING
      then all_running (lp_transfer d') \<and> active_transfers d' = active_transfers d \<and> \<not> lp_complete d'
      else Suc (active_transfers d') = active_transfers d \<and> (lp_complete d' \<longleftrightarrow> active_transfers d' = 0))"

lemma ended_fields [simp]:
  "lp_transfer (transfer_ended d) = lp_transfer d" "lp_state (transfer_ended d) = lp_state d"
  "max_count (transfer_ended d) = max_count d" "lp_count (transfer_ended d) = lp_count d"
  "lp_callback (transfer_ended d) = lp_callback d" "lp_cha (transfer_ended d) = lp_cha d"
  "lp_user (transfer_ended d) = lp_user d" "lp_abort (transfer_ended d) = lp_abort d"
  by (simp_all add: transfer_ended_def Let_def)

lemma ended_settled:
  assumes "active_transfers d = Suc (busy (lp_transfer d))" and "length (lp_transfer d) = transfers_count"
    and "lp_state d \<noteq> RUNNING"
  shows "settled d (transfer_ended d)"
  using assms by (simp add: settled_def transfer_ended_def Let_def)

lemma busy_running: "busy (replicate n In_flight) = n"
  by (simp add: busy_def)

lemma resubmit_settled:
  assumes "resubmit usb i answers d = Some d'" and "i < transfers_count"
    and "active_transfers d = Suc (busy (lp_transfer d))" and "length (lp_transfer d) = transfers_count"
    and "lp_state d = RUNNING \<longrightarrow> all_running ((lp_transfer d)[i := In_flight])" and "\<not> lp_complete d"
    and "lp_transfer d ! i = Idle"
  shows "settled d d' \<and> advances d d' \<and> lp_user d' = lp_user d \<and> lp_abort d' = lp_abort d"
proof (cases "lp_state d = RUNNING")
  case False
  then have d': "d' = transfer_ended (cha_loop_cancel_transfer d)"
    using assms(1) by (simp add: resubmit_def)
  have "settled (cha_loop_cancel_transfer d) d'"
    unfolding d' using assms(3,4) False by (intro ended_settled) simp_all
  then show ?thesis
    unfolding d' using False by (auto simp: settled_def advances_def in_limit_def calls_counted_def user_moved_same)
next
  case True
  then obtain rc where rc: "submit_retry answers = Some rc"
    using assms(1) by (auto simp: resubmit_def split: option.splits)
  show ?thesis
  proof (cases "rc < 0")
    case True
    let ?e = "cha_loop_cancel_transfer (loop_error (Some (error_name usb rc)) d)"
    have d': "d' = transfer_ended ?e"
      using assms(1) rc True \<open>lp_state d = RUNNING\<close> by (simp add: resubmit_def)
    have "settled ?e d'"
      unfolding d' using assms(3,4) by (intro ended_settled) simp_all
    then show ?thesis
      unfolding d' by (auto simp: settled_def advances_def in_limit_def calls_counted_def user_moved_same)
  next
    case False
    then have d': "d' = d\<lparr>lp_transfer := (lp_transfer d)[i := In_flight]\<rparr>"
      using assms(1) rc \<open>lp_state d = RUNNING\<close> by (simp add: resubmit_def)
    have "busy ((lp_transfer d)[i := In_flight]) = Suc (busy (((lp_transfer d)[i := In_flight])[i := Idle]))"
      using assms(2,4) by (intro busy_idle) simp_all
    also have "((lp_transfer d)[i := In_flight])[i := Idle] = lp_transfer d"
      using assms(7) by (metis list_update_id list_update_overwrite)
    finally show ?thesis
      unfolding d' using assms(3-6) True by (auto simp: settled_def advances_def in_limit_def calls_counted_def user_moved_same)
  qed
qed

definition loop_inv :: "'u cha_loop \<Rightarrow> bool" where
  "loop_inv l \<longleftrightarrow> sound l \<and> (let d = loop_data l in
     length (lp_transfer d) = transfers_count \<and> active_transfers d = busy (lp_transfer d) \<and>
     (lp_state d = RUNNING \<longrightarrow> all_running (lp_transfer d)) \<and> (lp_complete d \<longrightarrow> active_transfers d = 0))"

lemma loop_invD:
  assumes "loop_inv l"
  shows "sound l" and "length (lp_transfer (loop_data l)) = transfers_count"
    and "active_transfers (loop_data l) = busy (lp_transfer (loop_data l))"
    and "lp_state (loop_data l) = RUNNING \<Longrightarrow> all_running (lp_transfer (loop_data l))"
    and "lp_complete (loop_data l) \<Longrightarrow> active_transfers (loop_data l) = 0"
  using assms by (simp_all add: loop_inv_def Let_def)

definition take_out :: "nat \<Rightarrow> 'u cha_loop \<Rightarrow> 'u cha_loop" where
  "take_out i = on_loop (\<lambda>d. d\<lparr>lp_transfer := (lp_transfer d)[i := Idle]\<rparr>)"

lemma take_out_safe [simp]: "frame_decoder_safe (take_out i l) = frame_decoder_safe l"
  by (simp add: take_out_def)

lemma take_out_facts:
  assumes "loop_inv l" and "i < length (lp_transfer (loop_data l))" and "lp_transfer (loop_data l) ! i \<noteq> Idle"
  shows "sound (take_out i l)" and "advances (loop_data l) (loop_data (take_out i l))"
    and "active_transfers (loop_data (take_out i l)) = Suc (busy (lp_transfer (loop_data (take_out i l))))"
    and "length (lp_transfer (loop_data (take_out i l))) = transfers_count"
    and "lp_state (loop_data (take_out i l)) = RUNNING \<Longrightarrow>
      all_running ((lp_transfer (loop_data (take_out i l)))[i := In_flight])"
    and "\<not> lp_complete (loop_data (take_out i l))" and "lp_transfer (loop_data (take_out i l)) ! i = Idle"
    and "active_transfers (loop_data (take_out i l)) = active_transfers (loop_data l)"
proof -
  note inv = loop_invD [OF assms(1)]
  note b1 = busy_idle [OF assms(2,3)]
  show "sound (take_out i l)"
    using inv(1) by (simp add: sound_def take_out_def)
  show "advances (loop_data l) (loop_data (take_out i l))"
    by (auto simp: take_out_def advances_def in_limit_def calls_counted_def user_moved_same)
  show "all_running ((lp_transfer (loop_data (take_out i l)))[i := In_flight])"
    if "lp_state (loop_data (take_out i l)) = RUNNING"
    using inv(4) that assms(2) by (auto simp: take_out_def all_running_def list_eq_iff_nth_eq nth_list_update)
  show "\<not> lp_complete (loop_data (take_out i l))"
    using inv(3,5) b1 by (auto simp: take_out_def)
qed (use assms busy_idle [OF assms(2,3)] loop_invD [OF assms(1)] in \<open>simp_all add: take_out_def\<close>)

lemma settled_inv:
  assumes "settled d (loop_data l)" and "sound l"
  shows "loop_inv l"
  using assms by (auto simp: loop_inv_def settled_def Let_def split: if_splits)

lemma settled_same: "active_transfers e = active_transfers d \<Longrightarrow> settled e d' = settled d d'"
  by (simp add: settled_def)

lemma obeys_transfers:
  assumes "obeys d d'" and "i < length (lp_transfer d)"
  shows "length (lp_transfer d') = length (lp_transfer d)" and "busy (lp_transfer d') = busy (lp_transfer d)"
    and "(lp_transfer d' ! i = Idle) = (lp_transfer d ! i = Idle)"
    and "lp_state d' = RUNNING \<Longrightarrow> lp_state d = RUNNING \<and> lp_transfer d' = lp_transfer d"
    and "active_transfers d' = active_transfers d" and "lp_complete d' = lp_complete d"
proof -
  have map: "map (\<lambda>t. t = Idle) (lp_transfer d') = map (\<lambda>t. t = Idle) (lp_transfer d)"
    using assms(1) by (simp add: obeys_def)
  show "length (lp_transfer d') = length (lp_transfer d)" "busy (lp_transfer d') = busy (lp_transfer d)"
    using busy_cong [OF map] by auto
  moreover have "map (\<lambda>t. t = Idle) (lp_transfer d') ! i = map (\<lambda>t. t = Idle) (lp_transfer d) ! i"
    using map by simp
  ultimately show "(lp_transfer d' ! i = Idle) = (lp_transfer d ! i = Idle)"
    using assms(2) by simp
qed (use assms in \<open>auto simp: obeys_def\<close>)

text \<open>
  One callback of libusb: it settles its transfer, keeps the invariant, and cannot abort unless a
  callback of the user does.
\<close>

lemma transfer_callback_settled:
  assumes "loop_inv l" and "i < length (lp_transfer (loop_data l))"
    and "may_end status (lp_transfer (loop_data l) ! i)"
    and "cha_loop_transfer_callback usb i status buf answers l = Some (Inr (), l')"
  shows "settled (loop_data l) (loop_data l') \<and> advances (loop_data l) (loop_data l') \<and> loop_inv l' \<and>
    (frame_decoder_safe l \<longrightarrow> frame_decoder_safe l')"
proof -
  have busy: "lp_transfer (loop_data l) ! i \<noteq> Idle"
    using assms(3) by (auto simp: may_end_def)
  note t = take_out_facts [OF assms(1,2) busy]
  have sound: "sound l' \<and> (\<exists>d. settled d (loop_data l') \<and> active_transfers d = active_transfers (loop_data l)) \<and>
      advances (loop_data (take_out i l)) (loop_data l') \<and> (frame_decoder_safe l \<longrightarrow> frame_decoder_safe l')"
  proof (cases "status = LIBUSB_TRANSFER_COMPLETED")
    case True
    then obtain r1 l1 where tp: "transfer_packets (max_packet_size usb) buf (take_out i l) = Some (r1, l1)"
      using assms(4) by (cases "transfer_packets (max_packet_size usb) buf (take_out i l)")
        (auto simp: cha_loop_transfer_callback_def take_out_def Let_def)
    note tpo = transfer_packets_obeys [OF tp t(1), simplified]
    have r1: "r1 = Inr ()"
      using assms(4) True tp by (cases r1) (auto simp: cha_loop_transfer_callback_def take_out_def Let_def)
    have o: "obeys (loop_data (take_out i l)) (loop_data l1) \<and> sound l1 \<and> (frame_decoder_safe l \<longrightarrow> frame_decoder_safe l1)"
      using tpo r1 by (simp add: take_out_def)
    from r1 obtain d where d: "resubmit usb i answers (loop_data l1) = Some d" "l' = on_loop (\<lambda>_. d) l1"
      using assms(4) True tp
      by (auto simp: cha_loop_transfer_callback_def take_out_def Let_def split: option.splits)
    have len: "i < length (lp_transfer (loop_data (take_out i l)))" "i < transfers_count"
      using assms(2) t(4) loop_invD(2) [OF assms(1)] by simp_all
    note k = obeys_transfers [OF conjunct1 [OF o] len(1)]
    have "settled (loop_data l1) d \<and> advances (loop_data l1) d \<and> lp_user d = lp_user (loop_data l1) \<and>
        lp_abort d = lp_abort (loop_data l1)"
      using t(3-7) k by (intro resubmit_settled [OF d(1) len(2)]) auto
    moreover have "sound l'"
      using o calculation d(2) by (auto simp: sound_def advances_def)
    ultimately show ?thesis
      using d(2) k(5) t(8) obeys_advances [OF conjunct1 [OF o]] advances_trans o by auto
  next
    case False
    have c: "status = LIBUSB_TRANSFER_CANCELLED \<Longrightarrow> lp_state (loop_data (take_out i l)) \<noteq> RUNNING"
      using assms(2,3) loop_invD(2,4) [OF assms(1)]
      by (auto simp: may_end_def take_out_def all_running_def)
    show ?thesis
    proof (cases "status = LIBUSB_TRANSFER_CANCELLED")
      case True
      then have l': "l' = on_loop transfer_ended (take_out i l)"
        using assms(4) by (simp add: cha_loop_transfer_callback_def take_out_def)
      show ?thesis
        using ended_settled [OF t(3,4) c [OF True]] t(1,8) c [OF True]
        by (auto simp: l' sound_def advances_def in_limit_def calls_counted_def user_moved_same)
    next
      case no: False
      let ?e = "loop_error (Some (error_name usb (status_code status))) (loop_data (take_out i l))"
      have l': "l' = on_loop (\<lambda>_. transfer_ended ?e) (take_out i l)"
        using assms(4) False no by (cases status)
          (simp_all add: cha_loop_transfer_callback_def take_out_def on_loop_def loop_data_def)
      have "settled ?e (transfer_ended ?e)"
        using t(3,4) by (intro ended_settled) simp_all
      then show ?thesis
        using t(1,8) by (auto simp: l' sound_def advances_def in_limit_def calls_counted_def user_moved_same)
    qed
  qed
  show ?thesis
    using sound settled_same settled_inv advances_trans t(2) by metis
qed

text \<open>A callback always returns, unless libusb interrupts every submission, and only a user's callback aborts.\<close>

lemma transfer_callback_returns:
  assumes "loop_inv l" and "frame_decoder_safe l" and "0 < max_packet_size usb" and "submit_retry answers \<noteq> None"
  shows "\<exists>r l'. cha_loop_transfer_callback usb i status buf answers l = Some (r, l') \<and>
    (r = Inr () \<or> (\<exists>e. r = Inl e \<and> lp_abort (loop_data l') = Some e))"
proof (cases "status = LIBUSB_TRANSFER_COMPLETED")
  case True
  let ?l = "on_loop (\<lambda>d. d\<lparr>lp_transfer := (lp_transfer d)[i := Idle]\<rparr>) l"
  have "sound ?l"
    using loop_invD(1) [OF assms(1)] by (simp add: sound_def)
  moreover obtain r1 l1 where tp: "transfer_packets (max_packet_size usb) buf ?l = Some (r1, l1)"
    using transfer_packets_total [OF assms(3)] by fastforce
  ultimately have o: "r1 = Inr () \<and> sound l1 \<or> (\<exists>e. r1 = Inl e \<and> lp_abort (loop_data l1) = Some e)"
    using transfer_packets_obeys [OF tp] assms(2) by (auto split: sum.splits)
  have "resubmit usb i answers (loop_data l1) \<noteq> None"
    using assms(4) by (auto simp: resubmit_def Let_def)
  then show ?thesis
    using True tp o by (auto simp: cha_loop_transfer_callback_def Let_def)
next
  case False
  then show ?thesis
    by (cases status) (simp_all add: cha_loop_transfer_callback_def Let_def)
qed

section \<open>Reachable states\<close>

inductive_cases loop_stepE: "loop_step usb l l'"

lemma loop_step_keeps:
  assumes "loop_step usb l l'" and "loop_inv l"
  shows "loop_inv l'" and "advances (loop_data l) (loop_data l')" and "frame_decoder_safe l \<Longrightarrow> frame_decoder_safe l'"
proof -
  have "loop_inv l' \<and> advances (loop_data l) (loop_data l') \<and> (frame_decoder_safe l \<longrightarrow> frame_decoder_safe l')"
    using assms(1)
  proof cases
    case (transfer_step i status buf answers)
    then show ?thesis
      using transfer_callback_settled [OF assms(2)] by blast
  next
    case (events_step rc)
    then show ?thesis
      using assms(2) by (auto simp: loop_inv_def sound_def advances_def in_limit_def calls_counted_def user_moved_same Let_def)
  next
    case break_step
    then show ?thesis
      using assms(2) by (auto simp: loop_inv_def sound_def advances_def in_limit_def calls_counted_def user_moved_same Let_def cha_loop_break_def)
  qed
  then show "loop_inv l'" "advances (loop_data l) (loop_data l')" "frame_decoder_safe l \<Longrightarrow> frame_decoder_safe l'"
    by simp_all
qed

lemma loop_reaches_keeps:
  assumes "loop_reaches usb l l'" and "loop_inv l"
  shows "loop_inv l'" and "advances (loop_data l) (loop_data l')" and "frame_decoder_safe l \<Longrightarrow> frame_decoder_safe l'"
proof -
  have "loop_inv l' \<and> advances (loop_data l) (loop_data l') \<and> (frame_decoder_safe l \<longrightarrow> frame_decoder_safe l')"
    using assms unfolding loop_reaches_def
  proof (induction rule: rtranclp_induct)
    case base
    then show ?case
      by (simp add: advances_refl)
  next
    case (step k m)
    then show ?case
      using loop_step_keeps advances_trans by blast
  qed
  then show "loop_inv l'" "advances (loop_data l) (loop_data l')" "frame_decoder_safe l \<Longrightarrow> frame_decoder_safe l'"
    by simp_all
qed

section \<open>The start\<close>

text \<open>A loop whose transfers exist and are not in flight.\<close>

definition loop_ready :: "'u cha_loop \<Rightarrow> bool" where
  "loop_ready l \<longleftrightarrow> sound l \<and> lp_transfer (loop_data l) = replicate transfers_count Idle"

lemma loop_start_cases:
  fixes d :: "'u loop_data" and usb :: usb and answer :: "nat \<Rightarrow> int"
  assumes "lp_transfer d = replicate transfers_count Idle" and "\<not> lp_complete d"
  defines "d' \<equiv> loop_start usb answer d"
  shows "length (lp_transfer d') = transfers_count" and "active_transfers d' = busy (lp_transfer d')"
    and "lp_state d' = RUNNING \<Longrightarrow> all_running (lp_transfer d') \<and> lp_state d = RUNNING"
    and "\<not> lp_complete d'" and "lp_abort d' = lp_abort d" and "lp_user d' = lp_user d"
    and "advances d d'" and "lp_count d' = lp_count d"
    and "answer 0 < 0 \<Longrightarrow> lp_transfer d' = replicate transfers_count Idle"
    and "0 \<le> answer 0 \<Longrightarrow> active_transfers d' \<noteq> 0"
proof -
  have idle: "lp_transfer d = [Idle, Idle, Idle]"
    using assms(1) by (simp add: transfers_count_def numeral_3_eq_3)
  note defs = d'_def loop_start_def submit_all.simps transfers_count_def all_running_def Let_def
    numeral_3_eq_3 busy_def advances_def in_limit_def calls_counted_def user_moved_same
  show "length (lp_transfer d') = transfers_count" "active_transfers d' = busy (lp_transfer d')"
    "\<not> lp_complete d'" "lp_abort d' = lp_abort d" "lp_user d' = lp_user d" "lp_count d' = lp_count d"
    "advances d d'"
    using idle assms(2) by (auto simp: defs)
  show "all_running (lp_transfer d') \<and> lp_state d = RUNNING" if "lp_state d' = RUNNING"
    using idle that by (auto simp: defs split: if_splits)
  show "lp_transfer d' = replicate transfers_count Idle" if "answer 0 < 0"
    using idle that by (auto simp: defs)
  show "active_transfers d' \<noteq> 0" if "0 \<le> answer 0"
    using idle that by (auto simp: defs)
qed

end
