(* ===== verification/Cha_Loop_Spec.thy ===== *)
theory Cha_Loop_Spec imports
  Cha_Loop_Rules
begin

text \<open>
  Properties of the capture loop: its assertions, its limit, how it ends, and when it does not.
\<close>

unbundle bit_operations_syntax

section \<open>Runs\<close>

definition loop_begun :: "usb \<Rightarrow> (nat \<Rightarrow> int) \<Rightarrow> int \<Rightarrow> 'u cha_loop \<Rightarrow> 'u cha_loop" where
  "loop_begun usb answer cnt l = on_loop (loop_start usb answer) (on_loop (loop_reset cnt) l)"

lemma loop_begun_safe [simp]: "frame_decoder_safe (loop_begun usb answer cnt l) = frame_decoder_safe l"
  by (simp add: loop_begun_def)

lemma loop_begun_facts:
  assumes "loop_ready l"
  shows "loop_inv (loop_begun usb answer cnt l)"
    and "advances (loop_reset cnt (loop_data l)) (loop_data (loop_begun usb answer cnt l))"
    and "lp_user (loop_data (loop_begun usb answer cnt l)) = lp_user (loop_data l)"
    and "lp_count (loop_data (loop_begun usb answer cnt l)) = 0"
    and "answer 0 < 0 \<Longrightarrow> lp_transfer (loop_data (loop_begun usb answer cnt l)) = replicate transfers_count Idle"
    and "\<not> lp_complete (loop_data (loop_begun usb answer cnt l))"
    and "0 \<le> answer 0 \<Longrightarrow> active_transfers (loop_data (loop_begun usb answer cnt l)) \<noteq> 0"
proof -
  let ?d = "loop_reset cnt (loop_data l)"
  have d: "lp_transfer ?d = replicate transfers_count Idle" "\<not> lp_complete ?d" "lp_abort ?d = None"
    "lp_count ?d = 0" "lp_user ?d = lp_user (loop_data l)" "lp_state ?d = lp_state (loop_data l)"
    using assms by (simp_all add: loop_ready_def loop_reset_def sound_def)
  note s = loop_start_cases [OF d(1,2), where usb = usb and answer = answer]
  have data: "loop_data (loop_begun usb answer cnt l) = loop_start usb answer ?d"
    by (simp add: loop_begun_def)
  have "sound (loop_begun usb answer cnt l)"
    using assms s(3,5) d(3,6) by (auto simp: loop_ready_def sound_def loop_begun_def)
  then show "loop_inv (loop_begun usb answer cnt l)"
    using s by (simp add: loop_inv_def data Let_def)
  show "answer 0 < 0 \<Longrightarrow> lp_transfer (loop_data (loop_begun usb answer cnt l)) = replicate transfers_count Idle"
    and "0 \<le> answer 0 \<Longrightarrow> active_transfers (loop_data (loop_begun usb answer cnt l)) \<noteq> 0"
    using s(9,10) by (simp_all add: data)
qed (use loop_start_cases [where d = "loop_reset cnt (loop_data l)" and usb = usb and answer = answer] assms in
     \<open>simp_all add: loop_begun_def loop_ready_def loop_reset_def\<close>)

lemma busy_0: "busy ts = 0 \<Longrightarrow> ts = replicate (length ts) Idle"
  by (induction ts) (auto simp: busy_def split: if_splits)

lemma running_busy: "all_running ts \<Longrightarrow> busy ts \<noteq> 0"
  by (simp add: all_running_def busy_running transfers_count_def)

lemma reaches_here: "loop_reaches usb l l"
  by (simp add: loop_reaches_def)

lemma reaches_step: "loop_reaches usb l k \<Longrightarrow> loop_step usb k m \<Longrightarrow> loop_reaches usb l m"
  unfolding loop_reaches_def by (rule rtranclp.rtrancl_into_rtrancl)

text \<open>How a run ends.\<close>

lemma cha_loop_run_ends:
  assumes "loop_ready l" and "cha_loop_run usb answer cnt l res l'"
  obtains (fatal) "lp_state (loop_data l) = FATAL_ERROR" and "res = Inr (- 1)"
      and "l' = on_loop (loop_reset cnt) l"
  | (loop) "lp_state (loop_data l) \<noteq> FATAL_ERROR" and "res = loop_result (loop_data l')"
      and "loop_reaches usb (loop_begun usb answer cnt l) l'" and "lp_complete (loop_data l')"
      and "loop_inv l'" and "advances (loop_reset cnt (loop_data l)) (loop_data l')"
      and "lp_state (loop_data l') \<noteq> RUNNING" and "active_transfers (loop_data l') = 0"
      and "loop_ready l'" and "frame_decoder_safe l \<Longrightarrow> frame_decoder_safe l'"
  using assms(2)
proof cases
  case run_fatal
  then show ?thesis
    using fatal by simp
next
  case run_loop
  have reach: "loop_reaches usb (loop_begun usb answer cnt l) l'"
    using run_loop by (simp add: loop_begun_def)
  note b = loop_begun_facts(1,2) [OF assms(1), where usb = usb and answer = answer and cnt = cnt]
  note k = loop_reaches_keeps [OF reach b(1)]
  have b0: "busy (lp_transfer (loop_data l')) = 0"
    using loop_invD(3,5) [OF k(1)] run_loop by simp
  then have idle: "lp_transfer (loop_data l') = replicate transfers_count Idle"
      "lp_state (loop_data l') \<noteq> RUNNING" "active_transfers (loop_data l') = 0"
    using busy_0 [of "lp_transfer (loop_data l')"] loop_invD(2,5) [OF k(1)] run_loop
      running_busy [OF loop_invD(4) [OF k(1)]] by (simp, blast, simp)
  then show ?thesis
    using loop run_loop reach k(1,3) advances_trans [OF b(2) k(2)] loop_invD(1) [OF k(1)]
    by (simp add: loop_ready_def)
qed

lemma cha_loop_run_outcome:
  assumes "loop_ready l" and "cha_loop_run usb answer cnt l res l'"
  shows "loop_ready l' \<and> (frame_decoder_safe l \<longrightarrow> frame_decoder_safe l') \<and>
    (res = Inr (lp_count (loop_data l')) \<and> lp_state (loop_data l') = COUNT_LIMIT \<or>
     res \<in> {Inr (- 1), Inr (- 2), Inr (- 4), Inr (- 5)})"
  using assms
proof (rule cha_loop_run_ends)
  assume "lp_state (loop_data l) = FATAL_ERROR" and "res = Inr (- 1)" and "l' = on_loop (loop_reset cnt) l"
  then show ?thesis
    using assms(1) by (simp add: loop_ready_def sound_def loop_reset_def)
next
  assume "res = loop_result (loop_data l')" and "lp_state (loop_data l') \<noteq> RUNNING"
    and "active_transfers (loop_data l') = 0" and "loop_ready l'"
    and "frame_decoder_safe l \<Longrightarrow> frame_decoder_safe l'"
  then show ?thesis
    by (cases "lp_state (loop_data l')") (auto simp: loop_result_def)
qed

text \<open>A run moves the user data along what the callback moves along.\<close>

lemma cha_loop_run_moves:
  assumes "loop_ready l" and "cha_loop_run usb answer cnt l res l'"
    and "lp_callback (loop_data l) = Some f" and "moves_by f R"
  shows "R (lp_user (loop_data l)) (lp_user (loop_data l'))" and "lp_callback (loop_data l') = Some f"
proof -
  have "R (lp_user (loop_data l)) (lp_user (loop_data l')) \<and> lp_callback (loop_data l') = Some f"
    using assms(1,2)
  proof (rule cha_loop_run_ends)
    assume "l' = on_loop (loop_reset cnt) l"
    then show ?thesis
      using assms(3,4) by (simp add: loop_reset_def moves_by_def reflpD)
  next
    assume "advances (loop_reset cnt (loop_data l)) (loop_data l')"
    then show ?thesis
      using assms(3,4) by (auto simp: advances_def user_moved_def loop_reset_def)
  qed
  then show "R (lp_user (loop_data l)) (lp_user (loop_data l'))" "lp_callback (loop_data l') = Some f"
    by simp_all
qed

section \<open>A loop for the examples\<close>

definition example_cha :: cha where
  "example_cha = \<lparr>cha_reg = \<lparr>reg_error = None, addr = \<lambda>_. 0x0C28\<rparr>, cha_error = None\<rparr>"

definition example_packet :: ov_packet where
  "example_packet = \<lparr>pk_magic = 0, pk_flags = 0, pk_size = 0, pk_timestamp = 0, pk_data = replicate 8191 0\<rparr>"

definition example_data :: "cha_loop_state \<Rightarrow> nat loop_data" where
  "example_data st = \<lparr>lp_cha = example_cha, lp_transfer = replicate transfers_count Idle, active_transfers = 0,
     lp_callback = Some (\<lambda>p n. Inr (n + 1, False)), lp_user = 0, lp_count = 0, max_count = 0, lp_state = st,
     lp_complete = False, lp_abort = None\<rparr>"

definition example_loop :: "cha_loop_state \<Rightarrow> nat cha_loop" where
  "example_loop st = \<lparr>fd_pd = packet_decoder_init example_packet 8203 loop_ops (example_data st),
     fd_state = NEED_FRAME_MAGIC, fd_word = 0, bus_value = 0, bus_checksum = 0\<rparr>"

definition example_usb :: usb where
  "example_usb = \<lparr>max_packet_size = 512, error_name = \<lambda>_. ''LIBUSB_ERROR''\<rparr>"

lemma example_loop_data [simp]: "loop_data (example_loop st) = example_data st"
  by (simp add: loop_data_def example_loop_def packet_decoder_init_def)

lemma example_ready: "loop_ready (example_loop st)"
proof -
  have "ops (fd_pd (example_loop st)) = loop_ops"
    by (simp add: example_loop_def packet_decoder_init_def)
  then show ?thesis
    by (auto simp: loop_ready_def sound_def example_data_def)
qed

lemma example_safe: "frame_decoder_safe (example_loop st)"
  using frame_decoder_init_safe [of 8203 example_packet "example_loop st" loop_ops "example_data st"]
  by (simp add: frame_decoder_init_def example_loop_def example_packet_def)

text \<open>A loop is broken by \<open>cha_loop_break\<close>, and then libusb reports the three cancellations.\<close>

definition cancelled :: "nat \<Rightarrow> 'u cha_loop \<Rightarrow> 'u cha_loop" where
  "cancelled i = on_loop (\<lambda>d. transfer_ended (d\<lparr>lp_transfer := (lp_transfer d)[i := Idle]\<rparr>))"

lemma cancelled_step:
  assumes "i < length (lp_transfer (loop_data l))" and "lp_transfer (loop_data l) ! i = Cancelling"
  shows "loop_step usb l (cancelled i l)"
proof (rule loop_step.transfer_step [OF assms(1)])
  show "may_end LIBUSB_TRANSFER_CANCELLED (lp_transfer (loop_data l) ! i)"
    using assms(2) by (simp add: may_end_def)
  show "cha_loop_transfer_callback usb i LIBUSB_TRANSFER_CANCELLED [] [] l = Some (Inr (), cancelled i l)"
    by (simp add: cha_loop_transfer_callback_def cancelled_def on_loop_def)
qed

definition broken :: "'u cha_loop \<Rightarrow> 'u cha_loop" where
  "broken l = cancelled 2 (cancelled 1 (cancelled 0 (on_loop cha_loop_break l)))"

lemma broken_run:
  assumes "map request_cancel (lp_transfer (loop_data l)) = [Cancelling, Cancelling, Cancelling]"
    and "active_transfers (loop_data l) = 3"
  shows "loop_reaches usb l (broken l)" and "lp_complete (loop_data (broken l))"
    and "loop_result (loop_data (broken l)) = Inr (- 2)" and "lp_user (loop_data (broken l)) = lp_user (loop_data l)"
proof -
  obtain l1 where l1: "l1 = on_loop cha_loop_break l"
    by simp
  have t: "lp_transfer (loop_data l1) = [Cancelling, Cancelling, Cancelling]" "active_transfers (loop_data l1) = 3"
    "lp_state (loop_data l1) = BREAK_LOOP" "lp_user (loop_data l1) = lp_user (loop_data l)"
    using assms by (simp_all add: l1 cha_loop_break_def cha_loop_cancel_transfer_def)
  have e: "broken l = cancelled 2 (cancelled 1 (cancelled 0 l1))"
    by (simp add: broken_def l1)
  have s1: "loop_step usb l l1"
    unfolding l1 by (rule loop_step.break_step)
  have s2: "loop_step usb l1 (cancelled 0 l1)"
    by (rule cancelled_step) (simp_all add: t)
  have s3: "loop_step usb (cancelled 0 l1) (cancelled 1 (cancelled 0 l1))"
    by (rule cancelled_step) (simp_all add: t cancelled_def)
  have s4: "loop_step usb (cancelled 1 (cancelled 0 l1)) (broken l)"
    unfolding e by (rule cancelled_step) (simp_all add: t cancelled_def)
  show "loop_reaches usb l (broken l)"
    by (rule reaches_step [OF reaches_step [OF reaches_step [OF reaches_step [OF reaches_here s1] s2] s3] s4])
  show "lp_complete (loop_data (broken l))" "loop_result (loop_data (broken l)) = Inr (- 2)"
    "lp_user (loop_data (broken l)) = lp_user (loop_data l)"
    by (simp_all add: t e cancelled_def transfer_ended_def loop_result_def Let_def)
qed

definition example_end :: "int \<Rightarrow> cha_loop_state \<Rightarrow> nat cha_loop" where
  "example_end cnt st = broken (loop_begun example_usb (\<lambda>_. 0) cnt (example_loop st))"

lemma example_started:
  "lp_transfer (loop_data (loop_begun example_usb (\<lambda>_. 0) cnt (example_loop st))) =
     (if st = RUNNING then [In_flight, In_flight, In_flight] else [Cancelling, Cancelling, Cancelling])"
  "active_transfers (loop_data (loop_begun example_usb (\<lambda>_. 0) cnt (example_loop st))) = 3"
  by (simp_all add: loop_begun_def loop_start_def submit_all.simps transfers_count_def example_data_def
      loop_reset_def request_cancel_def numeral_3_eq_3 Let_def)

lemma example_run:
  assumes "st \<noteq> FATAL_ERROR"
  shows "cha_loop_run example_usb (\<lambda>_. 0) cnt (example_loop st) (Inr (- 2)) (example_end cnt st)"
proof -
  have "map request_cancel (lp_transfer (loop_data (loop_begun example_usb (\<lambda>_. 0) cnt (example_loop st)))) =
      [Cancelling, Cancelling, Cancelling]"
    by (simp add: example_started request_cancel_def)
  note b = broken_run [OF this example_started(2)]
  show ?thesis
    using cha_loop_run.run_loop [of "example_loop st" example_usb "\<lambda>_. 0" cnt "example_end cnt st"] b(1-3) assms
    by (simp add: loop_begun_def example_data_def example_end_def)
qed

section \<open>Properties\<close>

text \<open>
  C9: The assertions of the loop hold.  Whatever libusb reports, in any order, and whenever another
  thread breaks the loop: if \<open>cha_loop_run\<close> returns, no transfer is in flight, its two assertions
  held, it returns the count of a limited run or the negative code of the reason, and it can be run
  again; a decoder that was in its invariant still is, even after a decoding error.
\<close>

theorem cha_loop_run_asserts:
  assumes "loop_ready l" and "cha_loop_run usb answer cnt l res l'"
  shows "loop_ready l' \<and> (frame_decoder_safe l \<longrightarrow> frame_decoder_safe l') \<and>
    (res = Inr (lp_count (loop_data l')) \<and> lp_state (loop_data l') = COUNT_LIMIT \<or>
     res \<in> {Inr (- 1), Inr (- 2), Inr (- 4), Inr (- 5)})"
  using assms cha_loop_run_outcome by blast

theorem cha_loop_run_asserts_witness:
  "loop_ready (example_end 5 RUNNING) \<and> frame_decoder_safe (example_end 5 RUNNING)"
  using cha_loop_run_asserts [OF example_ready example_run, of RUNNING 5] example_safe by simp

text \<open>
  C10: The loop drains.  Once it is stopped, every callback that libusb makes returns, closes its
  transfer and does not call the user, and the last one, that is at the latest the third, sets
  \<open>complete\<close>, which ends \<open>cha_loop_run\<close>.
\<close>

theorem cha_loop_drains:
  assumes "loop_ready l" and "loop_reaches usb (loop_begun usb answer cnt l) k"
    and "lp_state (loop_data k) \<noteq> RUNNING"
    and "i < length (lp_transfer (loop_data k))" and "may_end status (lp_transfer (loop_data k) ! i)"
  shows "\<exists>l'. cha_loop_transfer_callback usb i status buf answers k = Some (Inr (), l') \<and>
    active_transfers (loop_data k) \<le> 3 \<and>
    Suc (active_transfers (loop_data l')) = active_transfers (loop_data k) \<and>
    (lp_complete (loop_data l') \<longleftrightarrow> active_transfers (loop_data l') = 0) \<and>
    lp_state (loop_data l') \<noteq> RUNNING \<and> lp_user (loop_data l') = lp_user (loop_data k)"
proof -
  have inv: "loop_inv k"
    using loop_reaches_keeps(1) [OF assms(2)] loop_begun_facts(1) [OF assms(1)] by blast
  have "active_transfers (loop_data k) \<le> 3"
    using loop_invD(2,3) [OF inv] length_filter_le [of "\<lambda>t. t \<noteq> Idle" "lp_transfer (loop_data k)"]
    by (simp add: busy_def transfers_count_def)
  moreover obtain l' where l': "cha_loop_transfer_callback usb i status buf answers k = Some (Inr (), l')"
  proof (cases "status = LIBUSB_TRANSFER_COMPLETED")
    case True
    then show ?thesis
      using assms(3) that
      by (simp add: cha_loop_transfer_callback_def transfer_packets.simps resubmit_def Let_def)
  next
    case False
    then show ?thesis
      using that by (cases status) (simp_all add: cha_loop_transfer_callback_def Let_def)
  qed
  moreover note transfer_callback_settled [OF inv assms(4,5) l']
  ultimately show ?thesis
    using assms(3) by (auto simp: settled_def advances_def)
qed

theorem cha_loop_drains_witness:
  "\<exists>l'. cha_loop_transfer_callback example_usb 1 LIBUSB_TRANSFER_STALL [] []
       (loop_begun example_usb (\<lambda>_. 0) 0 (example_loop END_OF_STREAM)) = Some (Inr (), l') \<and>
     active_transfers (loop_data l') = 2 \<and> \<not> lp_complete (loop_data l')"
proof -
  let ?k = "loop_begun example_usb (\<lambda>_. 0) 0 (example_loop END_OF_STREAM)"
  have "lp_state (loop_data ?k) \<noteq> RUNNING"
    using loop_begun_facts(2) [OF example_ready, where usb = example_usb and answer = "\<lambda>_. 0" and cnt = 0]
    by (auto simp: advances_def loop_reset_def example_data_def)
  then show ?thesis
    using cha_loop_drains [OF example_ready reaches_here, where i = 1 and status = LIBUSB_TRANSFER_STALL]
      example_started [of 0 END_OF_STREAM] by (fastforce simp: may_end_def)
qed

lemma loop_count_limit:
  assumes "loop_ready l" and "lp_state (loop_data l) = RUNNING" and "0 < cnt"
    and "lp_callback (loop_data l) = Some f" and "counts_calls f g"
    and "cha_loop_run usb answer cnt l res l'"
  shows "g (lp_user (loop_data l')) \<le> g (lp_user (loop_data l)) + cnt + 1 \<and>
    (lp_state (loop_data l') = COUNT_LIMIT \<longrightarrow>
       g (lp_user (loop_data l')) = g (lp_user (loop_data l)) + cnt + 1 \<and> res = Inr (cnt + 1))"
  using assms(1,6)
proof (rule cha_loop_run_ends)
  assume res: "res = loop_result (loop_data l')" and active: "active_transfers (loop_data l') = 0"
    and adv: "advances (loop_reset cnt (loop_data l)) (loop_data l')"
  have "in_limit (loop_reset cnt (loop_data l))"
    using assms(2,3) by (simp add: in_limit_def loop_reset_def)
  then have "in_limit (loop_data l')" "max_count (loop_data l') = cnt"
    using adv by (simp_all add: advances_def) (simp add: loop_reset_def)
  moreover have "g (lp_user (loop_data l')) - lp_count (loop_data l') = g (lp_user (loop_data l))"
    using adv assms(3-5) by (auto simp: advances_def calls_counted_def loop_reset_def)
  ultimately show ?thesis
    using res active assms(3) by (auto simp: in_limit_def loop_result_def)
qed (use assms(2) in simp)

text \<open>
  C36: The limit.  \<open>cha_loop_run(loop, n)\<close> with n > 0 calls the callback at most n + 1 times, and
  exactly n + 1 times, not n, if it ends because of the limit; then it returns n + 1.
\<close>

theorem cha_loop_count_limit:
  assumes "loop_ready l" and "lp_state (loop_data l) = RUNNING" and "0 < cnt"
    and "lp_callback (loop_data l) = Some f" and "counts_calls f g"
    and "cha_loop_run usb answer cnt l res l'"
  shows "g (lp_user (loop_data l')) \<le> g (lp_user (loop_data l)) + cnt + 1 \<and>
    (lp_state (loop_data l') = COUNT_LIMIT \<longrightarrow>
       g (lp_user (loop_data l')) = g (lp_user (loop_data l)) + cnt + 1 \<and> res = Inr (cnt + 1))"
  by (rule loop_count_limit [OF assms])

theorem cha_loop_count_limit_witness:
  "lp_user (loop_data (example_end 5 RUNNING)) \<le> 6"
proof -
  have "counts_calls (\<lambda>p n. Inr (n + 1, False)) int"
    by (simp add: counts_calls_def)
  then have "int (lp_user (loop_data (example_end 5 RUNNING))) \<le> int (lp_user (loop_data (example_loop RUNNING))) + 5 + 1"
    using cha_loop_count_limit [OF example_ready _ _ _ _ example_run, of RUNNING 5 "\<lambda>p n. Inr (n + 1, False)" int]
    by (simp add: example_data_def)
  then show ?thesis
    by (simp add: example_data_def)
qed



text \<open>
  C38: A run whose first submission fails never returns.  No transfer is in flight, so no callback
  will set \<open>complete\<close>, and \<open>cha_loop_run\<close> waits for events for ever, whatever libusb reports.
\<close>

theorem cha_loop_run_hangs:
  assumes "loop_ready l" and "lp_state (loop_data l) \<noteq> FATAL_ERROR" and "answer 0 < 0"
  shows "\<not> cha_loop_run usb answer cnt l res l'"
proof
  assume "cha_loop_run usb answer cnt l res l'"
  with assms(1) show False
  proof (rule cha_loop_run_ends)
    assume reach: "loop_reaches usb (loop_begun usb answer cnt l) l'" and complete: "lp_complete (loop_data l')"
    have "loop_inv l' \<and> active_transfers (loop_data l') = 0 \<and> \<not> lp_complete (loop_data l')"
      using reach unfolding loop_reaches_def
    proof (induction rule: rtranclp_induct)
      case base
      note b = loop_begun_facts [OF assms(1), where usb = usb and answer = answer and cnt = cnt]
      show ?case
        using b(1,6) loop_invD(3) [OF b(1)] b(5) [OF assms(3)] by (simp add: busy_def)
    next
      case (step k m)
      have inv: "loop_inv m"
        using loop_step_keeps(1) step by blast
      show ?case
        using step(2)
      proof cases
        case (transfer_step i status buf answers)
        then show ?thesis
          using transfer_callback_settled [of k i status usb buf answers m] step(3)
          by (auto simp: settled_def split: if_splits)
      qed (use step(3) inv in \<open>simp_all add: cha_loop_break_def\<close>)
    qed
    then show False
      using complete by simp
  qed (use assms(2) in simp)
qed

theorem cha_loop_run_hangs_witness:
  "\<nexists>res l'. cha_loop_run example_usb (\<lambda>_. - 4) 0 (example_loop RUNNING) res l'"
  using cha_loop_run_hangs [OF example_ready, where answer = "\<lambda>_. - 4"] by (simp add: example_data_def)

end
