(* ===== verification/Decoder_Spec.thy ===== *)
theory Decoder_Spec imports
  Frame_Decoder
begin

text \<open>
  What the device sends, and what the decoder must make of it: an encoder for the packet stream
  and for the frames that carry it, the packets a stream stands for, and the round trip.
  Nothing here is code of the repository except the decoder the lemmas are about.
\<close>

unbundle bit_operations_syntax

section \<open>The wire format\<close>

text \<open>
  A packet on the wire: the header bytes, the timestamp delta in 1 to 8 little-endian bytes, the
  data.  Between packets the device may put filler bytes \<open>0xa1\<close>.
\<close>

record wire_packet =
  w_magic :: u8
  w_flags :: u8
  w_size :: u16
  w_delta :: "u8 list"
  w_data :: "u8 list"

datatype wire_item = Filler | Pkt wire_packet

definition wire_captured :: "wire_packet \<Rightarrow> nat" where
  "wire_captured w =
     (if w_flags w AND OV_FLAGS_HF0_TRUNC \<noteq> 0 then OV_MAX_PACKET_SIZE else unat (w_size w))"

definition wire_ok :: "wire_packet \<Rightarrow> bool" where
  "wire_ok w \<longleftrightarrow> w_magic w \<in> {0xa0, 0xa2} \<and> unat (w_size w) < 8192 \<and>
     1 \<le> length (w_delta w) \<and> length (w_delta w) \<le> 8 \<and> length (w_data w) = wire_captured w"

definition encode_packet :: "wire_packet \<Rightarrow> u8 list" where
  "encode_packet w =
     [w_magic w, w_flags w, ucast (w_size w),
      push_bit 5 (of_nat (length (w_delta w) - 1)) OR ucast (drop_bit 8 (w_size w))]
     @ w_delta w @ w_data w"

fun encode_item :: "wire_item \<Rightarrow> u8 list" where
  "encode_item Filler = [0xa1]"
| "encode_item (Pkt w) = encode_packet w"

fun item_ok :: "wire_item \<Rightarrow> bool" where
  "item_ok Filler = True"
| "item_ok (Pkt w) = wire_ok w"

text \<open>The value of a little-endian byte string.\<close>

fun le_value :: "u8 list \<Rightarrow> u64" where
  "le_value [] = 0"
| "le_value (b # bs) = ucast b OR push_bit 8 (le_value bs)"

section \<open>What the decoder must do\<close>

text \<open>The packet the callback sees, in the storage \<open>d\<close>, and the decoder after it.\<close>

definition decoded :: "wire_packet \<Rightarrow> u64 \<Rightarrow> u8 list \<Rightarrow> ov_packet" where
  "decoded w cum d =
     \<lparr>pk_magic = w_magic w, pk_flags = w_flags w, pk_size = w_size w,
      pk_timestamp = cum + le_value (w_delta w),
      pk_data = w_data w @ drop (length (w_data w)) d\<rparr>"

definition ready :: "wire_packet \<Rightarrow> 'u packet_decoder \<Rightarrow> 'u packet_decoder" where
  "ready w pd = pd\<lparr>packet := decoded w (cumulative_ts pd) (pk_data (packet pd)),
     cumulative_ts := cumulative_ts pd + le_value (w_delta w),
     ts_byte := length (w_delta w), ts_length := length (w_delta w),
     buf_actual_length := wire_captured w, pd_state := NEED_PACKET_DATA\<rparr>"

fun deliver :: "wire_item \<Rightarrow> 'u packet_decoder \<Rightarrow> 'u packet_decoder" where
  "deliver Filler pd = pd"
| "deliver (Pkt w) pd = packet_finish (ready w pd)"

section \<open>Bytes of the header\<close>

lemma header_length_bits:
  fixes t hi :: u8
  assumes "take_bit 3 t = t" and "take_bit 5 hi = hi"
  shows "drop_bit 5 ((push_bit 5 t OR hi) AND 0xe0) = t"
    and "(push_bit 5 t OR hi) AND 0x1f = hi"
proof -
  have m: "(0xe0 :: u8) = push_bit 5 (mask 3)" "(0x1f :: u8) = mask 5"
    by (simp_all add: mask_eq_exp_minus_1)
  have t: "bit t n \<Longrightarrow> n < 3" for n
    using assms(1) by (metis bit_take_bit_iff)
  have hi: "bit hi n \<Longrightarrow> n < 5" for n
    using assms(2) by (metis bit_take_bit_iff)
  show "drop_bit 5 ((push_bit 5 t OR hi) AND 0xe0) = t"
    unfolding m by (intro bit_word_eqI) (auto simp: bit_simps dest: t hi)
  show "(push_bit 5 t OR hi) AND 0x1f = hi"
    unfolding m by (intro bit_word_eqI) (auto simp: bit_simps dest: t hi)
qed

lemma size_bytes:
  fixes sz :: u16
  shows "push_bit 8 (ucast (ucast (drop_bit 8 sz) :: u8)) OR ucast (ucast sz :: u8) = sz"
  by (rule bit_word_eqI) (auto simp: bit_simps)

lemma size_hi_bits:
  fixes sz :: u16
  assumes "unat sz < 8192"
  shows "take_bit 5 (ucast (drop_bit 8 sz) :: u8) = ucast (drop_bit 8 sz)"
proof -
  have "take_bit 13 sz = sz"
    using assms by (intro take_bit_unat_less) simp
  then have sz: "bit sz n \<Longrightarrow> n < 13" for n
    by (metis bit_take_bit_iff)
  show ?thesis
    by (intro bit_word_eqI) (auto simp: bit_simps dest: sz)
qed

lemma tslen_bits:
  assumes "n \<le> 7"
  shows "take_bit 3 (of_nat n :: u8) = of_nat n" and "unat (of_nat n :: u8) = n"
proof -
  show n: "unat (of_nat n :: u8) = n"
    using assms by (simp add: unat_of_nat)
  show "take_bit 3 (of_nat n :: u8) = of_nat n"
    using assms n by (intro take_bit_unat_less) simp
qed

section \<open>Decoding one packet\<close>

text \<open>The decoder after the four header bytes of \<open>w\<close>.\<close>

definition after_header :: "wire_packet \<Rightarrow> 'u packet_decoder \<Rightarrow> 'u packet_decoder" where
  "after_header w pd = pd\<lparr>packet := (packet pd)\<lparr>pk_magic := w_magic w, pk_flags := w_flags w,
       pk_size := w_size w, pk_timestamp := 0\<rparr>,
     ts_length := length (w_delta w), ts_byte := 0, pd_state := NEED_PACKET_TIMESTAMP\<rparr>"

definition after_four :: "u8 \<Rightarrow> u8 \<Rightarrow> u8 \<Rightarrow> u8 \<Rightarrow> 'u packet_decoder \<Rightarrow> 'u packet_decoder" where
  "after_four m f l h pd = pd\<lparr>packet := (packet pd)\<lparr>pk_magic := m, pk_flags := f,
       pk_size := push_bit 8 (ucast (h AND 0x1f)) OR ucast l, pk_timestamp := 0\<rparr>,
     ts_length := unat (drop_bit 5 (h AND 0xe0)) + 1, ts_byte := 0,
     pd_state := NEED_PACKET_TIMESTAMP\<rparr>"

lemma packet_bytes_four:
  assumes "pd_state pd = NEED_PACKET_MAGIC" and "packet_decoder_inv pd" and "m \<in> {0xa0, 0xa2}"
  shows "packet_bytes pd [m, f, l, h] = (Inr (), after_four m f l h pd)"
    and "packet_decoder_loop pd ([m, f, l, h] @ rest)
      = packet_decoder_loop (after_four m f l h pd) rest"
  using assms
  by (auto simp: packet_byte_header packet_decoder_step.simps
      packet_decoder_inv_def after_four_def)

lemma packet_bytes_header:
  assumes ok: "wire_ok w" and st: "pd_state pd = NEED_PACKET_MAGIC" and inv: "packet_decoder_inv pd"
  shows "packet_bytes pd (take 4 (encode_packet w)) = (Inr (), after_header w pd)"
    and "packet_decoder_loop pd (take 4 (encode_packet w) @ rest)
      = packet_decoder_loop (after_header w pd) rest"
proof -
  let ?t = "of_nat (length (w_delta w) - 1) :: u8" and ?hi = "ucast (drop_bit 8 (w_size w)) :: u8"
  have "length (w_delta w) - 1 \<le> 7" and sz: "unat (w_size w) < 8192"
    and pos: "1 \<le> length (w_delta w)"
    using ok by (auto simp: wire_ok_def)
  note t = tslen_bits [OF this(1)] and hi = size_hi_bits [OF sz]
  have "unat ?t + 1 = length (w_delta w)"
    using t(2) pos by linarith
  then have "unat (drop_bit 5 ((push_bit 5 ?t OR ?hi) AND 0xe0)) + 1 = length (w_delta w)"
    and "(push_bit 5 ?t OR ?hi) AND 0x1f = ?hi"
    by (simp_all only: header_length_bits [OF t(1) hi])
  moreover have "w_magic w \<in> {0xa0, 0xa2}"
    using ok by (simp add: wire_ok_def)
  moreover have "take 4 (encode_packet w) = [w_magic w, w_flags w, ucast (w_size w), push_bit 5 ?t OR ?hi]"
    by (simp add: encode_packet_def)
  ultimately show "packet_bytes pd (take 4 (encode_packet w)) = (Inr (), after_header w pd)"
    and "packet_decoder_loop pd (take 4 (encode_packet w) @ rest)
      = packet_decoder_loop (after_header w pd) rest"
    by (simp_all only: packet_bytes_four [OF st inv] after_header_def after_four_def size_bytes)
qed

text \<open>The timestamp bytes accumulate, each at its own position.\<close>

definition after_timestamp :: "u8 list \<Rightarrow> 'u packet_decoder \<Rightarrow> 'u packet_decoder" where
  "after_timestamp bs pd =
    (let ts = pk_timestamp (packet pd) OR push_bit (8 * ts_byte pd) (le_value bs)
     in pd\<lparr>ts_byte := ts_length pd, cumulative_ts := cumulative_ts pd + ts,
           packet := (packet pd)\<lparr>pk_timestamp := cumulative_ts pd + ts\<rparr>,
           pd_state := NEED_PACKET_DATA\<rparr>)"

lemma packet_bytes_timestamp:
  assumes "pd_state pd = NEED_PACKET_TIMESTAMP" and "bs \<noteq> []"
    and "ts_byte pd + length bs = ts_length pd"
  shows "packet_bytes pd bs = (Inr (), after_timestamp bs pd) \<and>
    packet_decoder_loop pd (bs @ rest) = packet_decoder_loop (after_timestamp bs pd) rest"
  using assms
proof (induction bs arbitrary: pd)
  case (Cons b bs)
  let ?ts = "pk_timestamp (packet pd) OR push_bit (8 * ts_byte pd) (ucast b)"
  let ?pd1 = "pd\<lparr>ts_byte := ts_byte pd + 1, packet := (packet pd)\<lparr>pk_timestamp := ?ts\<rparr>\<rparr>"
  have st: "pd_state pd \<noteq> NEED_PACKET_DATA"
    using Cons.prems(1) by simp
  show ?case
  proof (cases "bs = []")
    case True
    then have "packet_byte pd b = (Inr (), after_timestamp [b] pd)"
      using Cons.prems by (simp add: packet_byte_header packet_decoder_step.simps Let_def
          after_timestamp_def)
    then show ?thesis
      using True packet_decoder_loop_header [OF st] by simp
  next
    case False
    have "\<not> ts_length pd \<le> ts_byte pd + 1"
      using Cons.prems(3) False by (cases bs) auto
    then have byte: "packet_byte pd b = (Inr (), ?pd1)"
      using Cons.prems(1) by (simp add: packet_byte_header packet_decoder_step.simps Let_def)
    have "?ts OR push_bit (8 * (ts_byte pd + 1)) (le_value bs)
        = pk_timestamp (packet pd) OR push_bit (8 * ts_byte pd) (le_value (b # bs))"
      by (simp add: push_bit_or or.assoc ac_simps)
    then have "after_timestamp bs ?pd1 = after_timestamp (b # bs) pd"
      by (simp add: after_timestamp_def Let_def)
    moreover have "packet_bytes ?pd1 bs = (Inr (), after_timestamp bs ?pd1) \<and>
      packet_decoder_loop ?pd1 (bs @ rest) = packet_decoder_loop (after_timestamp bs ?pd1) rest"
      using Cons.prems False by (intro Cons.IH) auto
    ultimately show ?thesis
      using byte packet_decoder_loop_header [OF st byte] by simp
  qed
qed simp

text \<open>The decoder that has read all of \<open>w\<close> but its data.\<close>

definition before_data :: "wire_packet \<Rightarrow> 'u packet_decoder \<Rightarrow> 'u packet_decoder" where
  "before_data w pd = ready w pd\<lparr>buf_actual_length := 0,
     packet := (packet (ready w pd))\<lparr>pk_data := pk_data (packet pd)\<rparr>\<rparr>"

lemma before_data_captured [simp]:
  "ov_packet_captured_size (packet (before_data w pd)) = wire_captured w"
  "ov_packet_captured_size (packet (ready w pd)) = wire_captured w"
  by (simp_all add: before_data_def ov_packet_captured_size_def wire_captured_def ready_def
      decoded_def)

lemma before_data_fields [simp]:
  "pd_state (before_data w pd) = NEED_PACKET_DATA" "buf_actual_length (before_data w pd) = 0"
  "pk_data (packet (before_data w pd)) = pk_data (packet pd)"
  "pd_state (ready w pd) = NEED_PACKET_DATA" "buf_actual_length (ready w pd) = wire_captured w"
  by (simp_all add: before_data_def ready_def)

lemma packet_decoder_front:
  assumes ok: "wire_ok w" and st: "pd_state pd = NEED_PACKET_MAGIC" and inv: "packet_decoder_inv pd"
  shows "packet_bytes pd (encode_packet w) = packet_bytes (before_data w pd) (w_data w)"
    and "packet_decoder_loop pd (encode_packet w @ rest)
      = packet_decoder_loop (before_data w pd) (w_data w @ rest)"
proof -
  have enc: "encode_packet w = take 4 (encode_packet w) @ w_delta w @ w_data w"
    by (simp add: encode_packet_def)
  have "buf_actual_length pd = 0"
    using inv st by (simp add: packet_decoder_inv_def)
  then have "after_timestamp (w_delta w) (after_header w pd) = before_data w pd"
    using ok by (cases pd; cases "packet pd")
      (auto simp: wire_ok_def after_header_def after_timestamp_def before_data_def ready_def
        decoded_def Let_def)
  moreover have "pd_state (after_header w pd) = NEED_PACKET_TIMESTAMP" "w_delta w \<noteq> []"
    "ts_byte (after_header w pd) + length (w_delta w) = ts_length (after_header w pd)"
    using ok by (auto simp: after_header_def wire_ok_def)
  note ts = packet_bytes_timestamp [OF this]
  ultimately show "packet_bytes pd (encode_packet w) = packet_bytes (before_data w pd) (w_data w)"
    by (subst enc) (simp add: run_bytes_append packet_bytes_header [OF ok st inv])
  show "packet_decoder_loop pd (encode_packet w @ rest)
      = packet_decoder_loop (before_data w pd) (w_data w @ rest)"
    using ts \<open>after_timestamp _ _ = _\<close>
    by (subst enc) (simp only: append.assoc packet_bytes_header [OF ok st inv])
qed

lemma ready_data:
  "length (w_data w) = wire_captured w \<Longrightarrow>
   (before_data w pd)\<lparr>packet := (packet (before_data w pd))\<lparr>pk_data :=
     w_data w @ drop (wire_captured w) (pk_data (packet pd))\<rparr>,
     buf_actual_length := wire_captured w\<rparr> = ready w pd"
  by (simp add: before_data_def ready_def decoded_def)

lemma packet_bytes_encode:
  assumes ok: "wire_ok w" and st: "pd_state pd = NEED_PACKET_MAGIC" and inv: "packet_decoder_inv pd"
    and room: "wire_captured w \<le> length (pk_data (packet pd))"
  shows "\<exists>pd'. packet_bytes pd (encode_packet w) = (Inr (), pd') \<and>
           packet_flush pd' = packet_finish (ready w pd)"
proof -
  note bytes = packet_decoder_front(1) [OF ok st inv]
  have len: "length (w_data w) = wire_captured w"
    using ok by (simp add: wire_ok_def)
  have flush: "packet_flush (ready w pd) = packet_finish (ready w pd)"
    by (simp add: packet_flush_def)
  show ?thesis
  proof (cases "w_data w = []")
    case True
    then have "before_data w pd = ready w pd"
      using len by (simp add: before_data_def ready_def decoded_def)
    then show ?thesis
      using bytes True flush by simp
  next
    case False
    have "packet_bytes (before_data w pd) (w_data w) = (Inr (), packet_flush
        ((before_data w pd)\<lparr>packet := (packet (before_data w pd))\<lparr>pk_data :=
          w_data w @ drop (length (w_data w)) (pk_data (packet pd))\<rparr>,
          buf_actual_length := buf_actual_length (before_data w pd) + length (w_data w)\<rparr>))"
      using False len room by (intro packet_bytes_chunk) (auto simp: memcpy_at_def)
    then show ?thesis
      using bytes flush len by (simp add: ready_data)
  qed
qed

text \<open>
  The function itself: given the whole packet, it returns exactly its length, delivered; given a
  packet that does not fit into the storage, it writes past it.
\<close>

lemma packet_decoder_loop_data:
  assumes len: "length (w_data w) = wire_captured w" and ne: "w_data w @ rest \<noteq> []"
    and room: "wire_captured w \<le> length (pk_data (packet pd))"
  shows "packet_decoder_loop (before_data w pd) (w_data w @ rest)
    = (Inr rest, packet_finish (ready w pd))"
proof -
  obtain b bs where buf: "w_data w @ rest = b # bs"
    using ne by (cases "w_data w @ rest") auto
  have le: "wire_captured w \<le> Suc (length bs)"
    using arg_cong [OF buf, of length] len by simp
  have take: "take (wire_captured w) (b # bs) = w_data w" "drop (wire_captured w) (b # bs) = rest"
    by (simp_all add: len flip: buf)
  have "packet_decoder_step (before_data w pd) b bs = (Leave rest, packet_finish (ready w pd))"
    using room ready_data [OF len, of pd]
    by (simp add: packet_decoder_step.simps memcpy_at_def le take len packet_finish_def Let_def)
  then show ?thesis
    using buf by simp
qed

lemma packet_decoder_loop_overflow:
  assumes len: "length (w_data w) = wire_captured w"
    and small: "length (pk_data (packet pd)) < wire_captured w"
  shows "packet_decoder_loop (before_data w pd) (w_data w @ rest)
    = (Inl (Out_of_bounds ''packet->data''), before_data w pd)"
proof -
  obtain b bs where buf: "w_data w @ rest = b # bs"
    using len small by (cases "w_data w @ rest") auto
  have le: "wire_captured w \<le> Suc (length bs)"
    using arg_cong [OF buf, of length] len by simp
  have take: "take (wire_captured w) (b # bs) = w_data w"
    by (simp add: len flip: buf)
  have "packet_decoder_step (before_data w pd) b bs
      = (Raise (Out_of_bounds ''packet->data''), before_data w pd)"
    using small
    by (simp add: packet_decoder_step.simps memcpy_at_def le take len Let_def)
  then show ?thesis
    using buf by simp
qed

section \<open>Decoding a stream of packets\<close>

text \<open>
  Between two packets; a packet without data may still wait for its delivery.
\<close>

definition at_boundary :: "'u packet_decoder \<Rightarrow> bool" where
  "at_boundary pd \<longleftrightarrow> packet_decoder_inv pd \<and> pd_state (packet_flush pd) = NEED_PACKET_MAGIC"

fun item_fits :: "nat \<Rightarrow> wire_item \<Rightarrow> bool" where
  "item_fits n Filler = True"
| "item_fits n (Pkt w) = (wire_captured w \<le> n)"

lemma encode_item_nonempty [simp]: "encode_item i \<noteq> []"
  by (cases i) (simp_all add: encode_packet_def)

lemma packet_flush_data_length [simp]:
  "packet (packet_flush pd) = packet pd" "buf_length (packet_flush pd) = buf_length pd"
  "ops (packet_flush pd) = ops pd" "cumulative_ts (packet_flush pd) = cumulative_ts pd"
  by (simp_all add: packet_flush_def)

lemma packet_bytes_item:
  assumes "at_boundary pd" and "item_ok i" and "item_fits (length (pk_data (packet pd))) i"
  shows "\<exists>pd'. packet_bytes pd (encode_item i) = (Inr (), pd') \<and>
           packet_flush pd' = deliver i (packet_flush pd)"
proof -
  let ?pd = "packet_flush pd"
  have pd: "packet_decoder_inv ?pd" "pd_state ?pd = NEED_PACKET_MAGIC"
    using assms(1) packet_flush_inv by (auto simp: at_boundary_def)
  have "packet_bytes pd (encode_item i) = packet_bytes ?pd (encode_item i)"
    by (rule packet_bytes_flush [symmetric]) simp
  moreover have "\<exists>pd'. packet_bytes ?pd (encode_item i) = (Inr (), pd') \<and>
           packet_flush pd' = deliver i ?pd"
  proof (cases i)
    case Filler
    then show ?thesis
      using pd by (simp add: packet_byte_def packet_decoder_step.simps packet_decoder_inv_def)
  next
    case (Pkt w)
    then show ?thesis
      using assms pd packet_bytes_encode [of w ?pd] by simp
  qed
  ultimately show ?thesis
    by simp
qed

lemma deliver_boundary:
  assumes "0 < buf_length pd" and "pd_state pd = NEED_PACKET_MAGIC"
  shows "0 < buf_length (deliver i pd)" and "pd_state (deliver i pd) = NEED_PACKET_MAGIC"
  using assms by (cases i; simp add: ready_def)+

lemma deliver_data_length:
  "item_ok i \<Longrightarrow> item_fits (length (pk_data (packet pd))) i \<Longrightarrow>
   length (pk_data (packet (deliver i pd))) = length (pk_data (packet pd))"
  by (cases i) (auto simp: ready_def decoded_def wire_ok_def)

lemma deliver_ops [simp]: "ops (deliver i pd) = ops pd"
  by (cases i) (simp_all add: ready_def)

lemma packet_bytes_items:
  assumes "at_boundary pd" and "list_all item_ok items"
    and "list_all (item_fits (length (pk_data (packet pd)))) items"
  shows "\<exists>pd'. packet_bytes pd (concat (map encode_item items)) = (Inr (), pd') \<and>
           packet_flush pd' = fold deliver items (packet_flush pd)"
  using assms
proof (induction items arbitrary: pd)
  case (Cons i items)
  then obtain pd1 where one: "packet_bytes pd (encode_item i) = (Inr (), pd1)"
    "packet_flush pd1 = deliver i (packet_flush pd)"
    using packet_bytes_item by fastforce
  have "packet_decoder_inv pd1"
    using packet_bytes_inv [OF _ one(1)] Cons.prems(1) by (simp add: at_boundary_def)
  moreover have "pd_state (packet_flush pd1) = NEED_PACKET_MAGIC"
    using one(2) Cons.prems(1) deliver_boundary(2) [of "packet_flush pd" i]
    by (simp add: at_boundary_def packet_decoder_inv_def)
  ultimately have "at_boundary pd1"
    by (simp add: at_boundary_def)
  moreover have "length (pk_data (packet pd1)) = length (pk_data (packet pd))"
    using deliver_data_length [of i "packet_flush pd"] Cons.prems(2,3)
      arg_cong [OF one(2), of packet] by simp
  ultimately obtain pd' where "packet_bytes pd1 (concat (map encode_item items)) = (Inr (), pd')"
    "packet_flush pd' = fold deliver items (packet_flush pd1)"
    using Cons.IH [of pd1] Cons.prems by auto
  then show ?case
    using one by (simp add: run_bytes_append)
qed simp

section \<open>Frames around the stream\<close>

datatype wire_frame = Sdram "u8 list" | Bus u16 u8 u8

fun frame_ok :: "wire_frame \<Rightarrow> bool" where
  "frame_ok (Sdram p) = (even (length p) \<and> 2 \<le> length p \<and> length p \<le> 512)"
| "frame_ok (Bus a v c) = True"

fun encode_frame :: "wire_frame \<Rightarrow> u8 list" where
  "encode_frame (Sdram p) = 0xd0 # of_nat (length p div 2 - 1) # p"
| "encode_frame (Bus a v c) = [0x55, ucast (drop_bit 8 a), ucast a, v, c]"

fun frame_payload :: "wire_frame \<Rightarrow> u8 list" where
  "frame_payload (Sdram p) = p"
| "frame_payload (Bus a v c) = []"

fun bus_access :: "wire_frame \<Rightarrow> (u16 \<times> u8) list" where
  "bus_access (Sdram p) = []"
| "bus_access (Bus a v c) = [(a, v)]"

lemma frame_bytes_Sdram:
  assumes ok: "frame_ok (Sdram p)" and st: "fd_state fd = NEED_FRAME_MAGIC"
    and run: "packet_bytes (fd_pd fd) p = (Inr (), pd')"
  shows "\<exists>fd'. frame_bytes fd (encode_frame (Sdram p)) = (Inr (), fd') \<and>
           fd_state fd' = NEED_FRAME_MAGIC \<and> fd_pd fd' = pd'"
proof -
  let ?l = "of_nat (length p div 2 - 1) :: u8"
  let ?fd = "fd\<lparr>fd_word := (ucast ?l + 1) * 2, fd_state := NEED_SDRAM_FRAME_DATA\<rparr>"
  have "length p div 2 - 1 < 256" and even: "2 * (length p div 2 - 1 + 1) = length p"
    using ok by auto
  then have "unat ?l = length p div 2 - 1"
    by (intro unat_of_nat_u8)
  then have "unat ((ucast ?l + 1) * 2 :: u16) = length p"
    using sdram_length [of ?l] even by (simp only:)
  then have w: "unat (fd_word ?fd) = length p"
    by (simp del: of_nat_diff)
  then have wl: "fd_word ?fd - of_nat (length p) = 0"
    by (rule word_minus_unat)
  have "frame_bytes ?fd p = (Inr (), sdram_used ?fd (length p) pd')"
  proof -
    have "0 < length p"
      using ok by auto
    then have "0 < unat (fd_word ?fd)" and "length p \<le> unat (fd_word ?fd)"
      by (simp_all only: w)
    then show ?thesis
      using frame_bytes_sdram [of ?fd p "Inr ()" pd'] run by (simp only: sum.case) simp
  qed
  moreover have "frame_bytes fd (encode_frame (Sdram p)) = frame_bytes ?fd p"
    using st by (simp add: frame_byte_def frame_decoder_step.simps)
  ultimately show ?thesis
    using wl by (simp add: sdram_used_def)
qed

lemma bus_addr_bytes:
  fixes a :: u16
  shows "push_bit 8 (ucast (ucast (drop_bit 8 a) :: u8)) OR ucast (ucast a :: u8) = a"
  by (rule size_bytes)

lemma frame_bytes_Bus:
  assumes "fd_state fd = NEED_FRAME_MAGIC"
  shows "\<exists>fd'. frame_bytes fd (encode_frame (Bus a v c)) = (Inr (), fd') \<and>
           fd_state fd' = NEED_FRAME_MAGIC \<and>
           fd_pd fd' = (case ops_bus_frame (ops (fd_pd fd)) of None \<Rightarrow> fd_pd fd
              | Some f \<Rightarrow> (fd_pd fd)\<lparr>user_data := f a v (user_data (fd_pd fd))\<rparr>)"
  using assms
  by (simp add: frame_byte_def frame_decoder_step.simps bus_addr_bytes call_bus_frame_def
      split: option.split)

section \<open>The round trip\<close>

text \<open>
  What a recording client sees of a packet: the header fields and the captured data.  The
  recorder keeps the packets and the bus accesses in two lists.
\<close>

type_synonym packet_view = "u8 \<times> u8 \<times> u16 \<times> u64 \<times> u8 list"
type_synonym recording = "packet_view list \<times> (u16 \<times> u8) list"

definition packet_view :: "ov_packet \<Rightarrow> packet_view" where
  "packet_view p = (pk_magic p, pk_flags p, pk_size p, pk_timestamp p,
     take (ov_packet_captured_size p) (pk_data p))"

definition recorder :: "recording decoder_ops" where
  "recorder = \<lparr>ops_packet = Some (\<lambda>p (ps, bs). (ps @ [packet_view p], bs)),
               ops_bus_frame = Some (\<lambda>a v (ps, bs). (ps, bs @ [(a, v)]))\<rparr>"

text \<open>The packets a stream of items stands for: timestamps are the running sums of the deltas.\<close>

fun item_views :: "u64 \<Rightarrow> wire_item list \<Rightarrow> packet_view list" where
  "item_views cum [] = []"
| "item_views cum (Filler # is) = item_views cum is"
| "item_views cum (Pkt w # is) =
     (w_magic w, w_flags w, w_size w, cum + le_value (w_delta w), w_data w)
     # item_views (cum + le_value (w_delta w)) is"

lemma deliver_recorder:
  assumes "ops pd = recorder" and "list_all item_ok items"
  shows "user_data (fold deliver items pd) =
    (fst (user_data pd) @ item_views (cumulative_ts pd) items, snd (user_data pd))"
  using assms
proof (induction items arbitrary: pd)
  case (Cons i items)
  show ?case
  proof (cases i)
    case Filler
    then show ?thesis
      using Cons by simp
  next
    case (Pkt w)
    have "ov_packet_captured_size (packet (ready w pd)) = length (w_data w)"
      using Cons.prems Pkt by (simp add: ready_def decoded_def ov_packet_captured_size_def
          wire_ok_def wire_captured_def)
    then have "packet_view (packet (ready w pd)) = (w_magic w, w_flags w, w_size w,
        cumulative_ts pd + le_value (w_delta w), w_data w)"
      by (simp add: packet_view_def ready_def decoded_def)
    moreover have "ops (ready w pd) = recorder" "user_data (ready w pd) = user_data pd"
      "cumulative_ts (ready w pd) = cumulative_ts pd + le_value (w_delta w)"
      using Cons.prems by (simp_all add: ready_def)
    ultimately show ?thesis
      using Pkt Cons.prems Cons.IH [of "packet_finish (ready w pd)"]
      by (cases "user_data pd") (simp add: packet_finish_def call_packet_def recorder_def)
  qed
qed simp

text \<open>The packet decoder never looks at the bus list.\<close>

definition set_bus :: "(u16 \<times> u8) list \<Rightarrow> recording packet_decoder \<Rightarrow> recording packet_decoder"
  where "set_bus l pd = pd\<lparr>user_data := (fst (user_data pd), l)\<rparr>"

lemma set_bus_simps [simp]:
  "packet (set_bus l pd) = packet pd" "ops (set_bus l pd) = ops pd"
  "pd_state (set_bus l pd) = pd_state pd" "buf_actual_length (set_bus l pd) = buf_actual_length pd"
  "buf_length (set_bus l pd) = buf_length pd" "set_bus l (set_bus k pd) = set_bus l pd"
  "user_data (set_bus l pd) = (fst (user_data pd), l)"
  by (simp_all add: set_bus_def)

lemma packet_flush_set_bus:
  "ops pd = recorder \<Longrightarrow> packet_flush (set_bus l pd) = set_bus l (packet_flush pd)"
  by (cases "user_data pd")
     (simp add: packet_flush_def packet_finish_def call_packet_def recorder_def set_bus_def)

lemma packet_byte_set_bus:
  assumes "ops pd = recorder"
  shows "packet_byte (set_bus l pd) b = map_prod id (set_bus l) (packet_byte pd b)"
    and "packet_byte pd b = (r, pd') \<Longrightarrow> ops pd' = recorder"
proof -
  let ?pd = "packet_flush pd"
  have store: "packet_store (set_bus l ?pd) b = map_prod id (set_bus l) (packet_store ?pd b)"
  proof (cases "buf_actual_length ?pd < length (pk_data (packet ?pd))")
    case True
    let ?pd1 = "?pd\<lparr>packet := (packet ?pd)\<lparr>pk_data := (pk_data (packet ?pd))[buf_actual_length ?pd := b]\<rparr>,
        buf_actual_length := buf_actual_length ?pd + 1\<rparr>"
    have "packet_flush (set_bus l ?pd1) = set_bus l (packet_flush ?pd1)"
      using assms by (intro packet_flush_set_bus) simp
    moreover have "set_bus l ?pd1 = (set_bus l ?pd)\<lparr>packet := (packet ?pd)\<lparr>pk_data :=
        (pk_data (packet ?pd))[buf_actual_length ?pd := b]\<rparr>,
        buf_actual_length := buf_actual_length ?pd + 1\<rparr>"
      by (simp add: set_bus_def)
    ultimately show ?thesis
      using True by (simp add: packet_store_def Let_def)
  qed (simp add: packet_store_def)
  have step: "packet_decoder_step (set_bus l ?pd) b [] = map_prod id (set_bus l) (packet_decoder_step ?pd b [])"
    if "pd_state ?pd \<noteq> NEED_PACKET_DATA"
    using that by (cases "pd_state ?pd") (simp_all add: packet_decoder_step.simps set_bus_def Let_def)
  show "packet_byte (set_bus l pd) b = map_prod id (set_bus l) (packet_byte pd b)"
    using store step assms
    by (auto simp: packet_byte_def packet_flush_set_bus Let_def split: prod.splits iter.splits)
  show "ops pd' = recorder" if "packet_byte pd b = (r, pd')"
    using that assms
    by (cases "pd_state ?pd")
       (auto simp: packet_byte_def packet_store_def packet_decoder_step.simps Let_def split: if_splits)
qed

lemma packet_bytes_set_bus:
  assumes "ops pd = recorder"
  shows "packet_bytes (set_bus l pd) xs = map_prod id (set_bus l) (packet_bytes pd xs)"
  using assms
proof (induction xs arbitrary: pd)
  case (Cons b xs)
  obtain r pd1 where one: "packet_byte pd b = (r, pd1)"
    by fastforce
  then show ?case
    using Cons.IH packet_byte_set_bus(1) [OF Cons.prems, of l b]
      packet_byte_set_bus(2) [OF Cons.prems one] by (cases r) simp_all
qed simp

lemma set_bus_same [simp]: "set_bus (snd (user_data pd)) pd = pd"
  by (cases pd) (simp add: set_bus_def)

lemma packet_bytes_recorder:
  assumes "ops pd = recorder" and "packet_bytes pd xs = (r, pd')"
  shows "ops pd' = recorder" and "snd (user_data pd') = snd (user_data pd)"
proof -
  show "ops pd' = recorder"
    using run_bytes_inv [of "\<lambda>pd. ops pd = recorder" packet_byte] packet_byte_set_bus(2) assms
    by blast
  have "pd' = set_bus (snd (user_data pd)) pd'"
    using packet_bytes_set_bus [OF assms(1), of "snd (user_data pd)" xs] assms(2) by simp
  then show "snd (user_data pd') = snd (user_data pd)"
    by (metis set_bus_simps(7) snd_conv)
qed

lemma frame_bytes_frames:
  assumes "list_all frame_ok fs" and "fd_state fd = NEED_FRAME_MAGIC"
    and "ops (fd_pd fd) = recorder"
    and "packet_bytes (fd_pd fd) (concat (map frame_payload fs)) = (Inr (), pd')"
  shows "\<exists>fd'. frame_bytes fd (concat (map encode_frame fs)) = (Inr (), fd') \<and>
           fd_state fd' = NEED_FRAME_MAGIC \<and>
           fd_pd fd' = set_bus (snd (user_data (fd_pd fd)) @ concat (map bus_access fs)) pd'"
  using assms
proof (induction fs arbitrary: fd pd')
  case (Cons f fs)
  show ?case
  proof (cases f)
    case (Sdram p)
    then obtain pd1 where p: "packet_bytes (fd_pd fd) p = (Inr (), pd1)"
      and rest: "packet_bytes pd1 (concat (map frame_payload fs)) = (Inr (), pd')"
      using Cons.prems(4) by (auto simp: run_bytes_append split: prod.splits sum.splits)
    obtain fd1 where fd1: "frame_bytes fd (encode_frame (Sdram p)) = (Inr (), fd1)"
      "fd_state fd1 = NEED_FRAME_MAGIC" "fd_pd fd1 = pd1"
      using frame_bytes_Sdram [OF _ Cons.prems(2) p] Cons.prems(1) Sdram by auto
    have "ops pd1 = recorder" and "snd (user_data pd1) = snd (user_data (fd_pd fd))"
      using packet_bytes_recorder [OF Cons.prems(3) p] by auto
    then show ?thesis
      using Cons.IH [of fd1 pd'] Cons.prems(1) fd1 rest Sdram
      by (auto simp: run_bytes_append simp del: encode_frame.simps)
  next
    case (Bus a v c)
    let ?pd1 = "set_bus (snd (user_data (fd_pd fd)) @ [(a, v)]) (fd_pd fd)"
    obtain fd1 where fd1: "frame_bytes fd (encode_frame (Bus a v c)) = (Inr (), fd1)"
      "fd_state fd1 = NEED_FRAME_MAGIC" "fd_pd fd1 = ?pd1"
      using frame_bytes_Bus [OF Cons.prems(2), of a v c] Cons.prems(3)
      by (cases "user_data (fd_pd fd)") (auto simp: recorder_def set_bus_def)
    have "packet_bytes ?pd1 (concat (map frame_payload fs))
        = (Inr (), set_bus (snd (user_data (fd_pd fd)) @ [(a, v)]) pd')"
      using packet_bytes_set_bus [OF Cons.prems(3)] Cons.prems(4) Bus by simp
    then show ?thesis
      using Cons.IH [of fd1] Cons.prems(1,3) fd1 Bus
      by (auto simp: run_bytes_append simp del: encode_frame.simps)
  qed
qed (auto intro!: exI)

lemma recorder_stream:
  assumes items: "list_all item_ok items" "list_all (item_fits (length (pk_data p))) items"
    and frames: "list_all frame_ok fs"
    and payload: "concat (map frame_payload fs) = concat (map encode_item items)"
    and sz: "0 < sz"
  shows "\<exists>fd'. frame_bytes (frame_decoder_init fd p sz recorder ([], []))
             (concat (map encode_frame fs)) = (Inr (), fd') \<and>
           fd_state fd' = NEED_FRAME_MAGIC \<and>
           user_data (packet_flush (fd_pd fd')) = (item_views 0 items, concat (map bus_access fs))"
proof -
  let ?fd = "frame_decoder_init fd p sz recorder ([], [])"
  have init: "fd_state ?fd = NEED_FRAME_MAGIC" "ops (fd_pd ?fd) = recorder"
    "user_data (fd_pd ?fd) = ([], [])" "packet (fd_pd ?fd) = p" "cumulative_ts (fd_pd ?fd) = 0"
    "packet_flush (fd_pd ?fd) = fd_pd ?fd"
    by (simp_all add: frame_decoder_init_def packet_decoder_init_def packet_flush_def)
  have "at_boundary (fd_pd ?fd)"
    using sz by (simp add: at_boundary_def frame_decoder_init_def packet_decoder_init_inv)
      (simp add: packet_flush_def packet_decoder_init_def)
  then obtain pd' where pd': "packet_bytes (fd_pd ?fd) (concat (map encode_item items)) = (Inr (), pd')"
    "packet_flush pd' = fold deliver items (fd_pd ?fd)"
    using packet_bytes_items [of "fd_pd ?fd" items] items init by auto
  obtain fd' where fd': "frame_bytes ?fd (concat (map encode_frame fs)) = (Inr (), fd')"
    "fd_state fd' = NEED_FRAME_MAGIC" "fd_pd fd' = set_bus (concat (map bus_access fs)) pd'"
    using frame_bytes_frames [OF frames init(1,2), of pd'] pd'(1) payload init(3) by auto
  have "ops pd' = recorder"
    using packet_bytes_recorder(1) [OF init(2) pd'(1)] .
  then have "user_data (packet_flush (fd_pd fd'))
      = (fst (user_data (packet_flush pd')), concat (map bus_access fs))"
    using fd'(3) by (simp add: packet_flush_set_bus)
  also have "fst (user_data (packet_flush pd')) = item_views 0 items"
    using pd'(2) deliver_recorder [OF init(2) items(1)] init by simp
  finally show ?thesis
    using fd' by blast
qed

section \<open>Properties\<close>

text \<open>A decoder over \<open>n\<close> bytes of zeroed packet storage, for the concrete instances.\<close>

definition zero_packet :: "nat \<Rightarrow> ov_packet" where
  "zero_packet n = \<lparr>pk_magic = 0, pk_flags = 0, pk_size = 0, pk_timestamp = 0,
                    pk_data = replicate n 0\<rparr>"

definition zero_decoder :: "nat \<Rightarrow> recording packet_decoder" where
  "zero_decoder n = packet_decoder_init (zero_packet n) (ov_packet_header_size + n) recorder ([], [])"

definition zero_frame_decoder :: "recording frame_decoder" where
  "zero_frame_decoder = \<lparr>fd_pd = zero_decoder 0, fd_state = NEED_FRAME_MAGIC, fd_word = 0,
                         bus_value = 0, bus_checksum = 0\<rparr>"

definition test_decoder :: "nat \<Rightarrow> recording frame_decoder" where
  "test_decoder n = frame_decoder_init zero_frame_decoder (zero_packet n)
     (ov_packet_header_size + n) recorder ([], [])"

lemma test_decoder_safe: "8191 \<le> n \<Longrightarrow> frame_decoder_safe (test_decoder n)"
  unfolding test_decoder_def
  by (rule frame_decoder_init_safe) (simp_all add: ov_packet_header_size_def zero_packet_def)

definition test_packet :: wire_packet where
  "test_packet = \<lparr>w_magic = 0xa0, w_flags = 0, w_size = 3, w_delta = [0xac, 0x6c, 0xa5],
                  w_data = [0x69, 0x83, 0xe0]\<rparr>"

definition truncated_packet :: wire_packet where
  "truncated_packet = \<lparr>w_magic = 0xa0, w_flags = OV_FLAGS_HF0_TRUNC, w_size = 1028,
     w_delta = [0], w_data = replicate 1027 0\<rparr>"

lemma test_packet_ok: "wire_ok test_packet"
  by (simp add: wire_ok_def test_packet_def wire_captured_def)

lemma truncated_packet_ok: "wire_ok truncated_packet"
  by (simp add: wire_ok_def truncated_packet_def wire_captured_def OV_FLAGS_HF0_TRUNC_def
      OV_MAX_PACKET_SIZE_def)

lemma zero_decoder_ready:
  "packet_decoder_inv (zero_decoder n)" "pd_state (zero_decoder n) = NEED_PACKET_MAGIC"
  "length (pk_data (packet (zero_decoder n))) = n"
  unfolding zero_decoder_def
  by (rule packet_decoder_init_inv)
     (simp_all add: ov_packet_header_size_def packet_decoder_init_def zero_packet_def)

text \<open>
  C7: Round trip.  Packets (with fillers between them) are encoded, the byte stream is cut into
  SDRAM frames in any way, bus frames are put anywhere between those, and the transport cuts the
  result into chunks in any way: the frame decoder accepts every chunk, and its callbacks have
  seen exactly these packets, in order, with the header fields, the captured data and the running
  sum of the timestamp deltas, and exactly these bus accesses.  (A last packet without data is
  delivered by the flush, that is when the next packet byte comes.)
\<close>

theorem decoder_stream_roundtrip:
  assumes "list_all item_ok items" and "list_all frame_ok fs"
    and "concat (map frame_payload fs) = concat (map encode_item items)"
    and "concat cs = concat (map encode_frame fs)"
    and "8191 \<le> length (pk_data p)" and "0 < sz"
  shows "\<exists>fd'. feed_chunks frame_decoder_loop (frame_decoder_init fd p sz recorder ([], [])) cs
             = (Inr (), fd') \<and>
           fd_state fd' = NEED_FRAME_MAGIC \<and>
           user_data (packet_flush (fd_pd fd')) = (item_views 0 items, concat (map bus_access fs))"
proof -
  let ?fd = "frame_decoder_init fd p sz recorder ([], [])"
  have safe: "frame_decoder_safe ?fd"
    using assms(5,6) by (intro frame_decoder_init_safe)
  have "item_fits (length (pk_data p)) i" if "item_ok i" for i
    using that assms(5) by (cases i) (auto simp: wire_ok_def wire_captured_def OV_MAX_PACKET_SIZE_def)
  then have "list_all (item_fits (length (pk_data p))) items"
    using assms(1) by (simp add: list_all_iff)
  then obtain fd' where fd': "frame_bytes ?fd (concat cs) = (Inr (), fd')"
    "fd_state fd' = NEED_FRAME_MAGIC"
    "user_data (packet_flush (fd_pd fd')) = (item_views 0 items, concat (map bus_access fs))"
    using recorder_stream [OF assms(1) _ assms(2,3,6)] assms(4) by metis
  have "agree fd_pd (feed_chunks frame_decoder_loop ?fd cs) (frame_bytes ?fd (concat cs))"
    using safe fd'(1) by (intro frame_stream.chunks_refine) (auto simp: frame_decoder_safe_def)
  then show ?thesis
    using fd' by (simp add: agree_Inr)
qed

theorem decoder_stream_roundtrip_witness:
  "\<exists>fd'. feed_chunks frame_decoder_loop (test_decoder 8191)
       [[0x55, 0x8c], [0x28, 0, 9, 0xd0, 4, 0xa0, 0, 3], [0x40, 0xac, 0x6c, 0xa5, 0x69, 0x83, 0xe0]]
       = (Inr (), fd') \<and>
     fd_state fd' = NEED_FRAME_MAGIC \<and>
     user_data (packet_flush (fd_pd fd'))
       = ([(0xa0, 0, 3, 0xa56cac, [0x69, 0x83, 0xe0])], [(0x8c28, 0)])"
proof -
  let ?p = "[0xa0, 0, 3, 0x40, 0xac, 0x6c, 0xa5, 0x69, 0x83, 0xe0] :: u8 list"
  have views: "item_views 0 [Pkt test_packet] = [(0xa0, 0, 3, 0xa56cac, [0x69, 0x83, 0xe0])]"
    by (simp add: test_packet_def)
  have "list_all item_ok [Pkt test_packet]" "list_all frame_ok [Bus 0x8c28 0 9, Sdram ?p]"
    using test_packet_ok by simp_all
  moreover have "concat (map frame_payload [Bus 0x8c28 0 9, Sdram ?p])
      = concat (map encode_item [Pkt test_packet])"
    by (simp add: encode_packet_def test_packet_def)
  moreover have "concat [[0x55, 0x8c], [0x28, 0, 9, 0xd0, 4, 0xa0, 0, 3],
      [0x40, 0xac, 0x6c, 0xa5, 0x69, 0x83, 0xe0]] = concat (map encode_frame [Bus 0x8c28 0 9, Sdram ?p])"
    by simp
  moreover have "8191 \<le> length (pk_data (zero_packet 8191))" "0 < ov_packet_header_size + 8191"
    by (simp_all add: zero_packet_def)
  ultimately show ?thesis
    using decoder_stream_roundtrip [of "[Pkt test_packet]" "[Bus 0x8c28 0 9, Sdram ?p]"
        "[[0x55, 0x8c], [0x28, 0, 9, 0xd0, 4, 0xa0, 0, 3],
          [0x40, 0xac, 0x6c, 0xa5, 0x69, 0x83, 0xe0]]" "zero_packet 8191"
        "ov_packet_header_size + 8191" zero_frame_decoder] views
    by (simp only: test_decoder_def) simp
qed

text \<open>
  C12: Independence of chunks.  From any state the decoder can be in, with storage for any packet,
  two ways of cutting the same byte stream into chunks lead to the same result: the same return
  value, the same packets delivered and the same packet decoder, and after a success the same
  frame decoder.
\<close>

theorem decoder_chunk_independence:
  assumes "frame_decoder_safe fd" and "concat cs = concat ds"
  shows "agree fd_pd (feed_chunks frame_decoder_loop fd cs) (feed_chunks frame_decoder_loop fd ds)"
  using assms frame_bytes_safe(2) [OF assms(1)]
  by (intro frame_stream.chunk_independence) (auto simp: frame_decoder_safe_def)

theorem decoder_chunk_independence_witness:
  "agree fd_pd (feed_chunks frame_decoder_loop (test_decoder 8191) [[0xd0, 0], [0xa0, 8]])
               (feed_chunks frame_decoder_loop (test_decoder 8191) [[0xd0], [], [0, 0xa0, 8]])"
  by (rule decoder_chunk_independence [OF test_decoder_safe]) simp_all

text \<open>
  C13: The loop with its buffers, early returns and partial copies is the machine that takes one
  byte at a time: same result and same packet decoder on every input and, when the input is
  accepted, the same frame decoder.
\<close>

theorem frame_decoder_refines_bytes:
  assumes "frame_decoder_safe fd"
  shows "agree fd_pd (frame_decoder_loop fd buf) (frame_bytes fd buf)"
  using assms frame_bytes_safe(2) [OF assms]
  by (intro frame_decoder_loop_refines) (auto simp: frame_decoder_safe_def)

theorem frame_decoder_refines_bytes_witness:
  "agree fd_pd (frame_decoder_loop (test_decoder 8191) [0xd0, 0, 0xa0, 1])
               (frame_bytes (test_decoder 8191) [0xd0, 0, 0xa0, 1])"
  by (rule frame_decoder_refines_bytes [OF test_decoder_safe]) simp

text \<open>
  C11: With storage for any packet, \<open>frame_decoder_proc\<close> never fails an assertion and never
  writes outside the packet: on every input, garbage included, it returns -1 or the size of the
  buffer, and in the second case the decoder is ready for the next buffer.
\<close>

theorem frame_decoder_proc_safe:
  assumes "frame_decoder_safe fd"
  shows "case frame_decoder_proc fd buf of
           (Inl e, fd') \<Rightarrow> e = Failed
         | (Inr n, fd') \<Rightarrow> n = length buf \<and> frame_decoder_safe fd'"
  using assms by (rule frame_decoder_proc_total)

theorem frame_decoder_proc_safe_witness:
  "case frame_decoder_proc (test_decoder 8191) [0xd0, 0x00, 0x17, 0xa0] of
     (Inl e, fd') \<Rightarrow> e = Failed
   | (Inr n, fd') \<Rightarrow> n = length [0xd0 :: u8, 0x00, 0x17, 0xa0] \<and> frame_decoder_safe fd'"
  by (rule frame_decoder_proc_safe [OF test_decoder_safe]) simp

text \<open>
  C17: \<open>packet_decoder_proc\<close> takes one packet per call: given a packet and whatever follows it, it
  returns the length of the packet, with the packet delivered to the callback, and leaves the
  rest of the buffer to its caller.
\<close>

theorem packet_decoder_proc_one_packet:
  assumes "wire_ok w" and "pd_state pd = NEED_PACKET_MAGIC" and "packet_decoder_inv pd"
    and "wire_captured w \<le> length (pk_data (packet pd))" and "w_data w @ rest \<noteq> []"
  shows "packet_decoder_proc pd (encode_packet w @ rest)
    = (Inr (length (encode_packet w)), packet_finish (ready w pd))"
proof -
  have "length (w_data w) = wire_captured w"
    using assms(1) by (simp add: wire_ok_def)
  then have "packet_decoder_loop pd (encode_packet w @ rest) = (Inr rest, packet_finish (ready w pd))"
    using packet_decoder_front(2) [OF assms(1,2,3)] packet_decoder_loop_data [OF _ assms(5,4)]
    by simp
  then show ?thesis
    by (simp add: packet_decoder_proc_def)
qed

theorem packet_decoder_proc_one_packet_witness:
  "packet_decoder_proc (zero_decoder 1027) (encode_packet test_packet @ [0xa0])
    = (Inr 10, packet_finish (ready test_packet (zero_decoder 1027)))"
proof -
  have "wire_captured test_packet \<le> 1027"
    by (simp add: wire_captured_def test_packet_def)
  moreover have "length (encode_packet test_packet) = 10"
    by (simp add: encode_packet_def test_packet_def)
  ultimately show ?thesis
    using packet_decoder_proc_one_packet [OF test_packet_ok zero_decoder_ready(2,1),
        of 1027 "[0xa0]"] by (simp only: zero_decoder_ready) simp
qed

text \<open>
  C18: The buffer length given to \<open>packet_decoder_init\<close> is not looked at: a packet with more
  captured data than the caller's storage is written past the end of it, whatever \<open>buf_length\<close>
  says.  (The witness is the storage of 1024 - 12 bytes that the two tools pass, and a truncated
  packet.)
\<close>

theorem packet_decoder_overflow:
  assumes "wire_ok w" and "pd_state pd = NEED_PACKET_MAGIC" and "packet_decoder_inv pd"
    and "length (pk_data (packet pd)) < wire_captured w"
  shows "fst (packet_decoder_proc pd (encode_packet w @ rest))
    = Inl (Out_of_bounds ''packet->data'')"
proof -
  have "length (w_data w) = wire_captured w"
    using assms(1) by (simp add: wire_ok_def)
  then show ?thesis
    using packet_decoder_front(2) [OF assms(1,2,3)] packet_decoder_loop_overflow [OF _ assms(4)]
    by (simp add: packet_decoder_proc_def)
qed

theorem packet_decoder_overflow_witness:
  "buf_length (zero_decoder 1012) = 1024 \<and>
   fst (packet_decoder_proc (zero_decoder 1012) (encode_packet truncated_packet @ []))
     = Inl (Out_of_bounds ''packet->data'')"
proof
  show "buf_length (zero_decoder 1012) = 1024"
    by (simp add: zero_decoder_def packet_decoder_init_def ov_packet_header_size_def)
  have "1012 < wire_captured truncated_packet"
    by (simp add: wire_captured_def truncated_packet_def OV_FLAGS_HF0_TRUNC_def
        OV_MAX_PACKET_SIZE_def)
  then show "fst (packet_decoder_proc (zero_decoder 1012) (encode_packet truncated_packet @ []))
     = Inl (Out_of_bounds ''packet->data'')"
    by (intro packet_decoder_overflow [OF truncated_packet_ok zero_decoder_ready(2,1)])
       (simp only: zero_decoder_ready)
qed

end
