(* ===== verification/Pcap.thy ===== *)
theory Pcap imports
  Packet
begin

text \<open>
  The output side of \<open>tools/ovextcap/main.c\<close>: files that may break at any write, pcap headers and
  records, and the queue of records whose fate the filter has not decided yet.
\<close>

unbundle bit_operations_syntax

section \<open>Files\<close>

text \<open>
  A \<open>FILE*\<close>: \<open>f_open\<close> is "not NULL", \<open>f_content\<close> what was handed to it.  Whether a call of
  \<open>fwrite\<close> or \<open>fflush\<close> succeeds is up to the environment; the two functions say it, given what
  was written before.
\<close>

record ofile =
  f_open :: bool
  f_content :: "u8 list"
  f_fwrite_ok :: "u8 list \<Rightarrow> u8 list \<Rightarrow> bool"
  f_fflush_ok :: "u8 list \<Rightarrow> bool"

definition close_file :: "ofile \<Rightarrow> ofile" where
  "close_file f = f\<lparr>f_open := False\<rparr>"

text \<open>
  \<open>fwrite(ptr, size, 1, file)\<close> returns 0 for \<open>size = 0\<close>, so writing nothing counts as a failure.
\<close>

definition write_data :: "u8 list \<Rightarrow> ofile \<Rightarrow> ofile" where
  "write_data bs f =
     (if f_open f
      then if bs \<noteq> [] \<and> f_fwrite_ok f (f_content f) bs
           then f\<lparr>f_content := f_content f @ bs\<rparr>
           else close_file f
      else f)"

definition flush_data :: "ofile \<Rightarrow> ofile" where
  "flush_data f = (if f_open f \<and> \<not> f_fflush_ok f (f_content f) then close_file f else f)"

text \<open>The bytes of an integer in memory; the host is little-endian.\<close>

definition u16_bytes :: "u16 \<Rightarrow> u8 list" where
  "u16_bytes w = [ucast w, ucast (drop_bit 8 w)]"

definition u32_bytes :: "u32 \<Rightarrow> u8 list" where
  "u32_bytes w = [ucast w, ucast (drop_bit 8 w), ucast (drop_bit 16 w), ucast (drop_bit 24 w)]"

definition write_uint16 :: "u16 \<Rightarrow> ofile \<Rightarrow> ofile" where
  "write_uint16 w f = write_data (u16_bytes w) f"

definition write_uint32 :: "u32 \<Rightarrow> ofile \<Rightarrow> ofile" where
  "write_uint32 w f = write_data (u32_bytes w) f"

definition PCAP_NANOSEC_MAGIC :: u32 where "PCAP_NANOSEC_MAGIC = 0xa1b23c4d"

definition LINKTYPE_USBLL :: u32 where "LINKTYPE_USBLL = 288"
definition LINKTYPE_USBLL_LOW_SPEED :: u32 where "LINKTYPE_USBLL_LOW_SPEED = 293"
definition LINKTYPE_USBLL_FULL_SPEED :: u32 where "LINKTYPE_USBLL_FULL_SPEED = 294"
definition LINKTYPE_USBLL_HIGH_SPEED :: u32 where "LINKTYPE_USBLL_HIGH_SPEED = 295"

definition write_pcap_header :: "u32 \<Rightarrow> ofile \<Rightarrow> ofile" where
  "write_pcap_header linktype f =
     (let f1 = write_uint32 PCAP_NANOSEC_MAGIC f;
          f2 = write_uint16 2 f1;
          f3 = write_uint16 4 f2;
          f4 = write_uint32 0 f3;
          f5 = write_uint32 0 f4;
          f6 = write_uint32 65535 f5;
          f7 = write_uint32 linktype f6
      in flush_data f7)"

section \<open>Records\<close>

text \<open>
  \<open>struct pcap_packet\<close>; \<open>captured\<close> points to the packet data, of which the first \<open>incl_len\<close>
  bytes are used.
\<close>

record pcap_packet =
  ts_sec :: u32
  ts_nsec :: u32
  incl_len :: u32
  orig_len :: u32
  captured :: "u8 list"

definition captured_bytes :: "pcap_packet \<Rightarrow> u8 list" where
  "captured_bytes p = take (unat (incl_len p)) (captured p)"

definition write_packet :: "pcap_packet \<Rightarrow> ofile \<Rightarrow> ofile" where
  "write_packet p f =
     (let f1 = write_uint32 (ts_sec p) f;
          f2 = write_uint32 (ts_nsec p) f1;
          f3 = write_uint32 (incl_len p) f2;
          f4 = write_uint32 (orig_len p) f3;
          f5 = write_data (captured_bytes p) f4
      in flush_data f5)"

text \<open>The heap buffer that \<open>queue_packet\<close> fills: the four header words, then the data.\<close>

definition packet_record :: "pcap_packet \<Rightarrow> u8 list" where
  "packet_record p = u32_bytes (ts_sec p) @ u32_bytes (ts_nsec p) @ u32_bytes (incl_len p)
     @ u32_bytes (orig_len p) @ captured_bytes p"

section \<open>A file that does not break\<close>

definition reliable :: "ofile \<Rightarrow> bool" where
  "reliable f \<longleftrightarrow> f_open f \<and> (\<forall>c bs. f_fwrite_ok f c bs) \<and> (\<forall>c. f_fflush_ok f c)"

named_theorems pcap_simps \<open>writing to a file that does not break\<close>

lemma write_data_reliable [pcap_simps]:
  assumes "reliable f" and "bs \<noteq> []"
  shows "f_content (write_data bs f) = f_content f @ bs" and "reliable (write_data bs f)"
  using assms by (simp_all add: write_data_def reliable_def)

lemma flush_data_reliable [pcap_simps]: "reliable f \<Longrightarrow> flush_data f = f"
  by (simp add: flush_data_def reliable_def)

lemma u16_bytes_nonempty [simp]: "u16_bytes w \<noteq> []"
  by (simp add: u16_bytes_def)

lemma u32_bytes_nonempty [simp]: "u32_bytes w \<noteq> []"
  by (simp add: u32_bytes_def)

lemma length_u32_bytes [simp]: "length (u32_bytes w) = 4"
  by (simp add: u32_bytes_def)

lemma packet_record_nonempty [simp]: "packet_record p \<noteq> []"
  by (simp add: packet_record_def)

lemma write_packet_reliable [pcap_simps]:
  assumes "reliable f" and "captured_bytes p \<noteq> []"
  shows "f_content (write_packet p f) = f_content f @ packet_record p"
    and "reliable (write_packet p f)"
  using assms by (simp_all add: write_packet_def Let_def write_uint32_def packet_record_def pcap_simps)

text \<open>A closed file stays closed and as it is.\<close>

lemma closed_file [simp]:
  assumes "\<not> f_open f"
  shows "write_data bs f = f" and "flush_data f = f" and "write_packet p f = f"
  using assms by (simp_all add: write_data_def flush_data_def write_packet_def write_uint32_def)

end
