(* ===== verification/Nak_Filter.thy ===== *)
theory Nak_Filter imports
  Pcap
begin

text \<open>
  The NAK and SOF filter of \<open>tools/ovextcap/main.c\<close>: the state machine \<open>filter_packet\<close> with its
  queue, the operations on the queue and their contract, and a specification of the filter that
  looks ahead instead of keeping a state and a queue.
\<close>

unbundle bit_operations_syntax

section \<open>The program\<close>

definition USB_PID_DATA_MDATA :: u8 where "USB_PID_DATA_MDATA = 0x0F"
definition USB_PID_HANDSHAKE_STALL :: u8 where "USB_PID_HANDSHAKE_STALL = 0x1E"
definition USB_PID_TOKEN_SETUP :: u8 where "USB_PID_TOKEN_SETUP = 0x2D"
definition USB_PID_SPECIAL_PRE_OR_ERR :: u8 where "USB_PID_SPECIAL_PRE_OR_ERR = 0x3C"
definition USB_PID_DATA_DATA1 :: u8 where "USB_PID_DATA_DATA1 = 0x4B"
definition USB_PID_HANDSHAKE_NAK :: u8 where "USB_PID_HANDSHAKE_NAK = 0x5A"
definition USB_PID_TOKEN_IN :: u8 where "USB_PID_TOKEN_IN = 0x69"
definition USB_PID_SPECIAL_SPLIT :: u8 where "USB_PID_SPECIAL_SPLIT = 0x78"
definition USB_PID_DATA_DATA2 :: u8 where "USB_PID_DATA_DATA2 = 0x87"
definition USB_PID_HANDSHAKE_NYET :: u8 where "USB_PID_HANDSHAKE_NYET = 0x96"
definition USB_PID_TOKEN_SOF :: u8 where "USB_PID_TOKEN_SOF = 0xA5"
definition USB_PID_SPECIAL_PING :: u8 where "USB_PID_SPECIAL_PING = 0xB4"
definition USB_PID_DATA_DATA0 :: u8 where "USB_PID_DATA_DATA0 = 0xC3"
definition USB_PID_HANDSHAKE_ACK :: u8 where "USB_PID_HANDSHAKE_ACK = 0xD2"
definition USB_PID_TOKEN_OUT :: u8 where "USB_PID_TOKEN_OUT = 0xE1"
definition USB_PID_SPECIAL_RESERVED :: u8 where "USB_PID_SPECIAL_RESERVED = 0xF0"

lemmas pid_defs =
  USB_PID_DATA_DATA1_def USB_PID_HANDSHAKE_NAK_def USB_PID_TOKEN_IN_def USB_PID_SPECIAL_SPLIT_def
  USB_PID_TOKEN_SOF_def USB_PID_SPECIAL_PING_def USB_PID_DATA_DATA0_def USB_PID_TOKEN_OUT_def

datatype filter_state =
  FILTER_STATE_DEFAULT | FILTER_STATE_SPLIT | FILTER_STATE_OUT | FILTER_STATE_EXPECT_NAK

text \<open>
  \<open>struct handler_data\<close>, without the device handle.  The singly linked \<open>record_list\<close> is the list
  of its records; \<open>record_length\<close> is the length of the record.
\<close>

record handler_data =
  out :: ofile
  debug :: ofile
  utc_ts :: u32
  ts_offset :: u32
  last_ov_ts :: u64
  filter_naks :: bool
  filter_sofs :: bool
  st :: filter_state
  queue :: "u8 list list"

definition queue_packet :: "pcap_packet \<Rightarrow> handler_data \<Rightarrow> handler_data" where
  "queue_packet p d = d\<lparr>queue := queue d @ [packet_record p]\<rparr>"

definition free_queued_packets :: "handler_data \<Rightarrow> handler_data" where
  "free_queued_packets d = d\<lparr>queue := []\<rparr>"

fun write_records :: "u8 list list \<Rightarrow> ofile \<Rightarrow> ofile" where
  "write_records [] f = f"
| "write_records (r # rs) f = write_records rs (flush_data (write_data r f))"

definition forward_queued_packets :: "handler_data \<Rightarrow> handler_data" where
  "forward_queued_packets d = free_queued_packets (d\<lparr>out := write_records (queue d) (out d)\<rparr>)"

definition discard_queued_packets :: "handler_data \<Rightarrow> handler_data" where
  "discard_queued_packets d =
     (if \<not> filter_naks d then forward_queued_packets d else free_queued_packets d)"

definition forward_packet :: "pcap_packet \<Rightarrow> handler_data \<Rightarrow> handler_data" where
  "forward_packet p d = d\<lparr>out := write_packet p (out d)\<rparr>"

definition discard_packet :: "pcap_packet \<Rightarrow> handler_data \<Rightarrow> handler_data" where
  "discard_packet p d = (if \<not> filter_naks d then forward_packet p d else d)"

text \<open>\<open>filter_packet\<close>; its three assertions come first, \<open>captured = []\<close> being the null pointer.\<close>

definition filter_packet :: "pcap_packet \<Rightarrow> handler_data \<Rightarrow> error + handler_data" where
  "filter_packet p d =
     (if \<not> (st d \<noteq> FILTER_STATE_DEFAULT \<or> queue d = [])
      then Inl (Assertion ''(data->st != FILTER_STATE_DEFAULT) || (!data->queue)'')
      else if \<not> (st d \<noteq> FILTER_STATE_SPLIT \<or> queue d = [])
      then Inl (Assertion ''(data->st != FILTER_STATE_SPLIT) || (!data->queue)'')
      else if \<not> (0 < incl_len p \<and> captured p \<noteq> [])
      then Inl (Assertion ''(packet->incl_len > 0) && (packet->captured)'')
      else
        (let PID = hd (captured p)
         in if PID = USB_PID_TOKEN_SOF
            then if st d = FILTER_STATE_DEFAULT
                 then if \<not> filter_sofs d then Inr (forward_packet p d) else Inr d
                 else Inr ((forward_packet p (forward_queued_packets d))\<lparr>st := FILTER_STATE_DEFAULT\<rparr>)
            else if PID = USB_PID_SPECIAL_SPLIT
            then Inr ((forward_packet p (forward_queued_packets d))\<lparr>st := FILTER_STATE_SPLIT\<rparr>)
            else if st d = FILTER_STATE_SPLIT
            then Inr ((forward_packet p d)\<lparr>st := FILTER_STATE_DEFAULT\<rparr>)
            else if PID = USB_PID_TOKEN_OUT
            then Inr ((queue_packet p (forward_queued_packets d))\<lparr>st := FILTER_STATE_OUT\<rparr>)
            else if st d = FILTER_STATE_OUT \<and> (PID = USB_PID_DATA_DATA0 \<or> PID = USB_PID_DATA_DATA1)
            then Inr ((queue_packet p d)\<lparr>st := FILTER_STATE_EXPECT_NAK\<rparr>)
            else if PID = USB_PID_TOKEN_IN \<or> PID = USB_PID_SPECIAL_PING
            then Inr ((queue_packet p (forward_queued_packets d))\<lparr>st := FILTER_STATE_EXPECT_NAK\<rparr>)
            else if st d = FILTER_STATE_EXPECT_NAK \<and> PID = USB_PID_HANDSHAKE_NAK
            then Inr ((discard_packet p (discard_queued_packets d))\<lparr>st := FILTER_STATE_DEFAULT\<rparr>)
            else Inr ((forward_packet p (forward_queued_packets d))\<lparr>st := FILTER_STATE_DEFAULT\<rparr>)))"

text \<open>The packets of a capture, one call each, up to the first failed assertion.\<close>

fun filter_packets :: "pcap_packet list \<Rightarrow> handler_data \<Rightarrow> error + handler_data" where
  "filter_packets [] d = Inr d"
| "filter_packets (p # ps) d = (case filter_packet p d of
       Inl e \<Rightarrow> Inl e | Inr d' \<Rightarrow> filter_packets ps d')"

definition OV_TIMESTAMP_FREQ_HZ :: nat where "OV_TIMESTAMP_FREQ_HZ = 60000000"

text \<open>
  The first part of \<open>packet_handler\<close>: the capture time moves by the clocks since the last packet.
  \<open>data->ts_offset + diff_ts\<close> is computed in 64 bits; the result is \<open>nsec\<close>.
\<close>

definition advance_clock :: "u64 \<Rightarrow> handler_data \<Rightarrow> handler_data \<times> u32" where
  "advance_clock t d =
     (let diff_ts = t - last_ov_ts d;
          sum = ucast (ts_offset d) + diff_ts;
          off = ucast (sum mod of_nat OV_TIMESTAMP_FREQ_HZ);
          d1 = d\<lparr>last_ov_ts := t,
                 utc_ts := utc_ts d + ucast (sum div of_nat OV_TIMESTAMP_FREQ_HZ),
                 ts_offset := off\<rparr>
      in (d1, off * 17 - off div 3))"

text \<open>
  \<open>packet_handler\<close>; the boolean is the call of \<open>ov_capture_breakloop\<close>.
\<close>

definition packet_handler :: "ov_packet \<Rightarrow> handler_data \<Rightarrow> error + (handler_data \<times> bool)" where
  "packet_handler packet d =
     (let (d1, nsec) = advance_clock (pk_timestamp packet) d
      in if 0 < pk_size packet
         then let pkt = \<lparr>ts_sec = utc_ts d1, ts_nsec = nsec,
                         incl_len = of_nat (ov_packet_captured_size packet),
                         orig_len = ucast (pk_size packet), captured = pk_data packet\<rparr>
              in case filter_packet pkt (d1\<lparr>debug := write_packet pkt (debug d1)\<rparr>) of
                   Inl e \<Rightarrow> Inl e
                 | Inr d2 \<Rightarrow> Inr (d2, \<not> f_open (out d2))
         else Inr (d1, False))"

section \<open>The contract of the queue\<close>

text \<open>
  A queue between a producer of records and a byte stream: what was sent and what is pending.
  Every operation of the client either sends the pending records first, or appends to them; so
  nothing overtakes and nothing is lost, except by \<open>drop\<close>.
\<close>

locale record_queue =
  fixes enq :: "'r \<Rightarrow> 'd \<Rightarrow> 'd"
    and emit :: "'r \<Rightarrow> 'd \<Rightarrow> 'd"
    and forward :: "'d \<Rightarrow> 'd"
    and drop :: "'d \<Rightarrow> 'd"
    and sent :: "'d \<Rightarrow> 'b list"
    and pending :: "'d \<Rightarrow> 'b list list"
    and bytes :: "'r \<Rightarrow> 'b list"
    and good :: "'r \<Rightarrow> bool"
    and invar :: "'d \<Rightarrow> bool"
  assumes enq: "invar d \<Longrightarrow> good r \<Longrightarrow>
      sent (enq r d) = sent d \<and> pending (enq r d) = pending d @ [bytes r] \<and> invar (enq r d)"
    and emit: "invar d \<Longrightarrow> good r \<Longrightarrow>
      sent (emit r d) = sent d @ bytes r \<and> pending (emit r d) = pending d \<and> invar (emit r d)"
    and forward: "invar d \<Longrightarrow>
      sent (forward d) = sent d @ concat (pending d) \<and> pending (forward d) = [] \<and> invar (forward d)"
    and drop: "invar d \<Longrightarrow> sent (drop d) = sent d \<and> pending (drop d) = [] \<and> invar (drop d)"
begin

text \<open>All that was or will be sent, in order.\<close>

lemma pass_enq:
  "invar d \<Longrightarrow> good r \<Longrightarrow>
   sent (enq r d) @ concat (pending (enq r d)) = sent d @ concat (pending d) @ bytes r"
  using enq by simp

lemma pass_forward_emit:
  "invar d \<Longrightarrow> good r \<Longrightarrow>
   sent (emit r (forward d)) = sent d @ concat (pending d) @ bytes r \<and>
   pending (emit r (forward d)) = [] \<and> invar (emit r (forward d))"
  using emit [of "forward d" r] forward [of d] by simp

lemma pass_forward_enq:
  "invar d \<Longrightarrow> good r \<Longrightarrow>
   sent (enq r (forward d)) = sent d @ concat (pending d) \<and>
   pending (enq r (forward d)) = [bytes r] \<and> invar (enq r (forward d))"
  using enq [of "forward d" r] forward [of d] by simp

lemmas queue_laws = enq emit forward drop pass_forward_emit pass_forward_enq

end

text \<open>A record the output takes: it has data.\<close>

definition good_packet :: "pcap_packet \<Rightarrow> bool" where
  "good_packet p \<longleftrightarrow> 0 < incl_len p \<and> captured p \<noteq> []"

lemma captured_bytes_nonempty: "good_packet p \<Longrightarrow> captured_bytes p \<noteq> []"
  by (simp add: good_packet_def captured_bytes_def word_less_nat_alt)

definition queue_inv :: "handler_data \<Rightarrow> bool" where
  "queue_inv d \<longleftrightarrow> reliable (out d) \<and> list_all (\<lambda>r. r \<noteq> []) (queue d)"

lemma write_records_reliable:
  "reliable f \<Longrightarrow> list_all (\<lambda>r. r \<noteq> []) rs \<Longrightarrow>
   f_content (write_records rs f) = f_content f @ concat rs \<and> reliable (write_records rs f)"
  by (induction rs arbitrary: f) (simp_all add: pcap_simps)

interpretation rq: record_queue queue_packet forward_packet forward_queued_packets
  free_queued_packets "\<lambda>d. f_content (out d)" queue packet_record good_packet queue_inv
  by unfold_locales
     (auto simp: queue_inv_def queue_packet_def forward_packet_def forward_queued_packets_def
       free_queued_packets_def pcap_simps captured_bytes_nonempty write_records_reliable)

section \<open>The specification: looking ahead instead of queueing\<close>

text \<open>
  What the output should be, defined over the list of all packets of a capture.  \<open>naks\<close> and \<open>sofs\<close>
  are the two filter options; \<open>busy\<close> says that a transaction may be going on, in which case a SOF
  is worth keeping.  A transaction that is refused (IN or PING and then NAK; OUT, DATA0 or DATA1
  and then NAK) is dropped if \<open>naks\<close>; so is one that the end of the capture cuts off.
\<close>

definition pid :: "pcap_packet \<Rightarrow> u8" where
  "pid p = hd (captured p)"

definition is_nak :: "pcap_packet \<Rightarrow> bool" where
  "is_nak p \<longleftrightarrow> pid p = USB_PID_HANDSHAKE_NAK"

definition is_sof :: "pcap_packet \<Rightarrow> bool" where
  "is_sof p \<longleftrightarrow> pid p = USB_PID_TOKEN_SOF"

definition is_split :: "pcap_packet \<Rightarrow> bool" where
  "is_split p \<longleftrightarrow> pid p = USB_PID_SPECIAL_SPLIT"

definition is_in_or_ping :: "pcap_packet \<Rightarrow> bool" where
  "is_in_or_ping p \<longleftrightarrow> pid p = USB_PID_TOKEN_IN \<or> pid p = USB_PID_SPECIAL_PING"

definition is_out :: "pcap_packet \<Rightarrow> bool" where
  "is_out p \<longleftrightarrow> pid p = USB_PID_TOKEN_OUT"

definition is_data01 :: "pcap_packet \<Rightarrow> bool" where
  "is_data01 p \<longleftrightarrow> pid p = USB_PID_DATA_DATA0 \<or> pid p = USB_PID_DATA_DATA1"

lemmas pid_class_defs = is_nak_def is_sof_def is_split_def is_in_or_ping_def is_out_def is_data01_def

fun kept :: "bool \<Rightarrow> bool \<Rightarrow> bool \<Rightarrow> pcap_packet list \<Rightarrow> pcap_packet list"
  and kept_split :: "bool \<Rightarrow> bool \<Rightarrow> pcap_packet list \<Rightarrow> pcap_packet list" where
  "kept naks sofs busy [] = []"
| "kept naks sofs busy (p # ps) =
     (if is_sof p then (if sofs \<and> \<not> busy then [] else [p]) @ kept naks sofs False ps
      else if is_split p then p # kept_split naks sofs ps
      else if is_in_or_ping p
      then (case ps of
              [] \<Rightarrow> if naks then [] else [p]
            | n # rest \<Rightarrow>
                if is_nak n then (if naks then [] else [p, n]) @ kept naks sofs False rest
                else p # kept naks sofs True ps)
      else if is_out p
      then (case ps of
              [] \<Rightarrow> if naks then [] else [p]
            | dt # ps' \<Rightarrow>
                if is_data01 dt
                then (case ps' of
                        [] \<Rightarrow> if naks then [] else [p, dt]
                      | n # rest \<Rightarrow>
                          if is_nak n
                          then (if naks then [] else [p, dt, n]) @ kept naks sofs False rest
                          else p # dt # kept naks sofs True ps')
                else p # kept naks sofs True ps)
      else p # kept naks sofs False ps)"
| "kept_split naks sofs [] = []"
| "kept_split naks sofs (p # ps) =
     p # (if is_sof p then kept naks sofs False ps
          else if is_split p then kept_split naks sofs ps
          else kept naks sofs False ps)"

section \<open>The state machine against the specification\<close>

text \<open>
  The state, the pending packets and the queue agree.
\<close>

definition tracks :: "handler_data \<Rightarrow> pcap_packet list \<Rightarrow> bool" where
  "tracks d pend \<longleftrightarrow> queue_inv d \<and> queue d = map packet_record pend \<and>
     (case st d of
        FILTER_STATE_DEFAULT \<Rightarrow> pend = []
      | FILTER_STATE_SPLIT \<Rightarrow> pend = []
      | FILTER_STATE_OUT \<Rightarrow> (\<exists>p. pend = [p] \<and> is_out p)
      | FILTER_STATE_EXPECT_NAK \<Rightarrow>
          (\<exists>p. pend = [p] \<and> is_in_or_ping p) \<or>
          (\<exists>p dt. pend = [p, dt] \<and> is_out p \<and> is_data01 dt))"

text \<open>What the specification still owes.\<close>

definition future :: "handler_data \<Rightarrow> pcap_packet list \<Rightarrow> pcap_packet list \<Rightarrow> pcap_packet list" where
  "future d pend ps =
     (if st d = FILTER_STATE_SPLIT then kept_split (filter_naks d) (filter_sofs d) ps
      else kept (filter_naks d) (filter_sofs d) False (pend @ ps))"

definition records :: "pcap_packet list \<Rightarrow> u8 list" where
  "records ps = concat (map packet_record ps)"

lemma records_simps [simp]:
  "records [] = []" "records (p # ps) = packet_record p @ records ps"
  "records (ps @ qs) = records ps @ records qs"
  by (simp_all add: records_def)

lemma queue_ops_frame [simp]:
  "filter_naks (queue_packet p d) = filter_naks d" "filter_sofs (queue_packet p d) = filter_sofs d"
  "filter_naks (forward_packet p d) = filter_naks d" "filter_sofs (forward_packet p d) = filter_sofs d"
  "filter_naks (discard_packet p d) = filter_naks d" "filter_sofs (discard_packet p d) = filter_sofs d"
  "filter_naks (forward_queued_packets d) = filter_naks d"
  "filter_sofs (forward_queued_packets d) = filter_sofs d"
  "filter_naks (discard_queued_packets d) = filter_naks d"
  "filter_sofs (discard_queued_packets d) = filter_sofs d"
  by (simp_all add: queue_packet_def forward_packet_def discard_packet_def
      forward_queued_packets_def discard_queued_packets_def free_queued_packets_def)

lemma queue_inv_st [simp]: "queue_inv (d\<lparr>st := s\<rparr>) = queue_inv d"
  by (simp add: queue_inv_def)

lemma forward_queued_empty: "queue d = [] \<Longrightarrow> forward_queued_packets d = d"
  by (cases d) (simp add: forward_queued_packets_def free_queued_packets_def)

text \<open>The five ways a packet is handled.\<close>

definition handled ::
    "handler_data \<Rightarrow> pcap_packet list \<Rightarrow> pcap_packet list \<Rightarrow> handler_data \<Rightarrow> pcap_packet list \<Rightarrow> bool"
  where
  "handled d pend E d1 pend1 \<longleftrightarrow>
     queue_inv d1 \<and> queue d1 = map packet_record pend1 \<and>
     f_content (out d1) = f_content (out d) @ records E \<and>
     filter_naks d1 = filter_naks d \<and> filter_sofs d1 = filter_sofs d"

lemma handled_pass:
  assumes "tracks d pend" and "good_packet p"
  shows "handled d pend (pend @ [p]) ((forward_packet p (forward_queued_packets d))\<lparr>st := s\<rparr>) []"
  using assms rq.pass_forward_emit [of d p]
  by (simp add: handled_def tracks_def records_def)

lemma handled_restart:
  assumes "tracks d pend" and "good_packet p"
  shows "handled d pend pend ((queue_packet p (forward_queued_packets d))\<lparr>st := s\<rparr>) [p]"
  using assms rq.pass_forward_enq [of d p]
  by (simp add: handled_def tracks_def records_def)

lemma handled_extend:
  assumes "tracks d pend" and "good_packet p"
  shows "handled d pend [] ((queue_packet p d)\<lparr>st := s\<rparr>) (pend @ [p])"
  using assms rq.enq [of d p] by (simp add: handled_def tracks_def)

lemma handled_refuse:
  assumes "tracks d pend" and "good_packet p"
  shows "handled d pend (if filter_naks d then [] else pend @ [p])
    ((discard_packet p (discard_queued_packets d))\<lparr>st := s\<rparr>) []"
proof (cases "filter_naks d")
  case True
  then show ?thesis
    using assms rq.drop [of d]
    by (simp add: handled_def tracks_def discard_packet_def discard_queued_packets_def)
      (simp add: free_queued_packets_def)
next
  case False
  then have "discard_packet p (discard_queued_packets d) = forward_packet p (forward_queued_packets d)"
    by (simp add: discard_packet_def discard_queued_packets_def)
  then show ?thesis
    using handled_pass [OF assms] False by simp
qed

text \<open>\<open>busy\<close> only matters for a SOF.\<close>

lemma kept_busy:
  "\<not> is_sof p \<Longrightarrow> kept naks sofs b (p # ps) = kept naks sofs False (p # ps)"
  by simp

lemma kept_busy_sof: "is_sof p \<Longrightarrow> kept naks sofs True (p # ps) = p # kept naks sofs False ps"
  by simp

lemma pid_disjoint:
  "is_sof p \<Longrightarrow> \<not> is_split p \<and> \<not> is_in_or_ping p \<and> \<not> is_out p \<and> \<not> is_data01 p \<and> \<not> is_nak p"
  "is_split p \<Longrightarrow> \<not> is_in_or_ping p \<and> \<not> is_out p \<and> \<not> is_data01 p \<and> \<not> is_nak p"
  "is_in_or_ping p \<Longrightarrow> \<not> is_out p \<and> \<not> is_data01 p \<and> \<not> is_nak p"
  "is_out p \<Longrightarrow> \<not> is_data01 p \<and> \<not> is_nak p"
  "is_data01 p \<Longrightarrow> \<not> is_nak p"
  by (auto simp: pid_class_defs pid_defs)

text \<open>\<open>filter_packet\<close> in terms of the classes.\<close>

lemma filter_packet_classes:
  assumes "tracks d pend" and "good_packet p"
  shows "filter_packet p d = Inr
    (if is_sof p \<and> st d = FILTER_STATE_DEFAULT \<and> filter_sofs d then d
     else if is_sof p
     then (forward_packet p (forward_queued_packets d))\<lparr>st := FILTER_STATE_DEFAULT\<rparr>
     else if is_split p
     then (forward_packet p (forward_queued_packets d))\<lparr>st := FILTER_STATE_SPLIT\<rparr>
     else if st d = FILTER_STATE_SPLIT
     then (forward_packet p (forward_queued_packets d))\<lparr>st := FILTER_STATE_DEFAULT\<rparr>
     else if is_out p then (queue_packet p (forward_queued_packets d))\<lparr>st := FILTER_STATE_OUT\<rparr>
     else if st d = FILTER_STATE_OUT \<and> is_data01 p
     then (queue_packet p d)\<lparr>st := FILTER_STATE_EXPECT_NAK\<rparr>
     else if is_in_or_ping p
     then (queue_packet p (forward_queued_packets d))\<lparr>st := FILTER_STATE_EXPECT_NAK\<rparr>
     else if st d = FILTER_STATE_EXPECT_NAK \<and> is_nak p
     then (discard_packet p (discard_queued_packets d))\<lparr>st := FILTER_STATE_DEFAULT\<rparr>
     else (forward_packet p (forward_queued_packets d))\<lparr>st := FILTER_STATE_DEFAULT\<rparr>)"
proof -
  have empty: "queue d = []" if "st d \<in> {FILTER_STATE_DEFAULT, FILTER_STATE_SPLIT}"
    using assms(1) that by (auto simp: tracks_def)
  have same: "forward_packet p d = (forward_packet p d)\<lparr>st := FILTER_STATE_DEFAULT\<rparr>"
    if "st d = FILTER_STATE_DEFAULT"
    using that by (cases d) (simp add: forward_packet_def)
  show ?thesis
    using assms(2) empty same
    by (auto simp: filter_packet_def good_packet_def Let_def pid_class_defs pid_def
        forward_queued_empty)
qed

text \<open>A packet that does not continue the pending transaction releases it.\<close>

lemma future_release:
  assumes "tracks d pend" and "st d \<noteq> FILTER_STATE_SPLIT"
    and "\<not> (st d = FILTER_STATE_OUT \<and> is_data01 p)"
    and "\<not> (st d = FILTER_STATE_EXPECT_NAK \<and> is_nak p)"
  shows "future d pend (p # ps) =
    pend @ kept (filter_naks d) (filter_sofs d) (st d \<noteq> FILTER_STATE_DEFAULT) (p # ps)"
proof (cases "st d")
  case FILTER_STATE_DEFAULT
  then show ?thesis
    using assms by (simp add: tracks_def future_def del: kept.simps)
next
  case FILTER_STATE_SPLIT
  then show ?thesis
    using assms by simp
next
  case FILTER_STATE_OUT
  then obtain p1 where p1: "pend = [p1]" "is_out p1"
    using assms by (auto simp: tracks_def)
  have "\<not> is_sof p1" "\<not> is_split p1" "\<not> is_in_or_ping p1"
    using p1(2) pid_disjoint by blast+
  then have "kept (filter_naks d) (filter_sofs d) False (p1 # p # ps) =
      p1 # kept (filter_naks d) (filter_sofs d) True (p # ps)"
    using FILTER_STATE_OUT assms(3) p1(2) by (subst kept.simps(2)) (simp del: kept.simps)
  then show ?thesis
    using FILTER_STATE_OUT p1(1) by (simp add: future_def del: kept.simps)
next
  case FILTER_STATE_EXPECT_NAK
  then consider (in_ping) p1 where "pend = [p1]" "is_in_or_ping p1"
    | (out_data) p1 dt where "pend = [p1, dt]" "is_out p1" "is_data01 dt"
    using assms by (auto simp: tracks_def)
  then show ?thesis
  proof cases
    case in_ping
    have "\<not> is_sof p1" "\<not> is_split p1"
      using in_ping(2) pid_disjoint by blast+
    then have "kept (filter_naks d) (filter_sofs d) False (p1 # p # ps) =
        p1 # kept (filter_naks d) (filter_sofs d) True (p # ps)"
      using FILTER_STATE_EXPECT_NAK assms(4) in_ping(2)
      by (subst kept.simps(2)) (simp del: kept.simps)
    then show ?thesis
      using FILTER_STATE_EXPECT_NAK in_ping(1) by (simp add: future_def del: kept.simps)
  next
    case out_data
    have "\<not> is_sof p1" "\<not> is_split p1" "\<not> is_in_or_ping p1"
      using out_data(2) pid_disjoint by blast+
    then have "kept (filter_naks d) (filter_sofs d) False (p1 # dt # p # ps) =
        p1 # dt # kept (filter_naks d) (filter_sofs d) True (p # ps)"
      using FILTER_STATE_EXPECT_NAK assms(4) out_data(2,3)
      by (subst kept.simps(2)) (simp del: kept.simps)
    then show ?thesis
      using FILTER_STATE_EXPECT_NAK out_data(1) by (simp add: future_def del: kept.simps)
  qed
qed

text \<open>A NAK that ends the pending transaction.\<close>

lemma future_refused:
  assumes "tracks d pend" and "st d = FILTER_STATE_EXPECT_NAK" and "is_nak p"
  shows "future d pend (p # ps) =
    (if filter_naks d then [] else pend @ [p]) @ kept (filter_naks d) (filter_sofs d) False ps"
proof -
  consider (in_ping) p1 where "pend = [p1]" "is_in_or_ping p1"
    | (out_data) p1 dt where "pend = [p1, dt]" "is_out p1" "is_data01 dt"
    using assms by (auto simp: tracks_def)
  then show ?thesis
  proof cases
    case in_ping
    have "\<not> is_sof p1" "\<not> is_split p1"
      using in_ping(2) pid_disjoint by blast+
    then have "kept (filter_naks d) (filter_sofs d) False (p1 # p # ps) =
        (if filter_naks d then [] else [p1, p]) @ kept (filter_naks d) (filter_sofs d) False ps"
      using assms(3) in_ping(2) by (subst kept.simps(2)) (simp del: kept.simps)
    then show ?thesis
      using assms(2) in_ping(1) by (simp add: future_def del: kept.simps)
  next
    case out_data
    have "\<not> is_sof p1" "\<not> is_split p1" "\<not> is_in_or_ping p1"
      using out_data(2) pid_disjoint by blast+
    then have "kept (filter_naks d) (filter_sofs d) False (p1 # dt # p # ps) =
        (if filter_naks d then [] else [p1, dt, p]) @ kept (filter_naks d) (filter_sofs d) False ps"
      using assms(3) out_data(2,3) by (subst kept.simps(2)) (simp del: kept.simps)
    then show ?thesis
      using assms(2) out_data(1) by (simp add: future_def del: kept.simps)
  qed
qed

text \<open>The first packet of a list, by its class.\<close>

lemma kept_sof:
  "is_sof p \<Longrightarrow> kept naks sofs b (p # ps) = (if sofs \<and> \<not> b then [] else [p]) @ kept naks sofs False ps"
  by simp

lemma kept_at_split: "is_split p \<Longrightarrow> kept naks sofs b (p # ps) = p # kept_split naks sofs ps"
  using pid_disjoint(1) [of p] by auto

lemma kept_other:
  "\<not> is_sof p \<Longrightarrow> \<not> is_split p \<Longrightarrow> \<not> is_in_or_ping p \<Longrightarrow> \<not> is_out p \<Longrightarrow>
   kept naks sofs b (p # ps) = p # kept naks sofs False ps"
  by simp

lemma filter_step:
  assumes tr: "tracks d pend" and good: "good_packet p"
  shows "\<exists>d1 pend1 E. filter_packet p d = Inr d1 \<and> tracks d1 pend1 \<and> handled d pend E d1 pend1 \<and>
    (\<forall>ps. future d pend (p # ps) = E @ future d1 pend1 ps)"
proof -
  note classes = filter_packet_classes [OF tr good]
  note pass = handled_pass [OF tr good] and restart = handled_restart [OF tr good]
    and extend = handled_extend [OF tr good] and refuse = handled_refuse [OF tr good]
  have step: ?thesis
    if "filter_packet p d = Inr d1" "handled d pend E d1 pend1"
      "tracks d1 pend1" "\<And>ps. future d pend (p # ps) = E @ future d1 pend1 ps" for d1 pend1 E
    using that by blast
  have tracking: "tracks d1 pend1"
    if "handled d pend E d1 pend1" "(case st d1 of
        FILTER_STATE_DEFAULT \<Rightarrow> pend1 = []
      | FILTER_STATE_SPLIT \<Rightarrow> pend1 = []
      | FILTER_STATE_OUT \<Rightarrow> (\<exists>p. pend1 = [p] \<and> is_out p)
      | FILTER_STATE_EXPECT_NAK \<Rightarrow>
          (\<exists>p. pend1 = [p] \<and> is_in_or_ping p) \<or>
          (\<exists>p dt. pend1 = [p, dt] \<and> is_out p \<and> is_data01 dt))" for d1 pend1 E
    using that by (simp add: tracks_def handled_def)
  have flags: "filter_naks d1 = filter_naks d" "filter_sofs d1 = filter_sofs d"
    if "handled d pend E d1 pend1" for d1 pend1 E
    using that by (simp_all add: handled_def)
  note owe = future_def flags
  consider (split_state) "st d = FILTER_STATE_SPLIT"
    | (quiet_sof) "st d = FILTER_STATE_DEFAULT" "is_sof p" "filter_sofs d"
    | (extends) "st d = FILTER_STATE_OUT" "is_data01 p"
    | (refused) "st d = FILTER_STATE_EXPECT_NAK" "is_nak p"
    | (released) "st d \<noteq> FILTER_STATE_SPLIT" "\<not> (st d = FILTER_STATE_DEFAULT \<and> is_sof p \<and> filter_sofs d)"
        "\<not> (st d = FILTER_STATE_OUT \<and> is_data01 p)" "\<not> (st d = FILTER_STATE_EXPECT_NAK \<and> is_nak p)"
    by blast
  then show ?thesis
  proof cases
    case split_state
    then have [simp]: "pend = []"
      using tr by (simp add: tracks_def)
    let ?s = "if is_split p then FILTER_STATE_SPLIT else FILTER_STATE_DEFAULT"
    have "filter_packet p d = Inr ((forward_packet p (forward_queued_packets d))\<lparr>st := ?s\<rparr>)"
      using classes split_state pid_disjoint(1) [of p] by simp
    then show ?thesis
      using split_state pid_disjoint(1) [of p]
      by (intro step [OF _ pass [of ?s]] tracking [OF pass]) (simp_all add: future_def)
  next
    case quiet_sof
    then have "pend = []" "filter_packet p d = Inr d"
      using tr classes by (simp_all add: tracks_def)
    then show ?thesis
      using quiet_sof tr by (intro step [of d "[]" pend]) (simp_all add: tracks_def handled_def future_def)
  next
    case extends
    then obtain p1 where p1: "pend = [p1]" "is_out p1"
      using tr by (auto simp: tracks_def)
    have "filter_packet p d = Inr ((queue_packet p d)\<lparr>st := FILTER_STATE_EXPECT_NAK\<rparr>)"
      using classes extends pid_disjoint by auto
    then show ?thesis
      using extends p1
      by (intro step [OF _ extend [of FILTER_STATE_EXPECT_NAK]] tracking [OF extend])
        (simp_all add: future_def del: kept.simps)
  next
    case refused
    have "filter_packet p d = Inr ((discard_packet p (discard_queued_packets d))\<lparr>st := FILTER_STATE_DEFAULT\<rparr>)"
      using classes refused pid_disjoint by auto
    then show ?thesis
      using refused future_refused [OF tr refused]
      by (intro step [OF _ refuse [of FILTER_STATE_DEFAULT]] tracking [OF refuse])
        (simp_all add: future_def del: kept.simps)
  next
    case released
    note release = future_release [OF tr released(1,3,4)]
    show ?thesis
    proof (cases "is_out p \<or> is_in_or_ping p")
      case True
      let ?s = "if is_out p then FILTER_STATE_OUT else FILTER_STATE_EXPECT_NAK"
      have other: "\<not> is_sof p" "\<not> is_split p" "\<not> is_data01 p"
        using True pid_disjoint by blast+
      then have "filter_packet p d = Inr ((queue_packet p (forward_queued_packets d))\<lparr>st := ?s\<rparr>)"
        using classes released True by auto
      then show ?thesis
        using other release kept_busy [OF other(1)] disj_imp [THEN iffD1, OF True]
        by (intro step [OF _ restart [of ?s]] tracking [OF restart])
          (simp_all add: future_def del: kept.simps)
    next
      case False
      let ?s = "if is_split p then FILTER_STATE_SPLIT else FILTER_STATE_DEFAULT"
      have "filter_packet p d = Inr ((forward_packet p (forward_queued_packets d))\<lparr>st := ?s\<rparr>)"
        using classes released False pid_disjoint(1) [of p] by auto
      moreover have "future d pend (p # ps) = (pend @ [p]) @
          (if is_split p then kept_split (filter_naks d) (filter_sofs d) ps
           else kept (filter_naks d) (filter_sofs d) False ps)" for ps
        using released(2) False release
        by (cases "is_split p"; cases "is_sof p")
          (auto simp: kept_sof kept_at_split kept_other simp del: kept.simps dest: pid_disjoint)
      ultimately show ?thesis
        by (intro step [OF _ pass [of ?s]] tracking [OF pass])
          (simp_all add: future_def del: kept.simps)
    qed
  qed
qed

end
