(* ===== verification/Filter_Spec.thy ===== *)
theory Filter_Spec imports
  Nak_Filter
begin

text \<open>
  What the capture tool promises: its output file is the input without the refused transactions
  and the uninteresting SOFs, in order and with exact time stamps; the assertions on the queue
  never fail, whatever happens to the files.
\<close>

section \<open>The filter over a capture\<close>

lemma filter_packets_run:
  assumes "tracks d pend" and "list_all good_packet ps"
  shows "\<exists>d' pend'. filter_packets ps d = Inr d' \<and> tracks d' pend' \<and>
    filter_naks d' = filter_naks d \<and> filter_sofs d' = filter_sofs d \<and>
    f_content (out d') @ records (future d' pend' []) =
      f_content (out d) @ records (future d pend ps)"
  using assms
proof (induction ps arbitrary: d pend)
  case Nil
  then show ?case
    by auto
next
  case (Cons p ps)
  then obtain d1 pend1 E where step: "filter_packet p d = Inr d1" "tracks d1 pend1"
      "handled d pend E d1 pend1" "\<And>ps. future d pend (p # ps) = E @ future d1 pend1 ps"
    using filter_step [of d pend p] by auto
  then show ?case
    using Cons.IH [of d1 pend1] Cons.prems(2) by (auto simp: handled_def)
qed

text \<open>The end of the capture drops or forwards what is pending.\<close>

lemma future_end:
  assumes "tracks d pend"
  shows "future d pend [] = (if filter_naks d then [] else pend)"
proof (cases "st d")
  case FILTER_STATE_OUT
  then obtain p1 where p1: "pend = [p1]" "is_out p1"
    using assms by (auto simp: tracks_def)
  then show ?thesis
    using FILTER_STATE_OUT pid_disjoint(1,2,3) [of p1] by (auto simp: future_def)
next
  case FILTER_STATE_EXPECT_NAK
  then consider (in_ping) p1 where "pend = [p1]" "is_in_or_ping p1"
    | (out_data) p1 dt where "pend = [p1, dt]" "is_out p1" "is_data01 dt"
    using assms by (auto simp: tracks_def)
  then show ?thesis
  proof cases
    case in_ping
    then show ?thesis
      using FILTER_STATE_EXPECT_NAK pid_disjoint(1,2) [of p1] by (auto simp: future_def)
  next
    case out_data
    then show ?thesis
      using FILTER_STATE_EXPECT_NAK pid_disjoint(1,2,3) [of p1] by (auto simp: future_def)
  qed
qed (use assms in \<open>simp_all add: tracks_def future_def\<close>)

lemma discard_at_end:
  assumes "tracks d pend"
  shows "f_content (out (discard_queued_packets d)) = f_content (out d) @ records (future d pend [])"
  using assms rq.forward [of d] future_end [OF assms]
  by (simp add: discard_queued_packets_def tracks_def records_def free_queued_packets_def)

lemma tracks_start: "st d = FILTER_STATE_DEFAULT \<Longrightarrow> queue d = [] \<Longrightarrow> reliable (out d) \<Longrightarrow> tracks d []"
  by (simp add: tracks_def queue_inv_def)

lemma filter_packets_kept:
  assumes "st d = FILTER_STATE_DEFAULT" "queue d = []" "reliable (out d)" "list_all good_packet ps"
  shows "\<exists>d'. filter_packets ps d = Inr d' \<and>
    f_content (out (discard_queued_packets d')) =
      f_content (out d) @ records (kept (filter_naks d) (filter_sofs d) False ps)"
  using filter_packets_run [OF tracks_start [OF assms(1-3)] assms(4)] assms(1) discard_at_end
  by (fastforce simp: future_def)

section \<open>What the specification keeps\<close>

text \<open>An induction over the choices that \<open>kept\<close> makes: to keep a packet, or to drop one of six things.\<close>

lemma kept_choices:
  assumes nil: "P [] []"
    and keep: "\<And>p ps qs. P ps qs \<Longrightarrow> P (p # ps) (p # qs)"
    and drop_sof: "\<And>p ps qs. sofs \<Longrightarrow> is_sof p \<Longrightarrow> P ps qs \<Longrightarrow> P (p # ps) qs"
    and drop_in: "\<And>p n ps qs. naks \<Longrightarrow> is_in_or_ping p \<Longrightarrow> is_nak n \<Longrightarrow> P ps qs \<Longrightarrow> P (p # n # ps) qs"
    and drop_out: "\<And>p dt n ps qs. naks \<Longrightarrow> is_out p \<Longrightarrow> is_data01 dt \<Longrightarrow> is_nak n \<Longrightarrow> P ps qs \<Longrightarrow>
        P (p # dt # n # ps) qs"
    and cut_in: "\<And>p. naks \<Longrightarrow> is_in_or_ping p \<Longrightarrow> P [p] []"
    and cut_out: "\<And>p. naks \<Longrightarrow> is_out p \<Longrightarrow> P [p] []"
    and cut_out_data: "\<And>p dt. naks \<Longrightarrow> is_out p \<Longrightarrow> is_data01 dt \<Longrightarrow> P [p, dt] []"
  shows "P ps (kept naks sofs b ps)" and "P ps' (kept_split naks sofs ps')"
  using assms
proof (induction naks sofs b ps and naks sofs ps' rule: kept_kept_split.induct)
  case (1 naks sofs busy)
  then show ?case
    by simp
next
  case (2 naks sofs busy p ps)
  note hyps = "2.IH" and rules = "2.prems"
  consider (sof) "is_sof p" | (split) "\<not> is_sof p" "is_split p"
    | (tok_in) "\<not> is_sof p" "\<not> is_split p" "is_in_or_ping p"
    | (tok_out) "\<not> is_sof p" "\<not> is_split p" "\<not> is_in_or_ping p" "is_out p"
    | (other) "\<not> is_sof p" "\<not> is_split p" "\<not> is_in_or_ping p" "\<not> is_out p"
    by blast
  then show ?case
  proof cases
    case sof
    have "P ps (kept naks sofs False ps)"
      using hyps(1) [OF sof rules] by blast
    then show ?thesis
      using sof rules(2,3)
      by (cases "sofs \<and> \<not> busy") (auto simp add: kept_sof simp del: kept.simps)
  next
    case split
    have "P ps (kept_split naks sofs ps)"
      using hyps(2) [OF split rules] by blast
    then show ?thesis
      using split rules(2) by (simp add: kept_at_split del: kept.simps)
  next
    case tok_in
    show ?thesis
    proof (cases ps)
      case Nil
      then show ?thesis
        using tok_in rules(1,2,6) by simp
    next
      case (Cons n rest)
      show ?thesis
      proof (cases "is_nak n")
        case True
        have "P rest (kept naks sofs False rest)"
          using hyps(3) [OF tok_in Cons True rules] by blast
        then show ?thesis
          using tok_in Cons True rules(2,4)
            by (cases naks; subst kept.simps(2)) (simp_all del: kept.simps)
      next
        case False
        have "P ps (kept naks sofs True ps)"
          using hyps(4) [OF tok_in Cons False rules] by blast
        then show ?thesis
          using tok_in Cons False rules(2) by (subst kept.simps(2)) (simp del: kept.simps)
      qed
    qed
  next
    case tok_out
    show ?thesis
    proof (cases ps)
      case Nil
      then show ?thesis
        using tok_out rules(1,2,7) by simp
    next
      case (Cons dt ps')
      show ?thesis
      proof (cases "is_data01 dt")
        case True
        show ?thesis
        proof (cases ps')
          case Nil
          then show ?thesis
            using tok_out Cons True rules(1,2,8) by (subst kept.simps(2)) (simp del: kept.simps)
        next
          case (Cons n rest)
          show ?thesis
          proof (cases "is_nak n")
            case nak: True
            have "P rest (kept naks sofs False rest)"
              using hyps(5) [OF tok_out \<open>ps = dt # ps'\<close> True Cons nak rules] by blast
            then show ?thesis
              using tok_out \<open>ps = dt # ps'\<close> Cons True nak rules(2,5)
              by (cases naks; subst kept.simps(2)) (simp_all del: kept.simps)
          next
            case nak: False
            have "P ps' (kept naks sofs True ps')"
              using hyps(6) [OF tok_out \<open>ps = dt # ps'\<close> True Cons nak rules] by blast
            then show ?thesis
              using tok_out \<open>ps = dt # ps'\<close> Cons True nak rules(2)
              by (subst kept.simps(2)) (simp del: kept.simps)
          qed
        qed
      next
        case False
        have "P ps (kept naks sofs True ps)"
          using hyps(7) [OF tok_out Cons False rules] by blast
        then show ?thesis
          using tok_out Cons False rules(2) by (subst kept.simps(2)) (simp del: kept.simps)
      qed
    qed
  next
    case other
    have "P ps (kept naks sofs False ps)"
      using hyps(8) [OF other rules] by blast
    then show ?thesis
      using other rules(2) by (simp add: kept_other del: kept.simps)
  qed
next
  case (3 naks sofs)
  then show ?case
    by simp
next
  case (4 naks sofs p ps)
  note rules = "4.prems"
  have "P ps (if is_sof p then kept naks sofs False ps
      else if is_split p then kept_split naks sofs ps else kept naks sofs False ps)"
    using "4.IH"(1) [OF _ rules] "4.IH"(2) [OF _ _ rules] "4.IH"(3) [OF _ _ rules] by auto
  then show ?case
    using rules(2) by simp
qed

lemma kept_nothing_filtered: "kept False False b ps = ps"
  by (rule kept_choices(1) [of "\<lambda>ps qs. qs = ps"]) simp_all

lemma kept_subseq: "subseq (kept naks sofs b ps) ps"
  by (rule kept_choices(1) [of "\<lambda>ps qs. subseq qs ps"]) auto

text \<open>Packets of no class that the filter looks at.\<close>

definition untouchable :: "pcap_packet \<Rightarrow> bool" where
  "untouchable p \<longleftrightarrow>
     \<not> is_sof p \<and> \<not> is_in_or_ping p \<and> \<not> is_out p \<and> \<not> is_data01 p \<and> \<not> is_nak p"

lemma kept_untouchable: "filter untouchable (kept naks sofs b ps) = filter untouchable ps"
  by (rule kept_choices(1) [of "\<lambda>ps qs. filter untouchable qs = filter untouchable ps"])
    (auto simp: untouchable_def)

section \<open>The clock\<close>

definition clock :: "handler_data \<Rightarrow> nat" where
  "clock d = unat (utc_ts d) * OV_TIMESTAMP_FREQ_HZ + unat (ts_offset d)"

text \<open>\<open>base\<close> is the capture time at which the device's counter was 0.\<close>

definition clocked :: "nat \<Rightarrow> handler_data \<Rightarrow> bool" where
  "clocked base d \<longleftrightarrow>
     unat (ts_offset d) < OV_TIMESTAMP_FREQ_HZ \<and> clock d = base + unat (last_ov_ts d)"

text \<open>Nanoseconds of a number of clocks below one second, rounded up.\<close>

definition clocks_to_nsec :: "nat \<Rightarrow> nat" where
  "clocks_to_nsec c = (50 * c + 2) div 3"

lemma clocks_to_nsec_bound: "c < OV_TIMESTAMP_FREQ_HZ \<Longrightarrow> clocks_to_nsec c < 1000000000"
  by (simp add: clocks_to_nsec_def OV_TIMESTAMP_FREQ_HZ_def)

lemma nsec_arith: "n * 17 - n div 3 = clocks_to_nsec n" for n :: nat
proof -
  define q where "q = n div 3"
  consider "n = 3 * q" | "n = 3 * q + 1" | "n = 3 * q + 2"
    unfolding q_def by linarith
  then have "n * 17 - q = (50 * n + 2) div 3"
    by cases simp_all
  then show ?thesis
    by (simp add: clocks_to_nsec_def q_def)
qed

lemma nsec_of_offset:
  fixes off :: u32
  assumes "unat off < OV_TIMESTAMP_FREQ_HZ"
  shows "off * 17 - off div 3 = of_nat (clocks_to_nsec (unat off))"
proof -
  let ?n = "unat off"
  have "unat (off div 3) = ?n div 3"
    by (simp add: unat_div_distrib)
  then have "off div 3 = of_nat (?n div 3)"
    by (rule eq_of_nat_unat)
  then have "off * 17 - off div 3 = of_nat (?n * 17) - of_nat (?n div 3)"
    by simp
  also have "\<dots> = of_nat (?n * 17 - ?n div 3)"
    by (subst of_nat_diff) simp_all
  also have "?n * 17 - ?n div 3 = clocks_to_nsec ?n"
    by (simp add: nsec_arith)
  finally show ?thesis .
qed

lemma advance_clock_exact:
  assumes "clocked base d" and "unat (last_ov_ts d) \<le> unat t"
    and "base + unat t < 2 ^ 32 * OV_TIMESTAMP_FREQ_HZ"
  shows "advance_clock t d =
      (d\<lparr>last_ov_ts := t,
         utc_ts := of_nat ((base + unat t) div OV_TIMESTAMP_FREQ_HZ),
         ts_offset := of_nat ((base + unat t) mod OV_TIMESTAMP_FREQ_HZ)\<rparr>,
       of_nat (clocks_to_nsec ((base + unat t) mod OV_TIMESTAMP_FREQ_HZ)))"
    and "clocked base (fst (advance_clock t d))"
proof -
  let ?F = OV_TIMESTAMP_FREQ_HZ
  let ?sum = "ucast (ts_offset d) + (t - last_ov_ts d) :: u64"
  let ?T = "base + unat t"
  have F: "?F = 60000000"
    by (simp add: OV_TIMESTAMP_FREQ_HZ_def)
  have T: "?T = unat (utc_ts d) * ?F + (unat (ts_offset d) + (unat t - unat (last_ov_ts d)))"
    using assms(1,2) unfolding clocked_def clock_def by linarith
  have sum: "unat ?sum = unat (ts_offset d) + (unat t - unat (last_ov_ts d))"
  proof -
    have "unat (ucast (ts_offset d) :: u64) = unat (ts_offset d)"
      by (simp add: unat_ucast_wider)
    moreover have "unat (t - last_ov_ts d) = unat t - unat (last_ov_ts d)"
      using assms(2) by (simp add: unat_sub word_le_nat_alt)
    moreover have "unat (ts_offset d) + (unat t - unat (last_ov_ts d)) < 2 ^ 64"
      using T assms(3) F by simp
    ultimately show ?thesis
      by (simp add: unat_word_ariths)
  qed
  have Fw: "unat (of_nat ?F :: u64) = ?F"
    by (simp add: F)
  have off: "ucast (?sum mod of_nat ?F) = (of_nat (?T mod ?F) :: u32)"
  proof -
    have "unat (?sum mod of_nat ?F) = ?T mod ?F"
      by (simp only: unat_mod_distrib Fw sum T) simp
    then show ?thesis
      by (metis of_nat_unat)
  qed
  have sec: "utc_ts d + ucast (?sum div of_nat ?F) = (of_nat (?T div ?F) :: u32)"
  proof -
    have "unat (?sum div of_nat ?F) = unat ?sum div ?F"
      by (simp only: unat_div_distrib Fw)
    then have "ucast (?sum div of_nat ?F) = (of_nat (unat ?sum div ?F) :: u32)"
      by (metis of_nat_unat)
    moreover have "?T div ?F = unat (utc_ts d) + unat ?sum div ?F"
      unfolding T sum by (simp add: F)
    ultimately show ?thesis
      by simp
  qed
  have small: "?T mod ?F < ?F" "?T div ?F < 2 ^ 32"
    using assms(3) F by (simp_all add: less_mult_imp_div_less)
  have small': "unat (of_nat (?T mod ?F) :: u32) = ?T mod ?F"
      "unat (of_nat (?T div ?F) :: u32) = ?T div ?F"
    using small F by (simp_all add: unat_of_nat less_trans [OF small(1)])
  show eq: "advance_clock t d =
      (d\<lparr>last_ov_ts := t, utc_ts := of_nat (?T div ?F), ts_offset := of_nat (?T mod ?F)\<rparr>,
       of_nat (clocks_to_nsec (?T mod ?F)))"
    unfolding advance_clock_def Let_def off sec
    using nsec_of_offset [of "of_nat (?T mod ?F)"] small small' by simp
  show "clocked base (fst (advance_clock t d))"
    unfolding eq clocked_def clock_def by (simp add: small small' del: of_nat_mod)
qed

section \<open>The handler over a capture\<close>

text \<open>The packets that the device delivers, one callback each.\<close>

fun handle_packets :: "ov_packet list \<Rightarrow> handler_data \<Rightarrow> error + handler_data" where
  "handle_packets [] d = Inr d"
| "handle_packets (p # ps) d = (case packet_handler p d of
       Inl e \<Rightarrow> Inl e | Inr (d', _) \<Rightarrow> handle_packets ps d')"

text \<open>What the record of a packet should say.\<close>

definition stamp :: "nat \<Rightarrow> ov_packet \<Rightarrow> pcap_packet" where
  "stamp base p = (let T = base + unat (pk_timestamp p) in
     \<lparr>ts_sec = of_nat (T div OV_TIMESTAMP_FREQ_HZ),
      ts_nsec = of_nat (clocks_to_nsec (T mod OV_TIMESTAMP_FREQ_HZ)),
      incl_len = of_nat (ov_packet_captured_size p),
      orig_len = ucast (pk_size p), captured = pk_data p\<rparr>)"

definition usb_packets :: "nat \<Rightarrow> ov_packet list \<Rightarrow> pcap_packet list" where
  "usb_packets base ps = map (stamp base) (filter (\<lambda>p. 0 < pk_size p) ps)"

text \<open>A packet that has data.\<close>

definition has_data :: "ov_packet \<Rightarrow> bool" where
  "has_data p \<longleftrightarrow> pk_data p \<noteq> []"

lemma captured_size_word: "unat (of_nat (ov_packet_captured_size p) :: u32) = ov_packet_captured_size p"
proof -
  have "ov_packet_captured_size p < 65536"
    using unat_u16_less [of "pk_size p"] captured_size_bound [of p 65535]
    by (simp add: OV_MAX_PACKET_SIZE_def)
  then show ?thesis
    by (simp add: unat_of_nat)
qed

lemma captured_size_pos: "0 < pk_size p \<Longrightarrow> 0 < ov_packet_captured_size p"
  by (simp add: ov_packet_captured_size_def OV_MAX_PACKET_SIZE_def word_less_nat_alt)

lemma stamp_good: "0 < pk_size p \<Longrightarrow> has_data p \<Longrightarrow> good_packet (stamp base p)"
  using captured_size_word [of p] captured_size_pos [of p]
  by (simp add: good_packet_def stamp_def Let_def has_data_def word_less_nat_alt)

text \<open>The fields that each operation leaves alone.\<close>

lemma filter_packet_frame:
  assumes "filter_packet p d = Inr d1"
  shows "debug d1 = debug d" "utc_ts d1 = utc_ts d" "ts_offset d1 = ts_offset d"
    "last_ov_ts d1 = last_ov_ts d"
  using assms
  by (auto simp: filter_packet_def Let_def queue_packet_def forward_packet_def discard_packet_def
      discard_queued_packets_def forward_queued_packets_def free_queued_packets_def split: if_splits)

lemma packet_handler_stamp:
  assumes "clocked base d" and "unat (last_ov_ts d) \<le> unat (pk_timestamp p)"
    and "base + unat (pk_timestamp p) < 2 ^ 32 * OV_TIMESTAMP_FREQ_HZ"
  shows "packet_handler p d =
      (let d1 = fst (advance_clock (pk_timestamp p) d)
       in if 0 < pk_size p
          then (case filter_packet (stamp base p) (d1\<lparr>debug := write_packet (stamp base p) (debug d)\<rparr>) of
                  Inl e \<Rightarrow> Inl e | Inr d2 \<Rightarrow> Inr (d2, \<not> f_open (out d2)))
          else Inr (d1, False))"
proof -
  have "snd (advance_clock (pk_timestamp p) d) = ts_nsec (stamp base p)"
    "utc_ts (fst (advance_clock (pk_timestamp p) d)) = ts_sec (stamp base p)"
    "debug (fst (advance_clock (pk_timestamp p) d)) = debug d"
    using advance_clock_exact(1) [OF assms] by (simp_all add: stamp_def Let_def)
  moreover have "stamp base p = \<lparr>ts_sec = ts_sec (stamp base p), ts_nsec = ts_nsec (stamp base p),
      incl_len = of_nat (ov_packet_captured_size p), orig_len = ucast (pk_size p), captured = pk_data p\<rparr>"
    by (simp add: stamp_def Let_def)
  ultimately show ?thesis
    by (simp add: packet_handler_def Let_def split_def)
qed

text \<open>The clock and the debug file do not matter to the queue and to the filter.\<close>

lemma tracks_cong:
  "out d = out d' \<Longrightarrow> queue d = queue d' \<Longrightarrow> st d = st d' \<Longrightarrow> tracks d pend = tracks d' pend"
  by (simp add: tracks_def queue_inv_def)

lemma future_cong:
  "st d = st d' \<Longrightarrow> filter_naks d = filter_naks d' \<Longrightarrow> filter_sofs d = filter_sofs d' \<Longrightarrow>
   future d pend ps = future d' pend ps"
  by (simp add: future_def)

lemma clocked_cong:
  "utc_ts d = utc_ts d' \<Longrightarrow> ts_offset d = ts_offset d' \<Longrightarrow> last_ov_ts d = last_ov_ts d' \<Longrightarrow>
   clocked base d = clocked base d'"
  by (simp add: clocked_def clock_def)

lemma advance_clock_frame:
  "out (fst (advance_clock t d)) = out d" "queue (fst (advance_clock t d)) = queue d"
  "st (fst (advance_clock t d)) = st d" "debug (fst (advance_clock t d)) = debug d"
  "filter_naks (fst (advance_clock t d)) = filter_naks d"
  "filter_sofs (fst (advance_clock t d)) = filter_sofs d"
  "last_ov_ts (fst (advance_clock t d)) = t"
  by (simp_all add: advance_clock_def Let_def)

definition in_order :: "nat \<Rightarrow> u64 \<Rightarrow> ov_packet list \<Rightarrow> bool" where
  "in_order base t ps \<longleftrightarrow> sorted (map unat (t # map pk_timestamp ps)) \<and>
     list_all (\<lambda>p. base + unat (pk_timestamp p) < 2 ^ 32 * OV_TIMESTAMP_FREQ_HZ) ps"

lemma in_order_Cons:
  "in_order base t (p # ps) \<longleftrightarrow> unat t \<le> unat (pk_timestamp p) \<and>
     base + unat (pk_timestamp p) < 2 ^ 32 * OV_TIMESTAMP_FREQ_HZ \<and> in_order base (pk_timestamp p) ps"
  by (auto simp: in_order_def)

definition debug_ok :: "handler_data \<Rightarrow> bool" where
  "debug_ok d \<longleftrightarrow> (f_open (debug d) \<longrightarrow> reliable (debug d))"

definition debug_grows :: "handler_data \<Rightarrow> pcap_packet list \<Rightarrow> handler_data \<Rightarrow> bool" where
  "debug_grows d ps d' \<longleftrightarrow> debug_ok d' \<and> f_open (debug d') = f_open (debug d) \<and>
     f_content (debug d') = f_content (debug d) @ (if f_open (debug d) then records ps else [])"

lemma debug_write:
  assumes "debug_ok d" and "good_packet p" and "debug d1 = write_packet p (debug d)"
  shows "debug_grows d [p] d1"
proof (cases "f_open (debug d)")
  case True
  then show ?thesis
    using assms write_packet_reliable [of "debug d" p] captured_bytes_nonempty [of p]
    by (simp add: debug_grows_def debug_ok_def) (simp add: reliable_def)
next
  case False
  then show ?thesis
    using assms by (simp add: debug_grows_def debug_ok_def)
qed

text \<open>What one callback does, and what a capture does.\<close>

definition captures ::
    "nat \<Rightarrow> handler_data \<Rightarrow> pcap_packet list \<Rightarrow> pcap_packet list \<Rightarrow> handler_data \<Rightarrow> pcap_packet list \<Rightarrow> bool"
  where
  "captures base d pend ps d1 pend1 \<longleftrightarrow>
     tracks d1 pend1 \<and> clocked base d1 \<and> debug_grows d ps d1 \<and>
     filter_naks d1 = filter_naks d \<and> filter_sofs d1 = filter_sofs d \<and>
     (\<exists>E. f_content (out d1) = f_content (out d) @ records E \<and>
       (\<forall>qs. future d pend (ps @ qs) = E @ future d1 pend1 qs))"

lemma handler_step:
  assumes "tracks d pend" "clocked base d" "in_order base (last_ov_ts d) (p # ps)" "has_data p"
    "debug_ok d"
  shows "\<exists>d1 pend1 b. packet_handler p d = Inr (d1, b) \<and> last_ov_ts d1 = pk_timestamp p \<and>
    captures base d pend (usb_packets base [p]) d1 pend1"
proof -
  let ?d1 = "fst (advance_clock (pk_timestamp p) d)"
  note order = assms(3) [unfolded in_order_Cons]
  have handler: "packet_handler p d =
      (if 0 < pk_size p
       then (case filter_packet (stamp base p) (?d1\<lparr>debug := write_packet (stamp base p) (debug d)\<rparr>) of
               Inl e \<Rightarrow> Inl e | Inr d2 \<Rightarrow> Inr (d2, \<not> f_open (out d2)))
       else Inr (?d1, False))"
    using packet_handler_stamp [OF assms(2)] order by (simp add: Let_def)
  have clocked: "clocked base ?d1"
    using advance_clock_exact(2) [OF assms(2)] order by blast
  have tracks: "tracks (?d1\<lparr>debug := x\<rparr>) pend" for x
    using assms(1) by (subst tracks_cong [of _ d]) (simp_all add: advance_clock_frame)
  have future: "future (?d1\<lparr>debug := x\<rparr>) pend qs = future d pend qs" for x qs
    by (rule future_cong) (simp_all add: advance_clock_frame)
  show ?thesis
  proof (cases "0 < pk_size p")
    case True
    let ?p = "stamp base p"
    let ?d2 = "?d1\<lparr>debug := write_packet ?p (debug d)\<rparr>"
    have good: "good_packet ?p"
      using True assms(4) by (rule stamp_good)
    obtain d3 pend3 E where step: "filter_packet ?p ?d2 = Inr d3" "tracks d3 pend3"
        "handled ?d2 pend E d3 pend3" "\<And>qs. future ?d2 pend (?p # qs) = E @ future d3 pend3 qs"
      using filter_step [OF tracks good] by blast
    note frame = filter_packet_frame [OF step(1)]
    have "debug_grows d [?p] d3"
      using assms(5) good frame(1) by (intro debug_write) simp_all
    moreover have "clocked base d3"
      using clocked frame by (subst clocked_cong [of _ ?d1]) simp_all
    moreover have "usb_packets base [p] = [?p]"
      using True by (simp add: usb_packets_def)
    ultimately have "captures base d pend (usb_packets base [p]) d3 pend3"
      using step(2-4) by (auto simp: captures_def handled_def future advance_clock_frame)
    then show ?thesis
      using True handler step(1) frame(4) by (auto simp: advance_clock_frame)
  next
    case False
    then have "usb_packets base [p] = []"
      by (simp add: usb_packets_def)
    moreover have "tracks ?d1 pend" "\<And>qs. future ?d1 pend qs = future d pend qs"
      using assms(1) by (auto simp: advance_clock_frame intro: future_cong cong: tracks_cong)
    ultimately have "captures base d pend (usb_packets base [p]) ?d1 pend"
      using assms(5) clocked
      by (simp add: captures_def debug_grows_def debug_ok_def advance_clock_frame)
    then show ?thesis
      using False handler by (auto simp: advance_clock_frame)
  qed
qed

lemma captures_trans:
  assumes "captures base d pend ps d1 pend1" and "captures base d1 pend1 qs d2 pend2"
  shows "captures base d pend (ps @ qs) d2 pend2"
proof -
  obtain E1 E2 where E: "f_content (out d1) = f_content (out d) @ records E1"
      "\<And>rs. future d pend (ps @ rs) = E1 @ future d1 pend1 rs"
      "f_content (out d2) = f_content (out d1) @ records E2"
      "\<And>rs. future d1 pend1 (qs @ rs) = E2 @ future d2 pend2 rs"
    using assms unfolding captures_def by blast
  have "f_content (out d2) = f_content (out d) @ records (E1 @ E2)"
    "\<And>rs. future d pend ((ps @ qs) @ rs) = (E1 @ E2) @ future d2 pend2 rs"
    using E by simp_all
  moreover have "debug_grows d (ps @ qs) d2"
    using assms by (simp add: captures_def debug_grows_def)
  ultimately show ?thesis
    using assms unfolding captures_def by blast
qed

lemma handle_packets_run:
  assumes "tracks d pend" "clocked base d" "in_order base (last_ov_ts d) ps" "list_all has_data ps"
    "debug_ok d"
  shows "\<exists>d' pend'. handle_packets ps d = Inr d' \<and> captures base d pend (usb_packets base ps) d' pend'"
  using assms
proof (induction ps arbitrary: d pend)
  case Nil
  then have "captures base d pend [] d pend"
    by (simp add: captures_def debug_grows_def)
  then show ?case
    by (auto simp: usb_packets_def)
next
  case (Cons p ps)
  obtain d1 pend1 b where step: "packet_handler p d = Inr (d1, b)" "last_ov_ts d1 = pk_timestamp p"
      "captures base d pend (usb_packets base [p]) d1 pend1"
    using handler_step [OF Cons.prems(1-3) _ Cons.prems(5)] Cons.prems(4) by auto
  have "\<exists>d' pend'. handle_packets ps d1 = Inr d' \<and> captures base d1 pend1 (usb_packets base ps) d' pend'"
    using step(2,3) Cons.prems(3,4)
    by (intro Cons.IH) (simp_all add: captures_def debug_grows_def in_order_Cons)
  moreover have "usb_packets base (p # ps) = usb_packets base [p] @ usb_packets base ps"
    by (simp add: usb_packets_def)
  ultimately show ?case
    using step(1,3) captures_trans by fastforce
qed

section \<open>The queue whatever happens to the files\<close>

definition well_queued :: "handler_data \<Rightarrow> bool" where
  "well_queued d \<longleftrightarrow> (case st d of
       FILTER_STATE_DEFAULT \<Rightarrow> queue d = []
     | FILTER_STATE_SPLIT \<Rightarrow> queue d = []
     | FILTER_STATE_OUT \<Rightarrow> length (queue d) = 1
     | FILTER_STATE_EXPECT_NAK \<Rightarrow> length (queue d) \<in> {1, 2})"

lemma well_queued_step:
  assumes "well_queued d" and "good_packet p"
  shows "\<exists>d'. filter_packet p d = Inr d' \<and> well_queued d'"
proof -
  note ops = queue_packet_def forward_packet_def discard_packet_def discard_queued_packets_def
    forward_queued_packets_def free_queued_packets_def
  have asserts: "st d \<noteq> FILTER_STATE_DEFAULT \<or> queue d = []" "st d \<noteq> FILTER_STATE_SPLIT \<or> queue d = []"
      "0 < incl_len p \<and> captured p \<noteq> []"
    using assms by (auto simp: well_queued_def good_packet_def split: filter_state.splits)
  consider "hd (captured p) = USB_PID_TOKEN_SOF" | "hd (captured p) \<noteq> USB_PID_TOKEN_SOF"
    by blast
  then show ?thesis
    using assms(1) asserts
    by cases (cases "st d"; auto simp: filter_packet_def Let_def well_queued_def ops)+
qed

lemma well_queued_run:
  "well_queued d \<Longrightarrow> list_all good_packet ps \<Longrightarrow> \<exists>d'. filter_packets ps d = Inr d' \<and> well_queued d'"
proof (induction ps arbitrary: d)
  case (Cons p ps)
  then show ?case
    using well_queued_step [of d p] by fastforce
qed simp

section \<open>Properties\<close>

definition test_file :: ofile where
  "test_file = \<lparr>f_open = True, f_content = [], f_fwrite_ok = \<lambda>_ _. True, f_fflush_ok = \<lambda>_. True\<rparr>"

definition test_handler :: handler_data where
  "test_handler = \<lparr>out = test_file, debug = test_file\<lparr>f_open := False\<rparr>, utc_ts = 5, ts_offset = 59999999,
     last_ov_ts = 0, filter_naks = True, filter_sofs = True, st = FILTER_STATE_DEFAULT, queue = []\<rparr>"

definition test_base :: nat where "test_base = 5 * 60000000 + 59999999"

definition usb_packet :: "u64 \<Rightarrow> u8 list \<Rightarrow> ov_packet" where
  "usb_packet t bs = \<lparr>pk_magic = 0xa0, pk_flags = 0, pk_size = of_nat (length bs), pk_timestamp = t,
     pk_data = bs\<rparr>"

lemma reliable_test_file [simp]: "reliable test_file"
  by (simp add: reliable_def test_file_def)

lemma test_handler_fields [simp]:
  "st test_handler = FILTER_STATE_DEFAULT" "queue test_handler = []" "reliable (out test_handler)"
  "debug_ok test_handler" "f_content (out test_handler) = []" "clocked test_base test_handler"
  "last_ov_ts test_handler = 0" "filter_naks test_handler" "filter_sofs test_handler"
  by (simp_all add: test_handler_def debug_ok_def clocked_def clock_def test_base_def
      OV_TIMESTAMP_FREQ_HZ_def) (simp_all add: test_file_def)

text \<open>
  C8: What \<open>packet_handler\<close> and the filter behind it write in a whole capture, when the files do
  not break.  The output file gets, in order, one pcap record for each USB packet that the
  look-ahead specification \<open>kept\<close> keeps: everything except the transactions that are refused with
  NAK or cut off by the end of the capture (if NAKs are filtered) and the SOFs between transactions
  (if SOFs are filtered).  The time of a record is the exact capture time of the packet, in clocks
  of 60 MHz since the start, converted to seconds and nanoseconds rounded up.  The debug file gets
  the records of all packets.
\<close>

theorem capture_output_exact:
  assumes "st d = FILTER_STATE_DEFAULT" and "queue d = []" and "reliable (out d)" and "debug_ok d"
    and "clocked base d" and "in_order base (last_ov_ts d) ps" and "list_all has_data ps"
  shows "\<exists>d'. handle_packets ps d = Inr d' \<and>
    f_content (out (discard_queued_packets d')) = f_content (out d) @
      records (kept (filter_naks d) (filter_sofs d) False (usb_packets base ps)) \<and>
    f_content (debug d') = f_content (debug d) @
      (if f_open (debug d) then records (usb_packets base ps) else [])"
proof -
  obtain d' pend' where run: "handle_packets ps d = Inr d'"
      "captures base d [] (usb_packets base ps) d' pend'"
    using handle_packets_run [OF tracks_start [OF assms(1-3)] assms(5-7,4)] by blast
  have "future d [] (usb_packets base ps) =
      kept (filter_naks d) (filter_sofs d) False (usb_packets base ps)"
    using assms(1) by (simp add: future_def)
  moreover have "f_content (out d') @ records (future d' pend' []) =
      f_content (out d) @ records (future d [] (usb_packets base ps))"
    using run(2) unfolding captures_def by (metis append.assoc append_Nil2 records_simps(3))
  ultimately show ?thesis
    using run discard_at_end [of d' pend'] by (auto simp: captures_def debug_grows_def)
qed

text \<open>An IN that is refused, a SOF between transactions, and an IN with its data and handshake.\<close>

definition test_capture :: "ov_packet list" where
  "test_capture = [usb_packet 10 [0x69, 1, 2], usb_packet 20 [0x5A], usb_packet 30 [0xA5, 0, 0],
     usb_packet 60000000 [0x69, 1, 2], usb_packet 60000001 [0xC3, 7], usb_packet 60000002 [0xD2]]"

lemma test_capture_ok: "in_order test_base 0 test_capture" "list_all has_data test_capture"
  by (simp_all add: in_order_def test_capture_def test_base_def usb_packet_def
      OV_TIMESTAMP_FREQ_HZ_def has_data_def)

lemma test_capture_kept:
  "kept True True False (usb_packets test_base test_capture) =
     map (stamp test_base) (drop 3 test_capture)"
  by (simp add: test_capture_def usb_packets_def usb_packet_def stamp_def Let_def
      pid_class_defs pid_defs pid_def)

theorem capture_output_exact_witness:
  "\<exists>d'. handle_packets test_capture test_handler = Inr d' \<and>
    f_content (out (discard_queued_packets d')) =
      records (map (stamp test_base) (drop 3 test_capture))"
  using capture_output_exact [of test_handler test_base test_capture]
  by (auto simp: test_capture_ok test_capture_kept)



text \<open>
  C15: Nothing is reordered, duplicated or invented by the filter, and whatever it drops is a token,
  a data packet, a NAK or a SOF: with any options, the output is the records of a subsequence of the
  packets that has all the other packets.  With both options off it has every packet.
\<close>

theorem filter_output_subsequence:
  assumes "st d = FILTER_STATE_DEFAULT" and "queue d = []" and "reliable (out d)"
    and "list_all good_packet ps"
  shows "\<exists>d' qs. filter_packets ps d = Inr d' \<and>
    f_content (out (discard_queued_packets d')) = f_content (out d) @ records qs \<and>
    subseq qs ps \<and> filter untouchable qs = filter untouchable ps \<and>
    (filter_naks d \<or> filter_sofs d \<or> qs = ps)"
proof -
  let ?qs = "kept (filter_naks d) (filter_sofs d) False ps"
  have "filter_naks d \<or> filter_sofs d \<or> ?qs = ps"
    using kept_nothing_filtered [of False ps] by (cases "filter_naks d"; cases "filter_sofs d") auto
  then show ?thesis
    using filter_packets_kept [OF assms] kept_subseq kept_untouchable by blast
qed

theorem filter_output_subsequence_witness:
  "\<exists>d'. filter_packets (map (stamp 0) test_capture)
      (test_handler\<lparr>filter_naks := False, filter_sofs := False\<rparr>) = Inr d' \<and>
     f_content (out (discard_queued_packets d')) = records (map (stamp 0) test_capture)"
proof -
  have "list_all good_packet (map (stamp 0) test_capture)"
    by (simp add: test_capture_def stamp_good has_data_def usb_packet_def)
  then show ?thesis
    using filter_output_subsequence
      [of "test_handler\<lparr>filter_naks := False, filter_sofs := False\<rparr>" "map (stamp 0) test_capture"]
    by auto
qed

text \<open>
  C16: The clock of \<open>packet_handler\<close>.  While the capture time fits in 32 bits of seconds and the
  device's time stamps do not go back, the 32-bit and 64-bit arithmetic is exact: the capture time
  advances by the difference of the time stamps, the remainder stays below one second, and the
  nanoseconds are the remainder times 50/3 rounded up, below 1000000000.
\<close>

theorem capture_clock_exact:
  assumes "unat (ts_offset d) < OV_TIMESTAMP_FREQ_HZ" and "unat (last_ov_ts d) \<le> unat t"
    and "clock d + unat t < 2 ^ 32 * OV_TIMESTAMP_FREQ_HZ"
    and "unat (last_ov_ts d) \<le> clock d"
  shows "case advance_clock t d of (d', nsec) \<Rightarrow>
    clock d' = clock d + (unat t - unat (last_ov_ts d)) \<and>
    unat (ts_offset d') < OV_TIMESTAMP_FREQ_HZ \<and> last_ov_ts d' = t \<and>
    unat nsec = clocks_to_nsec (unat (ts_offset d')) \<and> unat nsec < 1000000000"
proof -
  let ?base = "clock d - unat (last_ov_ts d)"
  let ?m = "(?base + unat t) mod OV_TIMESTAMP_FREQ_HZ"
  have c: "clocked ?base d" "?base + unat t < 2 ^ 32 * OV_TIMESTAMP_FREQ_HZ"
    using assms by (simp_all add: clocked_def)
  note exact = advance_clock_exact [OF c(1) assms(2) c(2)]
  have m: "?m < OV_TIMESTAMP_FREQ_HZ"
    by (simp add: OV_TIMESTAMP_FREQ_HZ_def)
  then have "unat (of_nat ?m :: u32) = ?m"
    by (simp add: unat_of_nat OV_TIMESTAMP_FREQ_HZ_def)
  moreover have "unat (of_nat (clocks_to_nsec ?m) :: u32) = clocks_to_nsec ?m"
    using clocks_to_nsec_bound [OF m] by (simp add: unat_of_nat)
  ultimately show ?thesis
    using exact clocks_to_nsec_bound [OF m] m assms(2,4)
    by (simp add: clocked_def del: of_nat_mod)
qed

theorem capture_clock_exact_witness:
  "case advance_clock 3 test_handler of (d', nsec) \<Rightarrow>
     clock d' = 6 * 60000000 + 2 \<and> nsec = 34"
proof -
  have "clock test_handler = 5 * 60000000 + 59999999"
    by (simp add: clock_def test_handler_def OV_TIMESTAMP_FREQ_HZ_def)
  moreover have "unat (ts_offset test_handler) < OV_TIMESTAMP_FREQ_HZ"
    by (simp add: test_handler_def OV_TIMESTAMP_FREQ_HZ_def)
  moreover have "snd (advance_clock 3 test_handler) = 34"
    by (simp add: advance_clock_def test_handler_def OV_TIMESTAMP_FREQ_HZ_def)
  ultimately show ?thesis
    using capture_clock_exact [of test_handler 3]
    by (simp add: OV_TIMESTAMP_FREQ_HZ_def split: prod.splits)
qed

end
