(* ===== verification/Capture.thy ===== *)
theory Capture imports
  Cha_Loop_Spec
  Decoder_Spec
  Filter_Spec
begin

text \<open>
  The composition: USB transfers go through the capture loop and the frame decoder into the packet
  handler of \<open>ovextcap\<close>, and end as records in a pcap file.
\<close>

unbundle bit_operations_syntax

section \<open>Transfers as chunks of the stream\<close>

text \<open>What a transfer delivers to the decoder: its USB packets without their two header bytes.\<close>

function payloads :: "nat \<Rightarrow> u8 list \<Rightarrow> u8 list list" where
  "payloads mps buf =
     (if buf = [] \<or> mps = 0 then []
      else let n = min (length buf) mps
           in (if 2 < n then [take (n - 2) (drop 2 buf)] else []) @ payloads mps (drop n buf))"
  by pat_completeness auto
termination
  by (relation "measure (\<lambda>(mps, buf). length buf)") auto

declare payloads.simps [simp del]

text \<open>Taking a transfer out of flight commutes with the callbacks.\<close>

definition idle_at :: "nat \<Rightarrow> 'u loop_data \<Rightarrow> 'u loop_data" where
  "idle_at i d = d\<lparr>lp_transfer := (lp_transfer d)[i := Idle]\<rparr>"

lemma idle_at_fields [simp]:
  "lp_abort (idle_at i d) = lp_abort d" "lp_state (idle_at i d) = lp_state d" "lp_cha (idle_at i d) = lp_cha d"
  "lp_callback (idle_at i d) = lp_callback d" "max_count (idle_at i d) = max_count d"
  "lp_count (idle_at i d) = lp_count d" "lp_user (idle_at i d) = lp_user d"
  by (simp_all add: idle_at_def)

lemma idle_at_break: "idle_at i (cha_loop_break d) = cha_loop_break (idle_at i d)"
  by (simp add: idle_at_def cha_loop_break_def cha_loop_cancel_transfer_def map_update request_cancel_def)

lemma idle_at_call_user: "idle_at i (call_user p d) = call_user p (idle_at i d)"
proof -
  have "idle_at i (d\<lparr>lp_abort := x\<rparr>) = (idle_at i d)\<lparr>lp_abort := x\<rparr>"
    "idle_at i (d\<lparr>lp_user := u\<rparr>) = (idle_at i d)\<lparr>lp_user := u\<rparr>" for x u
    by (simp_all add: idle_at_def)
  then show ?thesis
    by (auto simp: call_user_def idle_at_break split: option.split sum.split)
qed

lemma idle_at_count: "idle_at i (count_packet d) = count_packet (idle_at i d)"
  by (simp add: idle_at_def count_packet_def)

lemma idle_at_state: "idle_at i (d\<lparr>lp_state := s\<rparr>) = (idle_at i d)\<lparr>lp_state := s\<rparr>"
  by (simp add: idle_at_def)

interpretation idle: decoder_symmetry cha_loop_packet_callback cha_loop_bus_frame_callback "idle_at i" for i
proof unfold_locales
  fix p :: ov_packet and d :: "'a loop_data" and i a v
  show "idle_at i (cha_loop_packet_callback p d) = cha_loop_packet_callback p (idle_at i d)"
    by (simp add: cha_loop_packet_callback_def Let_def idle_at_call_user [symmetric] idle_at_count [symmetric]
        idle_at_state [symmetric])
  show "idle_at i (cha_loop_bus_frame_callback a v d) = cha_loop_bus_frame_callback a v (idle_at i d)"
    by (simp add: cha_loop_bus_frame_callback_def idle_at_state [symmetric])
qed

lemma take_out_moved: "take_out i l = idle.frame_moved i l"
  by (simp add: take_out_def on_loop_def idle.frame_moved_def idle.moved_def idle_at_def)

lemma feed_obeys:
  "feed_chunks frame_decoder_loop l cs = (r, l') \<Longrightarrow> ops (fd_pd l) = loop_ops \<Longrightarrow>
   ops (fd_pd l') = loop_ops \<and> obeys (loop_data l) (loop_data l')"
proof (induction cs arbitrary: l)
  case (Cons c cs)
  obtain r1 l1 where one: "frame_decoder_loop l c = (r1, l1)"
    by fastforce
  have "ops (fd_pd l1) = loop_ops \<and> obeys (loop_data l) (loop_data l1)"
    using loop_client.frame_loop_user [OF one] Cons.prems(2) by (simp add: loop_client_ops loop_data_def)
  then show ?case
    using Cons.IH [of l1] Cons.prems one obeys_trans by (cases r1) auto
qed (simp add: obeys_refl)

lemma feed_moved:
  "ops (fd_pd l) = loop_ops \<Longrightarrow>
   feed_chunks frame_decoder_loop (take_out i l) cs = map_prod id (take_out i) (feed_chunks frame_decoder_loop l cs)"
proof (induction cs arbitrary: l)
  case (Cons c cs)
  obtain r1 l1 where one: "frame_decoder_loop l c = (r1, l1)"
    by fastforce
  have ops: "ops (fd_pd l) = idle.symmetric_ops"
    using Cons.prems by (simp add: loop_ops_def idle.symmetric_ops_def)
  have "frame_decoder_loop (take_out i l) c = (r1, take_out i l1)" "ops (fd_pd l1) = loop_ops"
    using idle.frame_loop_moved [OF ops, of i c] one
    by (simp_all add: take_out_moved loop_ops_def idle.symmetric_ops_def)
  then show ?case
    using Cons.IH [of l1] one by (cases r1) simp_all
qed simp

text \<open>A transfer that does not stop the loop feeds its payloads to the decoder.\<close>

lemma transfer_packets_feed:
  assumes "0 < mps"
  shows "ops (fd_pd l) = loop_ops \<Longrightarrow> feed_chunks frame_decoder_loop l (payloads mps buf) = (Inr (), l') \<Longrightarrow>
    lp_state (loop_data l') = RUNNING \<Longrightarrow> lp_abort (loop_data l') = None \<Longrightarrow>
    transfer_packets mps buf l = Some (Inr (), l')"
proof (induction buf arbitrary: l rule: measure_induct_rule [of length])
  case (less buf)
  let ?n = "min (length buf) mps"
  let ?c = "take (?n - 2) (drop 2 buf)"
  have run: "lp_state (loop_data l) = RUNNING"
    using feed_obeys [OF less.prems(2,1)] less.prems(3) by (simp add: obeys_def)
  show ?case
  proof (cases "buf = []")
    case True
    then show ?thesis
      using less.prems(2) by (simp add: payloads.simps transfer_packets.simps)
  next
    case nonempty: False
    then have shorter: "length (drop ?n buf) < length buf"
      using assms by simp
    show ?thesis
    proof (cases "2 < ?n")
      case False
      then have "payloads mps buf = payloads mps (drop ?n buf)"
        using nonempty assms by (subst payloads.simps) (simp add: Let_def del: min_less_iff_conj)
      then have "transfer_packets mps (drop ?n buf) l = Some (Inr (), l')"
        using less.IH [OF shorter] less.prems by metis
      then show ?thesis
        using run nonempty False by (subst transfer_packets.simps) (simp add: Let_def del: min_less_iff_conj)
    next
      case True
      then have "payloads mps buf = ?c # payloads mps (drop ?n buf)"
        using nonempty assms by (subst payloads.simps) (simp add: Let_def del: min_less_iff_conj)
      then have "feed_chunks frame_decoder_loop l (?c # payloads mps (drop ?n buf)) = (Inr (), l')"
        using less.prems(2) by metis
      then obtain l1 where l1: "frame_decoder_loop l ?c = (Inr (), l1)"
          "feed_chunks frame_decoder_loop l1 (payloads mps (drop ?n buf)) = (Inr (), l')"
        by (auto split: prod.splits sum.splits)
      have ops: "ops (fd_pd l1) = loop_ops"
        using feed_obeys [of l "[?c]" "Inr ()" l1] l1(1) less.prems(1) by simp
      have "lp_abort (loop_data l1) = None"
        using feed_obeys [OF l1(2) ops] less.prems(4) by (auto simp: obeys_def)
      moreover have "transfer_packets mps (drop ?n buf) l1 = Some (Inr (), l')"
        using less.IH [OF shorter ops l1(2)] less.prems(3,4) by blast
      ultimately show ?thesis
        using run nonempty True l1(1)
        by (subst transfer_packets.simps) (simp add: Let_def frame_decoder_proc_def del: min_less_iff_conj)
    qed
  qed
qed

lemma completed_transfer:
  assumes "loop_inv l" and "i < transfers_count" and "0 < max_packet_size usb"
    and "feed_chunks frame_decoder_loop l (payloads (max_packet_size usb) buf) = (Inr (), l')"
    and "lp_state (loop_data l') = RUNNING" and "lp_abort (loop_data l') = None"
    and "submit_retry answers = Some rc" and "0 \<le> rc"
  shows "cha_loop_transfer_callback usb i LIBUSB_TRANSFER_COMPLETED buf answers l = Some (Inr (), l')"
    and "loop_inv l'" and "may_end LIBUSB_TRANSFER_COMPLETED (lp_transfer (loop_data l) ! i)"
proof -
  have ops: "ops (fd_pd l) = loop_ops"
    using loop_invD(1) [OF assms(1)] by (simp add: sound_def)
  note o = feed_obeys [OF assms(4) ops]
  have run: "lp_state (loop_data l) = RUNNING" and same: "lp_transfer (loop_data l') = lp_transfer (loop_data l)"
    using o assms(5) by (auto simp: obeys_def)
  have all: "lp_transfer (loop_data l') = replicate transfers_count In_flight"
    using loop_invD(4) [OF assms(1) run] same by (simp add: all_running_def)
  have "feed_chunks frame_decoder_loop (take_out i l) (payloads (max_packet_size usb) buf) = (Inr (), take_out i l')"
    using feed_moved [OF ops, of i] assms(4) by simp
  moreover have "ops (fd_pd (take_out i l)) = loop_ops" "lp_state (loop_data (take_out i l')) = RUNNING"
    "lp_abort (loop_data (take_out i l')) = None"
    using ops assms(5,6) by (simp_all add: take_out_def)
  ultimately have tp: "transfer_packets (max_packet_size usb) buf (take_out i l) = Some (Inr (), take_out i l')"
    using transfer_packets_feed [OF assms(3)] by blast
  have "resubmit usb i answers (loop_data (take_out i l')) = Some (loop_data l')"
    using assms(2,5,7,8) all
    by (simp add: resubmit_def take_out_def Let_def) (simp add: list_update_same_conv)
  moreover have "on_loop (\<lambda>_. loop_data l') (take_out i l') = l'"
    by (simp add: on_loop_def take_out_def loop_data_def)
  ultimately show cb: "cha_loop_transfer_callback usb i LIBUSB_TRANSFER_COMPLETED buf answers l = Some (Inr (), l')"
    using tp by (simp add: cha_loop_transfer_callback_def take_out_def Let_def)
  show may: "may_end LIBUSB_TRANSFER_COMPLETED (lp_transfer (loop_data l) ! i)"
    using all same assms(2) by (simp add: may_end_def)
  have "i < length (lp_transfer (loop_data l))"
    using all same assms(2) by simp
  then show "loop_inv l'"
    using transfer_callback_settled [OF assms(1) _ may cb] by blast
qed

section \<open>A series of transfers\<close>

text \<open>Completed transfers: the index, the filled part of the buffer, what the submissions return.\<close>

type_synonym completed = "nat \<times> u8 list \<times> int list"

fun run_transfers :: "usb \<Rightarrow> completed list \<Rightarrow> 'u cha_loop \<Rightarrow> 'u cha_loop option" where
  "run_transfers usb [] l = Some l"
| "run_transfers usb ((i, buf, answers) # ts) l =
     (if i < length (lp_transfer (loop_data l)) \<and> may_end LIBUSB_TRANSFER_COMPLETED (lp_transfer (loop_data l) ! i)
      then case cha_loop_transfer_callback usb i LIBUSB_TRANSFER_COMPLETED buf answers l of
          Some (Inr _, l') \<Rightarrow> run_transfers usb ts l'
        | _ \<Rightarrow> None
      else None)"

lemma run_transfers_reaches: "run_transfers usb ts l = Some l' \<Longrightarrow> loop_reaches usb l l'"
proof (induction usb ts l rule: run_transfers.induct)
  case (1 usb l)
  then show ?case
    by (simp add: reaches_here)
next
  case (2 usb i buf answers ts l)
  then obtain l1 where one: "i < length (lp_transfer (loop_data l))"
      "may_end LIBUSB_TRANSFER_COMPLETED (lp_transfer (loop_data l) ! i)"
      "cha_loop_transfer_callback usb i LIBUSB_TRANSFER_COMPLETED buf answers l = Some (Inr (), l1)"
      "run_transfers usb ts l1 = Some l'"
    by (auto split: if_splits option.splits sum.splits)
  then have "loop_reaches usb l1 l'"
    using "2.IH" by simp
  then show ?case
    using loop_step.transfer_step [OF one(1-3)] unfolding loop_reaches_def by (rule converse_rtranclp_into_rtranclp [rotated])
qed

text \<open>A transfer that is submitted again.\<close>

definition accepted :: "completed \<Rightarrow> bool" where
  "accepted t = (case t of (i, buf, answers) \<Rightarrow> i < transfers_count \<and>
     (case submit_retry answers of None \<Rightarrow> False | Some rc \<Rightarrow> 0 \<le> rc))"

definition stream_chunks :: "nat \<Rightarrow> completed list \<Rightarrow> u8 list list" where
  "stream_chunks mps ts = concat (map (\<lambda>(i, buf, answers). payloads mps buf) ts)"

lemma feed_chunks_append:
  "feed_chunks feed s (cs @ ds) = (case feed_chunks feed s cs of
     (Inl e, s') \<Rightarrow> (Inl e, s') | (Inr _, s') \<Rightarrow> feed_chunks feed s' ds)"
  by (induction cs arbitrary: s) (auto split: prod.split sum.split)

lemma run_transfers_feed:
  assumes "0 < max_packet_size usb" and "lp_state (loop_data l') = RUNNING" and "lp_abort (loop_data l') = None"
  shows "loop_inv l \<Longrightarrow> list_all accepted ts \<Longrightarrow>
    feed_chunks frame_decoder_loop l (stream_chunks (max_packet_size usb) ts) = (Inr (), l') \<Longrightarrow>
    run_transfers usb ts l = Some l' \<and> loop_inv l'"
proof (induction ts arbitrary: l)
  case Nil
  then show ?case
    by (simp add: stream_chunks_def)
next
  case (Cons t ts)
  obtain i buf answers where t: "t = (i, buf, answers)"
    by (cases t)
  obtain l1 where l1: "feed_chunks frame_decoder_loop l (payloads (max_packet_size usb) buf) = (Inr (), l1)"
      "feed_chunks frame_decoder_loop l1 (stream_chunks (max_packet_size usb) ts) = (Inr (), l')"
    using Cons.prems(3) by (auto simp: t stream_chunks_def feed_chunks_append split: prod.splits sum.splits)
  have ops: "ops (fd_pd l) = loop_ops"
    using loop_invD(1) [OF Cons.prems(1)] by (simp add: sound_def)
  have ops1: "ops (fd_pd l1) = loop_ops"
    using feed_obeys [OF l1(1) ops] by simp
  have run: "lp_state (loop_data l1) = RUNNING" "lp_abort (loop_data l1) = None"
    using feed_obeys [OF l1(2) ops1] assms(2,3) by (auto simp: obeys_def)
  obtain rc where rc: "i < transfers_count" "submit_retry answers = Some rc" "0 \<le> rc"
    using Cons.prems(2) by (auto simp: t accepted_def split: option.splits)
  note one = completed_transfer [OF Cons.prems(1) rc(1) assms(1) l1(1) run rc(2,3)]
  show ?case
    using Cons.IH [OF one(2) _ l1(2)] Cons.prems(2) one loop_invD(2) [OF Cons.prems(1)] rc(1)
    by (simp add: t)
qed

section \<open>The packets of a stream\<close>

text \<open>The packets that the callback gets; the storage keeps the end of the packet before.\<close>

fun packets_of :: "u64 \<Rightarrow> u8 list \<Rightarrow> wire_item list \<Rightarrow> ov_packet list" where
  "packets_of cum store [] = []"
| "packets_of cum store (Filler # is) = packets_of cum store is"
| "packets_of cum store (Pkt w # is) =
     decoded w cum store # packets_of (cum + le_value (w_delta w)) (w_data w @ drop (length (w_data w)) store) is"

lemma deliver_packets:
  assumes "ops_packet (ops pd) = Some f"
  shows "user_data (fold deliver items pd) =
    fold f (packets_of (cumulative_ts pd) (pk_data (packet pd)) items) (user_data pd)"
  using assms
proof (induction items arbitrary: pd)
  case (Cons i items)
  show ?case
  proof (cases i)
    case Filler
    then show ?thesis
      using Cons by simp
  next
    case (Pkt w)
    have "ops_packet (ops (packet_finish (ready w pd))) = Some f"
      using Cons.prems by (simp add: ready_def)
    then show ?thesis
      using Cons.prems
      by (subst fold.simps, subst comp_apply, subst Cons.IH)
        (simp_all add: Pkt packet_finish_def call_packet_def ready_def decoded_def)
  qed
qed simp

text \<open>Bus frames that do not stop the loop.\<close>

fun quiet :: "reg \<Rightarrow> wire_frame \<Rightarrow> bool" where
  "quiet r (Sdram p) = True"
| "quiet r (Bus a v c) = (\<not> (a AND NOT 0x8000 = addr r SDRAM_HOST_READ_GO \<and> v = 0))"

lemma frames_quiet:
  assumes "list_all frame_ok fs" and "list_all (quiet r) fs" and "fd_state fd = NEED_FRAME_MAGIC"
    and "ops (fd_pd fd) = loop_ops" and "cha_reg (lp_cha (user_data (fd_pd fd))) = r"
    and "packet_bytes (fd_pd fd) (concat (map frame_payload fs)) = (Inr (), pd')"
  shows "\<exists>fd'. frame_bytes fd (concat (map encode_frame fs)) = (Inr (), fd') \<and>
           fd_state fd' = NEED_FRAME_MAGIC \<and> fd_pd fd' = pd'"
  using assms
proof (induction fs arbitrary: fd)
  case (Cons f fs)
  show ?case
  proof (cases f)
    case (Sdram p)
    then obtain pd1 where p: "packet_bytes (fd_pd fd) p = (Inr (), pd1)"
      and rest: "packet_bytes pd1 (concat (map frame_payload fs)) = (Inr (), pd')"
      using Cons.prems(6) by (auto simp: run_bytes_append split: prod.splits sum.splits)
    obtain fd1 where fd1: "frame_bytes fd (encode_frame (Sdram p)) = (Inr (), fd1)"
      "fd_state fd1 = NEED_FRAME_MAGIC" "fd_pd fd1 = pd1"
      using frame_bytes_Sdram [OF _ Cons.prems(3) p] Cons.prems(1) Sdram by auto
    have "ops pd1 = loop_ops" "obeys (user_data (fd_pd fd)) (user_data pd1)"
      using loop_client.packet_bytes_user [OF p] Cons.prems(4) by (simp_all add: loop_client_ops)
    then show ?thesis
      using Cons.IH [of fd1] Cons.prems fd1 rest Sdram
      by (auto simp: run_bytes_append obeys_def simp del: encode_frame.simps)
  next
    case (Bus a v c)
    have "cha_loop_bus_frame_callback a v (user_data (fd_pd fd)) = user_data (fd_pd fd)"
      using Cons.prems(2,5) Bus by (auto simp: cha_loop_bus_frame_callback_def)
    then obtain fd1 where fd1: "frame_bytes fd (encode_frame (Bus a v c)) = (Inr (), fd1)"
      "fd_state fd1 = NEED_FRAME_MAGIC" "fd_pd fd1 = fd_pd fd"
      using frame_bytes_Bus [OF Cons.prems(3), of a v c] Cons.prems(4) by (auto simp: loop_ops_def)
    then show ?thesis
      using Cons.IH [of fd1] Cons.prems Bus
      by (auto simp: run_bytes_append simp del: encode_frame.simps)
  qed
qed (auto intro!: exI)

section \<open>The packet handler as a callback\<close>

definition not_last :: "ov_packet \<Rightarrow> bool" where
  "not_last p \<longleftrightarrow> pk_flags p AND OV_FLAGS_HF0_LAST = 0"

lemma handler_callback:
  assumes "packet_handler p (lp_user d) = Inr (h, b)" and "reliable (out h)"
    and "lp_callback d = Some packet_handler" and "lp_state d = RUNNING" and "lp_abort d = None"
    and "max_count d \<le> 0" and "not_last p"
  shows "cha_loop_packet_callback p d = d\<lparr>lp_user := h\<rparr>"
proof -
  have "\<not> b"
    using assms(1,2)
    by (auto simp: packet_handler_def Let_def reliable_def split: prod.splits if_splits sum.splits)
  then show ?thesis
    using assms by (simp add: cha_loop_packet_callback_def call_user_def count_packet_def not_last_def Let_def)
qed

lemma handler_fold:
  assumes "tracks (lp_user d) pend" and "clocked base (lp_user d)" and "in_order base (last_ov_ts (lp_user d)) ps"
    and "list_all has_data ps" and "list_all not_last ps" and "debug_ok (lp_user d)"
    and "lp_callback d = Some packet_handler" and "lp_state d = RUNNING" and "lp_abort d = None"
    and "max_count d \<le> 0"
  shows "\<exists>h pend'. fold cha_loop_packet_callback ps d = d\<lparr>lp_user := h\<rparr> \<and>
    captures base (lp_user d) pend (usb_packets base ps) h pend'"
  using assms
proof (induction ps arbitrary: d pend)
  case Nil
  then have "captures base (lp_user d) pend [] (lp_user d) pend"
    by (simp add: captures_def debug_grows_def)
  then show ?case
    by (intro exI [of _ "lp_user d"] exI [of _ pend]) (simp add: usb_packets_def)
next
  case (Cons p ps)
  obtain d1 pend1 b where step: "packet_handler p (lp_user d) = Inr (d1, b)" "last_ov_ts d1 = pk_timestamp p"
      "captures base (lp_user d) pend (usb_packets base [p]) d1 pend1"
    using handler_step [OF Cons.prems(1-3) _ Cons.prems(6)] Cons.prems(4) by auto
  have "reliable (out d1)"
    using step(3) by (simp add: captures_def tracks_def queue_inv_def)
  then have one: "cha_loop_packet_callback p d = d\<lparr>lp_user := d1\<rparr>"
    using handler_callback [OF step(1)] Cons.prems by simp
  obtain h pend' where rest: "fold cha_loop_packet_callback ps (d\<lparr>lp_user := d1\<rparr>) = d\<lparr>lp_user := d1, lp_user := h\<rparr>"
      "captures base d1 pend1 (usb_packets base ps) h pend'"
    using Cons.IH [of "d\<lparr>lp_user := d1\<rparr>" pend1] step(2,3) Cons.prems
    by (auto simp: captures_def debug_grows_def in_order_Cons)
  have "usb_packets base (p # ps) = usb_packets base [p] @ usb_packets base ps"
    by (simp add: usb_packets_def)
  then show ?case
    using one rest captures_trans [OF step(3) rest(2)] by auto
qed

section \<open>A whole capture\<close>

text \<open>
  The loop as \<open>cha_loop_init\<close> and \<open>cha_loop_run\<close> leave it before the first event: the decoder is
  fresh and the three transfers are in flight.
\<close>

definition fresh_loop :: "'u cha_loop \<Rightarrow> bool" where
  "fresh_loop l \<longleftrightarrow> loop_inv l \<and> frame_decoder_safe l \<and> lp_state (loop_data l) = RUNNING \<and> fd_state l = NEED_FRAME_MAGIC \<and>
     cumulative_ts (fd_pd l) = 0 \<and> pd_state (fd_pd l) = NEED_PACKET_MAGIC"

lemma loop_begun_running:
  assumes "loop_ready l" and "lp_state (loop_data l) = RUNNING" and "\<forall>i<3. 0 \<le> answer i"
  shows "lp_state (loop_data (loop_begun usb answer cnt l)) = RUNNING"
    and "lp_callback (loop_data (loop_begun usb answer cnt l)) = lp_callback (loop_data l)"
    and "max_count (loop_data (loop_begun usb answer cnt l)) = cnt"
    and "lp_cha (loop_data (loop_begun usb answer cnt l)) = lp_cha (loop_data l)"
proof -
  have "\<not> answer 0 < 0" "\<not> answer 1 < 0" "\<not> answer 2 < 0"
    using assms(3) by (simp_all add: not_less)
  then show "lp_state (loop_data (loop_begun usb answer cnt l)) = RUNNING"
    "lp_callback (loop_data (loop_begun usb answer cnt l)) = lp_callback (loop_data l)"
    "max_count (loop_data (loop_begun usb answer cnt l)) = cnt"
    "lp_cha (loop_data (loop_begun usb answer cnt l)) = lp_cha (loop_data l)"
    using assms(1,2) by (simp_all add: loop_begun_def loop_start_def submit_all.simps transfers_count_def
        loop_reset_def numeral_2_eq_2 numeral_3_eq_3 Let_def)
qed

lemma loop_begun_fresh:
  assumes "loop_ready l" and "frame_decoder_safe l" and "lp_state (loop_data l) = RUNNING"
    and "fd_state l = NEED_FRAME_MAGIC" and "cumulative_ts (fd_pd l) = 0" and "pd_state (fd_pd l) = NEED_PACKET_MAGIC"
    and "\<forall>i<3. 0 \<le> answer i"
  shows "fresh_loop (loop_begun usb answer cnt l)"
  using loop_begun_facts(1) [OF assms(1)] loop_begun_running(1) [OF assms(1,3,7)] assms(2,4-6)
  by (simp add: fresh_loop_def) (simp add: loop_begun_def on_loop_def)

text \<open>A running loop can be broken off; its transfers come back cancelled.\<close>

lemma running_broken:
  assumes "loop_inv l" and "lp_state (loop_data l) = RUNNING"
  shows "loop_reaches usb l (broken l)" and "lp_complete (loop_data (broken l))"
    and "loop_result (loop_data (broken l)) = Inr (- 2)" and "lp_user (loop_data (broken l)) = lp_user (loop_data l)"
proof -
  have t: "lp_transfer (loop_data l) = [In_flight, In_flight, In_flight]"
    using loop_invD(4) [OF assms] by (simp add: all_running_def transfers_count_def numeral_3_eq_3)
  have a: "active_transfers (loop_data l) = 3"
    using loop_invD(3) [OF assms(1)] t by (simp add: busy_def)
  have "map request_cancel (lp_transfer (loop_data l)) = [Cancelling, Cancelling, Cancelling]"
    using t by (simp add: request_cancel_def)
  note b = broken_run [OF this a]
  show "loop_reaches usb l (broken l)" "lp_complete (loop_data (broken l))"
    "loop_result (loop_data (broken l)) = Inr (- 2)" "lp_user (loop_data (broken l)) = lp_user (loop_data l)"
    by (fact b)+
qed

fun ends_with_data :: "wire_item list \<Rightarrow> bool" where
  "ends_with_data items = (case rev items of [] \<Rightarrow> True | Filler # _ \<Rightarrow> False | Pkt w # _ \<Rightarrow> w_data w \<noteq> [])"

lemma flushed_end:
  assumes "packet_decoder_inv pd'" and "packet_flush pd' = fold deliver (items @ [Pkt w]) pd"
    and "wire_ok w" and "w_data w \<noteq> []"
  shows "packet_flush pd' = pd'"
proof -
  let ?pd = "fold deliver items pd"
  have "packet pd' = packet (packet_finish (ready w ?pd))"
    using arg_cong [OF assms(2), of packet] by simp
  then have "ov_packet_captured_size (packet pd') = length (w_data w)"
    using assms(3) by (simp add: ready_def decoded_def ov_packet_captured_size_def wire_ok_def wire_captured_def)
  then show ?thesis
    using assms(1,4) by (auto simp: packet_flush_def packet_decoder_inv_def)
qed

lemma loop_stream:
  assumes "fresh_loop l" and "list_all item_ok items" and "ends_with_data items"
    and "list_all frame_ok fs" and "list_all (quiet (cha_reg (lp_cha (loop_data l)))) fs"
    and "concat (map frame_payload fs) = concat (map encode_item items)"
  shows "\<exists>l'. frame_bytes l (concat (map encode_frame fs)) = (Inr (), l') \<and>
    loop_data l' = fold cha_loop_packet_callback (packets_of 0 (pk_data (packet (fd_pd l))) items) (loop_data l)"
proof -
  have sound: "sound l" and magic: "fd_state l = NEED_FRAME_MAGIC" "pd_state (fd_pd l) = NEED_PACKET_MAGIC"
    and run: "lp_state (loop_data l) = RUNNING" and ts: "cumulative_ts (fd_pd l) = 0"
    using assms(1) loop_invD(1) by (auto simp: fresh_loop_def)
  have safe: "frame_decoder_safe l" and ops: "ops (fd_pd l) = loop_ops"
    using assms(1) sound by (simp_all add: fresh_loop_def sound_def)
  then have pinv: "packet_decoder_inv (fd_pd l)" and room: "packet_room (fd_pd l)"
    by (simp_all add: frame_decoder_safe_def frame_decoder_inv_def)
  have noflush: "packet_flush (fd_pd l) = fd_pd l"
    using magic(2) by (simp add: packet_flush_def)
  have "list_all (item_fits (length (pk_data (packet (fd_pd l))))) items"
    using assms(2) room unfolding list_all_iff
  proof (intro ballI)
    fix i
    assume "\<forall>i\<in>set items. item_ok i" and "i \<in> set items" and room: "packet_room (fd_pd l)"
    then have "item_ok i"
      by blast
    then show "item_fits (length (pk_data (packet (fd_pd l)))) i"
      using room by (cases i) (auto simp: wire_ok_def wire_captured_def OV_MAX_PACKET_SIZE_def packet_room_def)
  qed
  moreover have "at_boundary (fd_pd l)"
    using pinv magic(2) noflush by (simp add: at_boundary_def)
  ultimately obtain pd' where pd': "packet_bytes (fd_pd l) (concat (map encode_item items)) = (Inr (), pd')"
      "packet_flush pd' = fold deliver items (fd_pd l)"
    using packet_bytes_items [of "fd_pd l" items] assms(2) noflush by auto
  have "packet_flush pd' = pd'"
  proof (cases items rule: rev_cases)
    case Nil
    then show ?thesis
      using pd' noflush by simp
  next
    case (snoc front i)
    then obtain w where w: "i = Pkt w" "w_data w \<noteq> []" "wire_ok w"
      using assms(2,3) by (cases i) auto
    have "packet_decoder_inv pd'"
      using packet_bytes_inv [OF pinv pd'(1)] .
    then show ?thesis
      using flushed_end [of pd' front w "fd_pd l"] pd'(2) w snoc by simp
  qed
  then have user: "user_data pd' = fold cha_loop_packet_callback
      (packets_of 0 (pk_data (packet (fd_pd l))) items) (user_data (fd_pd l))"
    using pd'(2) deliver_packets [of "fd_pd l" cha_loop_packet_callback items] ops ts
    by (simp add: loop_ops_def)
  obtain l' where "frame_bytes l (concat (map encode_frame fs)) = (Inr (), l')" "fd_pd l' = pd'"
    using frames_quiet [OF assms(4,5) magic(1) ops] pd'(1) assms(6) by (auto simp: loop_data_def)
  then show ?thesis
    using user by (auto simp: loop_data_def)
qed

lemma packets_of_data: "store \<noteq> [] \<Longrightarrow> list_all has_data (packets_of cum store items)"
proof (induction cum store items rule: packets_of.induct)
  case (3 cum store w items)
  have "w_data w @ drop (length (w_data w)) store \<noteq> []"
    using 3(2) by (cases "w_data w") auto
  then show ?case
    using 3(1) by (simp add: has_data_def decoded_def)
qed simp_all

section \<open>A stream through the loop\<close>

text \<open>
  The stream of the device goes through the running loop: all transfers are processed and submitted
  again, the loop is still running, and the pcap file has the records of the packets that are kept.
\<close>

lemma transfers_to_records:
  assumes "fresh_loop l" and "lp_callback (loop_data l) = Some packet_handler" and "max_count (loop_data l) \<le> 0"
    and "0 < max_packet_size usb" and "list_all accepted ts"
    and "concat (stream_chunks (max_packet_size usb) ts) = concat (map encode_frame fs)"
    and "list_all frame_ok fs" and "list_all (quiet (cha_reg (lp_cha (loop_data l)))) fs"
    and "concat (map frame_payload fs) = concat (map encode_item items)"
    and "list_all item_ok items" and "ends_with_data items"
    and "ps = packets_of 0 (pk_data (packet (fd_pd l))) items" and "list_all not_last ps"
    and "h = lp_user (loop_data l)" and "st h = FILTER_STATE_DEFAULT" and "queue h = []"
    and "reliable (out h)" and "debug_ok h" and "clocked base h" and "in_order base (last_ov_ts h) ps"
  shows "\<exists>l'. run_transfers usb ts l = Some l' \<and> lp_state (loop_data l') = RUNNING \<and>
    f_content (out (discard_queued_packets (lp_user (loop_data l')))) = f_content (out h) @
      records (kept (filter_naks h) (filter_sofs h) False (usb_packets base ps))"
proof -
  have inv: "loop_inv l" and run: "lp_state (loop_data l) = RUNNING"
    using assms(1) by (simp_all add: fresh_loop_def)
  then have sound: "sound l"
    using loop_invD(1) by blast
  then have safe: "frame_decoder_safe l" and abort: "lp_abort (loop_data l) = None"
    using assms(1) by (simp_all add: sound_def fresh_loop_def)
  have "pk_data (packet (fd_pd l)) \<noteq> []"
    using safe by (auto simp: frame_decoder_safe_def packet_room_def)
  then have data: "list_all has_data ps"
    using packets_of_data assms(12) by blast
  obtain l' where l': "frame_bytes l (concat (map encode_frame fs)) = (Inr (), l')"
      "loop_data l' = fold cha_loop_packet_callback ps (loop_data l)"
    using loop_stream [OF assms(1,10,11,7,8,9)] assms(12) by blast
  obtain h' pend where fold: "fold cha_loop_packet_callback ps (loop_data l) = (loop_data l)\<lparr>lp_user := h'\<rparr>"
      "captures base h [] (usb_packets base ps) h' pend"
    using handler_fold [of "loop_data l" "[]" base ps] tracks_start [OF assms(15-17)] assms data run abort by auto
  have feed: "feed_chunks frame_decoder_loop l (stream_chunks (max_packet_size usb) ts) = (Inr (), l')"
    using frame_stream.chunks_refine [of l "stream_chunks (max_packet_size usb) ts"] safe l'(1) assms(6)
    by (simp add: frame_decoder_safe_def agree_Inr)
  have "run_transfers usb ts l = Some l'"
    using run_transfers_feed [OF assms(4) _ _ inv assms(5) feed] l'(2) fold(1) run abort by simp
  moreover have "future h [] (usb_packets base ps) = kept (filter_naks h) (filter_sofs h) False (usb_packets base ps)"
    using assms(15) by (simp add: future_def)
  moreover have "f_content (out (discard_queued_packets h')) = f_content (out h) @ records (future h [] (usb_packets base ps))"
    using fold(2) discard_at_end [of h' pend] unfolding captures_def
    by (metis append.assoc append_Nil2 records_simps(3))
  ultimately show ?thesis
    using l'(2) fold(1) run by simp
qed

text \<open>
  Two transfers with a bus frame and the packet of the examples, cut inside a frame; the second is
  submitted again after an interruption.
\<close>

definition example_handler :: handler_data where
  "example_handler = test_handler\<lparr>filter_naks := False, filter_sofs := False\<rparr>"

definition example_transfers :: "completed list" where
  "example_transfers = [(0, [0x31, 0x60, 0x55, 0x8c], [0]),
     (2, [0x31, 0x60, 0x28, 1, 9, 0xd0, 4, 0xa0, 0, 3, 0x40, 0xac, 0x6c, 0xa5, 0x69, 0x83, 0xe0], [- 10, 0])]"

definition example_frames :: "wire_frame list" where
  "example_frames = [Bus 0x8c28 1 9, Sdram [0xa0, 0, 3, 0x40, 0xac, 0x6c, 0xa5, 0x69, 0x83, 0xe0]]"

lemma example_stream:
  "list_all accepted example_transfers"
  "concat (stream_chunks 512 example_transfers) = concat (map encode_frame example_frames)"
  "list_all frame_ok example_frames"
  "concat (map frame_payload example_frames) = concat (map encode_item [Pkt test_packet])"
  "list_all item_ok [Pkt test_packet]" "ends_with_data [Pkt test_packet]"
  using test_packet_ok
  by (simp_all add: stream_chunks_def example_transfers_def payloads.simps example_frames_def accepted_def
      transfers_count_def LIBUSB_ERROR_INTERRUPTED_def encode_packet_def test_packet_def)

lemma example_frames_quiet: "addr r SDRAM_HOST_READ_GO = 0 \<Longrightarrow> list_all (quiet r) example_frames"
  by (simp add: example_frames_def)

lemma example_packets:
  assumes "ps = packets_of 0 (pk_data example_packet) [Pkt test_packet]"
  shows "list_all not_last ps" and "in_order test_base 0 ps"
    and "kept False False False (usb_packets test_base ps) =
      [stamp test_base (decoded test_packet 0 (pk_data example_packet))]"
proof -
  have ps: "ps = [decoded test_packet 0 (pk_data example_packet)]"
    using assms by simp
  show "list_all not_last ps" "in_order test_base 0 ps"
    by (simp_all add: ps not_last_def decoded_def test_packet_def in_order_def test_base_def
        OV_TIMESTAMP_FREQ_HZ_def OV_FLAGS_HF0_LAST_def)
  show "kept False False False (usb_packets test_base ps) =
      [stamp test_base (decoded test_packet 0 (pk_data example_packet))]"
    by (simp add: ps kept_nothing_filtered usb_packets_def decoded_def test_packet_def)
qed

lemma example_handler_fields:
  "st example_handler = FILTER_STATE_DEFAULT" "queue example_handler = []"
  "reliable (out example_handler)" "debug_ok example_handler" "clocked test_base example_handler"
  "last_ov_ts example_handler = 0" "f_content (out example_handler) = []"
  "\<not> filter_naks example_handler" "\<not> filter_sofs example_handler"
  using test_handler_fields by (simp_all add: example_handler_def debug_ok_def clocked_def clock_def)

end
