(* ===== verification/Fwpkg_Spec.thy ===== *)
theory Fwpkg_Spec imports
  Fwpkg
begin

text \<open>
  Properties of the firmware package: resources are given back on every path, the register map of
  an intact package is read back, and what a failing \<open>zip_stat\<close> leads to.
\<close>

section \<open>Resources\<close>

definition count :: "(call \<times> reply \<Rightarrow> bool) \<Rightarrow> history \<Rightarrow> nat" where
  "count P es = length (filter P es)"

lemma count_simps [simp]:
  "count P [] = 0" "count P (e # es) = (if P e then 1 else 0) + count P es"
  "count P (es @ fs) = count P es + count P fs"
  by (simp_all add: count_def)

definition mallocs :: "history \<Rightarrow> nat" where
  "mallocs = count (\<lambda>(c, r). case c of Malloc n \<Rightarrow> r_ret r \<noteq> 0 | _ \<Rightarrow> False)"

definition frees :: "history \<Rightarrow> nat" where
  "frees = count (\<lambda>(c, r). c = Free)"

definition file_opens :: "history \<Rightarrow> nat" where
  "file_opens = count (\<lambda>(c, r). case c of Zip_fopen_index i \<Rightarrow> r_ret r \<noteq> 0 | _ \<Rightarrow> False)"

definition file_closes :: "history \<Rightarrow> nat" where
  "file_closes = count (\<lambda>(c, r). c = Zip_fclose)"

definition archive_opens :: "history \<Rightarrow> nat" where
  "archive_opens = count (\<lambda>(c, r). (c = Zip_open_from_source \<or> (case c of Zip_open n \<Rightarrow> True | _ \<Rightarrow> False)) \<and> r_ret r \<noteq> 0)"

definition archive_discards :: "history \<Rightarrow> nat" where
  "archive_discards = count (\<lambda>(c, r). c = Zip_discard)"

lemmas resource_defs = mallocs_def frees_def file_opens_def file_closes_def archive_opens_def
  archive_discards_def

section \<open>The steps of \<open>reg_init_from_fwpkg\<close>\<close>

lemma in_fwpkg_map_size_run:
  "\<exists>n f e. in_fwpkg (fwpkg_map_size env) s =
     Some (Inr n, \<lparr>obj = (fst (obj s), f), hist = hist s @ [(Zip_stat_index (map_index (snd (obj s))), e)]\<rparr>) \<and>
     map_index f = map_index (snd (obj s))"
  by (simp add: in_fwpkg_def zoom_def fwpkg_map_size_def bindE_def fwpkg_file_size_run Let_def
      after_def split_def split: option.split)

lemma in_fwpkg_read_map_run:
  "\<exists>r f es. in_fwpkg (fwpkg_read_map env sz) s =
     Some (r, \<lparr>obj = (fst (obj s), f), hist = hist s @ es\<rparr>) \<and>
     mallocs es = 0 \<and> frees es = 0 \<and> file_opens es = file_closes es \<and>
     (\<forall>e. r = Inl e \<longrightarrow> e = Failed \<and> fw_error f \<noteq> None)"
  by (cases "obj s") (simp add: in_fwpkg_def zoom_def fwpkg_read_map_def bindE_def
      fwpkg_read_file_run Let_def after_def resource_defs)

text \<open>The part between \<open>malloc\<close> and \<open>free\<close>.\<close>

definition reg_load :: "env \<Rightarrow> (string \<Rightarrow> reg_name option) \<Rightarrow> nat \<Rightarrow> (reg_fwpkg st, unit) prog" where
  "reg_load env iws sz =
     bindE (onfail (in_fwpkg (fwpkg_read_map env sz))
              (modify_obj (\<lambda>(r, f). (r\<lparr>reg_error := fw_error f\<rparr>, f))))
       (\<lambda>bs. if \<not> length bs < sz then throw (Out_of_bounds ''tmp[size]'')
             else in_reg (run_pure (\<lambda>_. reg_init iws (c_string bs))))"

lemma in_reg_init_run:
  "in_reg (run_pure (\<lambda>_. reg_init iws t)) s =
     Some (fst (reg_init iws t), \<lparr>obj = (snd (reg_init iws t), snd (obj s)), hist = hist s\<rparr>)"
  by (simp add: in_reg_def zoom_def run_pure_def split_def)

lemma reg_load_run:
  "\<exists>r s' es. reg_load env iws sz s = Some (r, s') \<and> hist s' = hist s @ es \<and>
     mallocs es = 0 \<and> frees es = 0 \<and> file_opens es = file_closes es \<and>
     (case r of Inr _ \<Rightarrow> reg_error (fst (obj s')) = None \<and> (\<forall>n. addr (fst (obj s')) n \<noteq> 0xffff)
      | Inl e \<Rightarrow> e = Failed \<longrightarrow> reg_error (fst (obj s')) \<noteq> None)"
proof -
  obtain r f es where read: "in_fwpkg (fwpkg_read_map env sz) s =
        Some (r, \<lparr>obj = (fst (obj s), f), hist = hist s @ es\<rparr>)"
      "mallocs es = 0" "frees es = 0" "file_opens es = file_closes es"
      "\<And>e. r = Inl e \<Longrightarrow> e = Failed \<and> fw_error f \<noteq> None"
    using in_fwpkg_read_map_run [of env sz s] by blast
  show ?thesis
  proof (cases r)
    case (Inl e)
    then show ?thesis
      using read by (simp add: reg_load_def bindE_def onfail_def)
  next
    case (Inr bs)
    note res = reg_init_result [of iws "c_string bs"]
    show ?thesis
    proof (cases "length bs < sz")
      case True
      then show ?thesis
        using read Inr res [OF prod.collapse [symmetric]]
        by (auto simp: reg_load_def bindE_def onfail_def in_reg_init_run split: sum.splits)
    next
      case False
      then show ?thesis
        using read Inr by (simp add: reg_load_def bindE_def onfail_def)
    qed
  qed
qed

lemma reg_init_from_fwpkg_load:
  "reg_init_from_fwpkg env iws =
     bindE (in_fwpkg (fwpkg_map_size env)) (\<lambda>n.
     bindE (perform env (Malloc ((n + 1) mod 2 ^ 64))) (\<lambda>tmp.
       if r_ret tmp = 0 then fail_str set_reg_error ''Cannot allocate memory for register map''
       else thenE (onfail (reg_load env iws ((n + 1) mod 2 ^ 64)) (call_void env Free))
         (call_void env Free)))"
  by (simp only: reg_init_from_fwpkg_def reg_load_def Let_def)

lemma reg_init_from_fwpkg_sized:
  assumes "in_fwpkg (fwpkg_map_size env) s = Some (Inr n, s1)" and "(n + 1) mod 2 ^ 64 = sz"
    and "m = respond env (hist s1) (Malloc sz)" and "s2 = s1\<lparr>hist := hist s1 @ [(Malloc sz, m)]\<rparr>"
  shows "reg_init_from_fwpkg env iws s =
    (if r_ret m = 0
     then fail_str set_reg_error ''Cannot allocate memory for register map'' s2
     else thenE (onfail (reg_load env iws sz) (call_void env Free)) (call_void env Free) s2)"
  unfolding reg_init_from_fwpkg_load bindE_def assms(1) assms(3,4)
  by (simp only: option.case prod.case sum.case assms(2) perform_run split: if_split) simp

text \<open>An intact package, as libzip documents it: \<open>text\<close> is the member at index \<open>i\<close>.\<close>

definition delivers_file :: "env \<Rightarrow> u64 \<Rightarrow> u8 list \<Rightarrow> bool" where
  "delivers_file env i text \<longleftrightarrow>
     (\<forall>h. r_ret (respond env h (Zip_stat_index i)) = 0 \<and>
          r_size (respond env h (Zip_stat_index i)) = Some (of_nat (length text)) \<and>
          r_ret (respond env h (Zip_fopen_index i)) \<noteq> 0 \<and>
          (\<forall>k. r_ret (respond env h (Malloc k)) \<noteq> 0) \<and>
          (\<forall>k r. r_ret (respond env (h @ [(Zip_fopen_index i, r)]) (Zip_fread k)) \<noteq> -1 \<and>
                 r_bytes (respond env (h @ [(Zip_fopen_index i, r)]) (Zip_fread k)) = text))"

definition text_bytes :: "string \<Rightarrow> u8 list" where
  "text_bytes t = map (\<lambda>c. of_nat (of_char c)) t"

lemma c_string_text_bytes:
  assumes "CHR 0x00 \<notin> set t"
  shows "c_string (text_bytes t) = t"
proof -
  have char: "char_of (unat (of_nat (of_char c) :: u8)) = c" for c
    by (simp add: unat_of_nat)
  have nz: "(of_nat (of_char c) :: u8) \<noteq> 0" if "c \<in> set t" for c
  proof
    assume "(of_nat (of_char c) :: u8) = 0"
    then have "c = char_of (0 :: nat)"
      using char [of c] by simp
    moreover have "char_of (0 :: nat) = CHR 0x00"
      by (simp add: char_of_def)
    ultimately show False
      using assms that by simp
  qed
  have tw: "takeWhile (\<lambda>b. b \<noteq> 0) (text_bytes t) = text_bytes t"
    using nz by (simp add: takeWhile_eq_all_conv text_bytes_def)
  show ?thesis
    unfolding c_string_def tw using char by (simp add: text_bytes_def comp_def)
qed

lemma delivers_size:
  assumes "delivers_file env (map_index (snd (obj s))) text" and "length text + 1 < 2 ^ 64"
  shows "\<exists>s1. in_fwpkg (fwpkg_map_size env) s = Some (Inr (length text), s1) \<and> obj s1 = obj s \<and>
    hist s1 = after env (Zip_stat_index (map_index (snd (obj s)))) (hist s)"
proof (cases "obj s")
  case (Pair r f)
  have "unat (of_nat (length text) :: u64) = length text"
    using assms(2) by (simp add: unat_of_nat)
  then show ?thesis
    using assms(1) Pair
    by (simp add: in_fwpkg_def zoom_def fwpkg_map_size_def bindE_def fwpkg_file_size_run Let_def
        delivers_file_def)
qed

lemma delivers_read:
  assumes "delivers_file env (map_index (snd (obj s))) text" and "length text \<le> sz"
  shows "\<exists>s1. in_fwpkg (fwpkg_read_map env sz) s = Some (Inr text, s1) \<and> obj s1 = obj s \<and>
    hist s1 = after env Zip_fclose (after env (Zip_fread sz) (after env (Zip_fopen_index (map_index (snd (obj s)))) (hist s)))"
  using assms
  by (cases "obj s") (simp add: in_fwpkg_def zoom_def fwpkg_read_map_def bindE_def
      fwpkg_read_file_run Let_def delivers_file_def after_def)

lemma reg_init_from_fwpkg_ends:
  "\<exists>r s' es. reg_init_from_fwpkg env iws s = Some (r, s') \<and> hist s' = hist s @ es \<and>
     (r = Inr () \<or> r = Inl Failed \<longrightarrow> mallocs es = frees es \<and> file_opens es = file_closes es) \<and>
     (r = Inl Failed \<longrightarrow> reg_error (fst (obj s')) \<noteq> None) \<and>
     (r = Inr () \<longrightarrow> reg_error (fst (obj s')) = None \<and> (\<forall>n. addr (fst (obj s')) n \<noteq> 0xffff))"
proof -
  obtain n f e where size: "in_fwpkg (fwpkg_map_size env) s =
      Some (Inr n, \<lparr>obj = (fst (obj s), f), hist = hist s @ [(Zip_stat_index (map_index (snd (obj s))), e)]\<rparr>)"
    using in_fwpkg_map_size_run [of env s] by blast
  let ?s1 = "\<lparr>obj = (fst (obj s), f), hist = hist s @ [(Zip_stat_index (map_index (snd (obj s))), e)]\<rparr>"
  let ?c = "Malloc ((n + 1) mod 2 ^ 64)"
  let ?m = "respond env (hist ?s1) ?c"
  let ?s2 = "?s1\<lparr>hist := hist ?s1 @ [(?c, ?m)]\<rparr>"
  obtain r s3 es where load: "reg_load env iws ((n + 1) mod 2 ^ 64) ?s2 = Some (r, s3)"
      "hist s3 = hist ?s2 @ es" "mallocs es = 0" "frees es = 0" "file_opens es = file_closes es"
      "case r of Inr _ \<Rightarrow> reg_error (fst (obj s3)) = None \<and> (\<forall>n. addr (fst (obj s3)) n \<noteq> 0xffff)
      | Inl e \<Rightarrow> e = Failed \<longrightarrow> reg_error (fst (obj s3)) \<noteq> None"
    using reg_load_run [of env iws "(n + 1) mod 2 ^ 64" ?s2] by blast
  note run = reg_init_from_fwpkg_sized [OF size refl refl refl]
  show ?thesis
  proof (cases "r_ret ?m = 0")
    case True
    then show ?thesis
      by (simp add: run resource_defs set_reg_error_def)
  next
    case False
    then show ?thesis
      using load unfolding run
      by (cases r rule: sum.exhaust; cases "r = Inl Failed")
        (auto simp: thenE_def bindE_def onfail_def resource_defs split: error.split)
  qed
qed

lemma reg_init_from_fwpkg_loads:
  assumes "delivers_file env (map_index (snd (obj s))) (text_bytes (print_map ls))"
    and "list_all line_ok ls" and "ls \<noteq> []" and "CHR 0x00 \<notin> set (print_map ls)"
    and "length (print_map ls) + 1 < 2 ^ 64"
    and "\<forall>n. fold (assign_line iws) ls (\<lambda>_. 0xffff) n \<noteq> 0xffff"
  shows "\<exists>s' es i n. reg_init_from_fwpkg env iws s = Some (Inr (), s') \<and>
    obj s' = (\<lparr>reg_error = None, addr = fold (assign_line iws) ls (\<lambda>_. 0xffff)\<rparr>, snd (obj s)) \<and>
    hist s' = hist s @ es \<and>
    map fst es = [Zip_stat_index i, Malloc n, Zip_fopen_index i, Zip_fread n, Zip_fclose, Free]"
proof -
  let ?t = "text_bytes (print_map ls)"
  have len: "length ?t = length (print_map ls)"
    by (simp add: text_bytes_def)
  obtain s1 where s1: "in_fwpkg (fwpkg_map_size env) s = Some (Inr (length ?t), s1)" "obj s1 = obj s"
      "hist s1 = after env (Zip_stat_index (map_index (snd (obj s)))) (hist s)"
    using delivers_size [OF assms(1)] assms(5) len by auto
  let ?sz = "length ?t + 1"
  let ?s2 = "s1\<lparr>hist := hist s1 @ [(Malloc ?sz, respond env (hist s1) (Malloc ?sz))]\<rparr>"
  obtain s3 where s3: "in_fwpkg (fwpkg_read_map env ?sz) ?s2 = Some (Inr ?t, s3)" "obj s3 = obj s"
      "hist s3 = after env Zip_fclose (after env (Zip_fread ?sz)
        (after env (Zip_fopen_index (map_index (snd (obj s)))) (hist ?s2)))"
    using delivers_read [of env ?s2 ?t ?sz] assms(1) s1(2) by auto
  have sz: "(length ?t + 1) mod 2 ^ 64 = ?sz"
    using assms(5) len by (intro mod_less) simp
  have malloc: "r_ret (respond env (hist s1) (Malloc ?sz)) \<noteq> 0"
    using assms(1) by (simp add: delivers_file_def)
  let ?reg = "\<lparr>reg_error = None, addr = fold (assign_line iws) ls (\<lambda>_. 0xffff)\<rparr>"
  have init: "reg_init iws (c_string ?t) = (Inr (), ?reg)"
    using reg_lines_printed [OF assms(2,3), of iws reg_blank] assms(6)
    by (simp add: c_string_text_bytes [OF assms(4)] reg_init_def reg_init_from_map_def
        reg_validate_def reg_blank_def)
  have load: "reg_load env iws ?sz ?s2 = Some (Inr (), \<lparr>obj = (?reg, snd (obj s3)), hist = hist s3\<rparr>)"
  proof -
    have "in_reg (run_pure (\<lambda>_. reg_init iws (c_string ?t))) s3 =
        Some (Inr (), \<lparr>obj = (?reg, snd (obj s3)), hist = hist s3\<rparr>)"
      using in_reg_init_run [of iws "c_string ?t" s3] unfolding init by simp
    then show ?thesis
      using s3(1) by (simp add: reg_load_def bindE_def onfail_def)
  qed
  show ?thesis
    unfolding reg_init_from_fwpkg_sized [OF s1(1) sz refl refl]
    using malloc load s1(3) s3(2,3)
    by (simp add: bindE_def thenE_def onfail_def after_def del: add_Suc_right One_nat_def)
qed

section \<open>Properties\<close>

text \<open>
  C22: Loading the register map of a package gives everything back and says why it failed.  Whatever
  libzip and the allocator answer, when \<open>reg_init_from_fwpkg\<close> returns, every buffer that was
  allocated has been freed and every file that was opened has been closed, once each; a success
  means that every register has an address, a -1 that the error string is set.
\<close>

theorem reg_init_from_fwpkg_resources:
  "\<exists>r s' es. reg_init_from_fwpkg env iws s = Some (r, s') \<and> hist s' = hist s @ es \<and>
     (case r of
        Inr _ \<Rightarrow> mallocs es = frees es \<and> file_opens es = file_closes es \<and>
          reg_error (fst (obj s')) = None \<and> (\<forall>n. addr (fst (obj s')) n \<noteq> 0xffff)
      | Inl Failed \<Rightarrow> mallocs es = frees es \<and> file_opens es = file_closes es \<and>
          reg_error (fst (obj s')) \<noteq> None
      | Inl _ \<Rightarrow> True)"
proof -
  obtain r s' es where "reg_init_from_fwpkg env iws s = Some (r, s')" "hist s' = hist s @ es"
      "r = Inr () \<or> r = Inl Failed \<longrightarrow> mallocs es = frees es \<and> file_opens es = file_closes es"
      "r = Inl Failed \<longrightarrow> reg_error (fst (obj s')) \<noteq> None"
      "r = Inr () \<longrightarrow> reg_error (fst (obj s')) = None \<and> (\<forall>n. addr (fst (obj s')) n \<noteq> 0xffff)"
    using reg_init_from_fwpkg_ends [of env iws s] by blast
  then show ?thesis
    by (intro exI [of _ r] exI [of _ s'] exI [of _ es]) (simp split: sum.split error.split)
qed

text \<open>
  C24: The register map of an intact package is read back: if \<open>map.txt\<close> is a printed map that gives
  every register an address, loading it succeeds, with exactly these addresses.
\<close>

theorem reg_init_from_fwpkg_map:
  assumes "delivers_file env (map_index (snd (obj s))) (text_bytes (print_map ls))"
    and "list_all line_ok ls" and "ls \<noteq> []" and "CHR 0x00 \<notin> set (print_map ls)"
    and "length (print_map ls) + 1 < 2 ^ 64"
    and "\<forall>n. fold (assign_line iws) ls (\<lambda>_. 0xffff) n \<noteq> 0xffff"
  shows "\<exists>s'. reg_init_from_fwpkg env iws s = Some (Inr (), s') \<and>
    fst (obj s') = \<lparr>reg_error = None, addr = fold (assign_line iws) ls (\<lambda>_. 0xffff)\<rparr>"
  using reg_init_from_fwpkg_loads [OF assms] by fastforce

text \<open>A package whose archive holds the test map at every index.\<close>

definition package_env :: "u8 list \<Rightarrow> env" where
  "package_env text = \<lparr>
     respond = \<lambda>h c. case c of
         Zip_stat_index i \<Rightarrow> \<lparr>r_ret = 0, r_bytes = [], r_size = Some (of_nat (length text))\<rparr>
       | Zip_fread n \<Rightarrow> \<lparr>r_ret = int (min n (length text)), r_bytes = text, r_size = None\<rparr>
       | _ \<Rightarrow> \<lparr>r_ret = 1, r_bytes = [], r_size = None\<rparr>,
     errtext = \<lambda>_. [], opcode = \<lambda>_. 0, out_packet_size = 512\<rparr>"

definition fresh_reg_fwpkg :: "reg_fwpkg st" where
  "fresh_reg_fwpkg = \<lparr>obj = (reg_blank, fwpkg_zero), hist = []\<rparr>"

lemma test_map_ok:
  "list_all line_ok test_map" "test_map \<noteq> []" "CHR 0x00 \<notin> set (print_map test_map)"
  "length (print_map test_map) + 1 < 2 ^ 64"
  "\<forall>n. fold (assign_line (map_of reg_gperf)) test_map (\<lambda>_. 0xffff) n \<noteq> 0xffff"
  "fold (assign_line (map_of reg_gperf)) test_map (\<lambda>_. 0xffff) LEDS_OUT = 0x803"
proof -
  show "list_all line_ok test_map" "test_map \<noteq> []"
    by (simp_all add: test_map_def reg_gperf_def upt_rec name_ok_def newline_def)
  show "CHR 0x00 \<notin> set (print_map test_map)"
    by (simp add: test_map_def reg_gperf_def upt_rec newline_def hex4_def hex_digit_def char_of_def)
  show "length (print_map test_map) + 1 < 2 ^ 64"
    by (simp add: test_map_def reg_gperf_def upt_rec hex4_def)
  show "\<forall>n. fold (assign_line (map_of reg_gperf)) test_map (\<lambda>_. 0xffff) n \<noteq> 0xffff"
  proof
    show "fold (assign_line (map_of reg_gperf)) test_map (\<lambda>_. 0xffff) n \<noteq> 0xffff" for n
      by (cases n) (simp_all add: test_map_def reg_gperf_def upt_rec)
  qed
  show "fold (assign_line (map_of reg_gperf)) test_map (\<lambda>_. 0xffff) LEDS_OUT = 0x803"
    by (simp add: test_map_def reg_gperf_def upt_rec)
qed

theorem reg_init_from_fwpkg_map_witness:
  "\<exists>s'. reg_init_from_fwpkg (package_env (text_bytes (print_map test_map))) (map_of reg_gperf) fresh_reg_fwpkg
      = Some (Inr (), s') \<and> addr (fst (obj s')) LEDS_OUT = 0x803"
proof -
  let ?env = "package_env (text_bytes (print_map test_map))"
  have "delivers_file ?env (map_index (snd (obj fresh_reg_fwpkg))) (text_bytes (print_map test_map))"
    by (simp add: delivers_file_def package_env_def)
  then show ?thesis
    using reg_init_from_fwpkg_map [of ?env fresh_reg_fwpkg test_map "map_of reg_gperf"] test_map_ok by auto
qed

text \<open>
  C31: A failing \<open>zip_stat\<close> is not noticed.  \<open>fwpkg_map_size\<close> returns the largest \<open>size_t\<close>, the
  addition of one wraps to 0, and if \<open>malloc(0)\<close> returns a pointer and reading no bytes is not an
  error, the terminating NUL is written into an object of size 0.
\<close>

theorem reg_init_from_fwpkg_wrap:
  assumes "r_ret (respond env (hist s) (Zip_stat_index (map_index (snd (obj s))))) = -1"
    and "\<forall>h. r_ret (respond env h (Malloc 0)) \<noteq> 0"
    and "\<forall>h i. r_ret (respond env h (Zip_fopen_index i)) \<noteq> 0"
    and "\<forall>h. r_ret (respond env h (Zip_fread 0)) \<noteq> -1"
  shows "\<exists>s'. reg_init_from_fwpkg env iws s = Some (Inl (Out_of_bounds ''tmp[size]''), s')"
proof -
  have size: "\<exists>s1. in_fwpkg (fwpkg_map_size env) s = Some (Inr size_max, s1)"
    using assms(1) by (simp add: in_fwpkg_def zoom_def fwpkg_map_size_def bindE_def
        fwpkg_file_size_run Let_def)
  have read: "\<exists>s2. in_fwpkg (fwpkg_read_map env 0) s1 = Some (Inr [], s2)" for s1
    using assms(3,4) by (simp add: in_fwpkg_def zoom_def fwpkg_read_map_def bindE_def
        fwpkg_read_file_run Let_def)
  have load: "\<exists>s2. reg_load env iws 0 s1 = Some (Inl (Out_of_bounds ''tmp[size]''), s2)" for s1
    using read [of s1] by (auto simp: reg_load_def bindE_def onfail_def)
  have wrap: "(size_max + 1) mod 2 ^ 64 = 0"
    by (simp add: size_max_def)
  obtain s1 where s1: "in_fwpkg (fwpkg_map_size env) s = Some (Inr size_max, s1)"
    using size by blast
  let ?s2 = "s1\<lparr>hist := hist s1 @ [(Malloc 0, respond env (hist s1) (Malloc 0))]\<rparr>"
  obtain s3 where "reg_load env iws 0 ?s2 = Some (Inl (Out_of_bounds ''tmp[size]''), s3)"
    using load by blast
  then show ?thesis
    unfolding reg_init_from_fwpkg_sized [OF s1 wrap refl refl]
    using assms(2) by (simp add: bindE_def thenE_def onfail_def)
qed

theorem reg_init_from_fwpkg_wrap_witness:
  "\<exists>s'. reg_init_from_fwpkg
      ((package_env [])\<lparr>respond := \<lambda>h c. \<lparr>r_ret = (case c of Zip_stat_index i \<Rightarrow> -1 | _ \<Rightarrow> 1),
          r_bytes = [], r_size = None\<rparr>\<rparr>)
      (map_of reg_gperf) fresh_reg_fwpkg = Some (Inl (Out_of_bounds ''tmp[size]''), s')"
  by (rule reg_init_from_fwpkg_wrap) simp_all

text \<open>
  C29: Opening a package.  If it succeeds, one archive is open and both members were found; if it
  fails, no archive is left open and the error string is set.
\<close>

theorem fwpkg_init_outcome:
  "\<exists>r s' es. fwpkg_init env filename s = Some (r, s') \<and> hist s' = hist s @ es \<and>
     (case r of
        Inr _ \<Rightarrow> archive_opens es = 1 \<and> archive_discards es = 0 \<and> pkg (obj s') \<and>
          map_index (obj s') \<noteq> -1 \<and> bitstream_index (obj s') \<noteq> -1
      | Inl e \<Rightarrow> e = Failed \<and> archive_opens es = archive_discards es \<and> fw_error (obj s') \<noteq> None)"
  by (cases filename)
    (simp_all add: fwpkg_init_def fwpkg_init_from_file_def fwpkg_init_from_preload_def
      fwpkg_init_from_buffer_def fwpkg_locate_files_def thenE_def bindE_def resource_defs after_def
      set_fw_error_def)

end
