(* ===== verification/Cha_Rules.thy ===== *)
theory Cha_Rules imports
  Cha
begin

text \<open>
  Rules for the operations of \<open>Cha\<close>: every failure is reported; what an operation has written to
  the device when it succeeds.
\<close>

unbundle bit_operations_syntax

section \<open>Failures\<close>

lemma set_cha_error_fields [simp]:
  "cha_error (set_cha_error msg c) = Some msg" "cha_reg (set_cha_error msg c) = cha_reg c"
  by (simp_all add: set_cha_error_def)

lemma set_cha_error: "cha_error (set_cha_error msg c) \<noteq> None"
  by simp

named_theorems cha_reports \<open>operations that report their failures\<close>

lemmas cha_rules =
  do_checked_reports [where err = cha_error and se = set_cha_error, OF set_cha_error]
  read_data_reports [where err = cha_error and se = set_cha_error, OF set_cha_error]
  fail_str_reports [where err = cha_error and se = set_cha_error, OF set_cha_error]
  call_void_reports reporting.keeps_intros device_io_rules

text \<open>One unfolding of a loop keeps the contract if the rest of the loop does.\<close>

lemma keeps_step:
  assumes "reporting.keeps err m" and "m s = Some (r1, s1)"
    and "case r1 of Inl e \<Rightarrow> r = Inl e \<and> s' = s1
         | Inr x \<Rightarrow> reported err s1 s' \<and> (\<forall>e. r = Inl e \<longrightarrow> reports err e s')"
  shows "reported err s s' \<and> (\<forall>e. r = Inl e \<longrightarrow> reports err e s')"
proof (cases r1)
  case (Inl e)
  then show ?thesis
    using reporting.keepsD [OF assms(1,2)] assms(3) by auto
next
  case (Inr x)
  then show ?thesis
    using reporting.keepsD(1) [OF assms(1,2)] assms(3) reporting.trans [of err s s1 s'] by auto
qed

lemma sync_loop_keeps:
  "sync_loop env msg n s = Some y \<Longrightarrow>
   reported cha_error s (snd y) \<and> (\<forall>e. fst y = Inl e \<longrightarrow> reports cha_error e (snd y))"
proof (induction rule: sync_loop.raw_induct [rotated, consumes 1, case_names step])
  case (step loop env msg n s y)
  obtain r1 s1 where read: "read_data env set_cha_error INTERFACE_A 32 s = Some (r1, s1)"
    using step(2) by (cases "read_data env set_cha_error INTERFACE_A 32 s") auto
  show ?case
    using step(2) step(1) [of env msg _ s1 y] reporting.refl [of cha_error s1] read
    by (intro keeps_step [OF cha_rules(2) read]) (auto split: sum.splits if_splits)
qed

lemma read_nonempty_keeps:
  "read_nonempty env s = Some y \<Longrightarrow>
   reported cha_error s (snd y) \<and> (\<forall>e. fst y = Inl e \<longrightarrow> reports cha_error e (snd y))"
proof (induction rule: read_nonempty.raw_induct [rotated, consumes 1, case_names step])
  case (step loop env s y)
  obtain r1 s1 where read: "read_data env set_cha_error INTERFACE_A 5 s = Some (r1, s1)"
    using step(2) by (cases "read_data env set_cha_error INTERFACE_A 5 s") auto
  show ?case
    using step(2) step(1) [of env s1 y] reporting.refl [of cha_error s1] read
    by (intro keeps_step [OF cha_rules(2) read]) (auto split: sum.splits if_splits)
qed

lemma poll_go_keeps:
  "poll_go rd s = Some y \<Longrightarrow> reporting.keeps err rd \<Longrightarrow>
   reported err s (snd y) \<and> (\<forall>e. fst y = Inl e \<longrightarrow> reports err e (snd y))"
proof (induction rule: poll_go.raw_induct [rotated, consumes 1, case_names step])
  case (step loop rd s y)
  obtain r1 s1 where read: "rd s = Some (r1, s1)"
    using step(2) by (cases "rd s") auto
  show ?case
    using step(2) step(1) [of rd s1 y] step(3) reporting.refl [of err s1] read
    by (intro keeps_step [OF step(3) read]) (auto split: sum.splits if_splits)
qed

lemma read_reg32_loop_keeps:
  "read_reg32_loop rd a i val s = Some y \<Longrightarrow> (\<And>a. reporting.keeps err (rd a)) \<Longrightarrow>
   reported err s (snd y) \<and> (\<forall>e. fst y = Inl e \<longrightarrow> reports err e (snd y))"
proof (induction rule: read_reg32_loop.raw_induct [rotated, consumes 1, case_names step])
  case (step loop rd a i val s y)
  show ?case
  proof (cases "unat i = unat a + 4")
    case True
    then show ?thesis
      using step(2) reporting.refl [of err s] by auto
  next
    case False
    obtain r1 s1 where read: "rd i s = Some (r1, s1)"
      using step(2) False by (cases "rd i s") auto
    show ?thesis
      using step(2) step(1) [of rd a "i + 1" _ s1 y] step(3) reporting.refl [of err s1] read False
      by (intro keeps_step [OF step(3) read]) (auto split: sum.splits if_splits)
  qed
qed

lemma sync_loop_reports [cha_reports]: "reporting.keeps cha_error (sync_loop env msg n)"
  using sync_loop_keeps by (intro reporting.keepsI) fastforce

lemma read_nonempty_reports [cha_reports]: "reporting.keeps cha_error (read_nonempty env)"
  using read_nonempty_keeps by (intro reporting.keepsI) fastforce

lemma poll_go_reports: "reporting.keeps err rd \<Longrightarrow> reporting.keeps err (poll_go rd)"
  using poll_go_keeps by (intro reporting.keepsI) fastforce

lemma read_reg32_loop_reports:
  "(\<And>a. reporting.keeps err (rd a)) \<Longrightarrow> reporting.keeps err (read_reg32_loop rd a i val)"
  using read_reg32_loop_keeps by (intro reporting.keepsI) fastforce

lemma write_reg32_loop_reports:
  "(\<And>a v. reporting.keeps err (wr a v)) \<Longrightarrow> reporting.keeps err (write_reg32_loop wr a i val)"
  by (induction wr a i val rule: write_reg32_loop.induct)
    (subst write_reg32_loop.simps, auto intro!: reporting.keeps_intros)

lemma cha_sync_stream_reports [cha_reports]: "reporting.keeps cha_error (cha_sync_stream env a)"
  unfolding cha_sync_stream_def by (rule reporting.keeps_seqE) (simp add: cha_rules cha_reports)

lemma cha_transaction_reports [cha_reports]: "reporting.keeps cha_error (cha_transaction env a v)"
  unfolding cha_transaction_def transaction_answer_def Let_def by (intro cha_rules cha_reports)

lemma cha_switch_mode_reports [cha_reports]: "reporting.keeps cha_error (cha_switch_mode env m)"
  unfolding cha_switch_mode_def by (rule reporting.keeps_seqE) (simp add: cha_rules)

lemma gets_obj_reports: "reporting.keeps err (gets_obj f)"
  by (simp add: gets_obj_def reporting.keeps_gets)

lemma at_reg_reports: "(\<And>a. reporting.keeps cha_error (f a)) \<Longrightarrow> reporting.keeps cha_error (at_reg name f)"
  unfolding at_reg_def by (intro reporting.keeps_intros gets_obj_reports)

lemma cha_write_reg_reports [cha_reports]: "reporting.keeps cha_error (cha_write_reg env a v)"
  unfolding cha_write_reg_def by (intro cha_rules cha_reports)

lemma cha_read_reg_reports [cha_reports]: "reporting.keeps cha_error (cha_read_reg env a)"
  by (simp add: cha_read_reg_def cha_reports)

lemma cha_cast_reg_reports [cha_reports]: "reporting.keeps cha_error (cha_cast_reg env a v)"
  by (simp add: cha_cast_reg_def cha_rules)

lemma cha_by_name_reports [cha_reports]:
  "reporting.keeps cha_error (cha_write_reg_by_name env n v)"
  "reporting.keeps cha_error (cha_read_reg_by_name env n)"
  "reporting.keeps cha_error (cha_cast_reg_by_name env n v)"
  "reporting.keeps cha_error (cha_write_reg32_by_name env n w)"
  "reporting.keeps cha_error (cha_read_reg32_by_name env n w)"
  by (simp_all add: cha_write_reg_by_name_def cha_read_reg_by_name_def cha_cast_reg_by_name_def
      cha_write_reg32_by_name_def cha_read_reg32_by_name_def cha_write_reg32_def cha_read_reg32_def
      at_reg_reports cha_reports write_reg32_loop_reports read_reg32_loop_reports)

lemma cha_switch_fifo_mode_reports [cha_reports]: "reporting.keeps cha_error (cha_switch_fifo_mode env)"
  unfolding cha_switch_fifo_mode_def by (intro cha_rules cha_reports gets_obj_reports)

lemma cha_switch_config_mode_reports [cha_reports]:
  "reporting.keeps cha_error (cha_switch_config_mode env)"
  by (simp add: cha_switch_config_mode_def cha_reports)

lemma cha_open_reports [cha_reports]: "reporting.keeps cha_error (cha_open env)"
  unfolding cha_open_def by (intro cha_rules cha_reports)

lemma cha_ulpi_reports [cha_reports]:
  "reporting.keeps cha_error (cha_write_ulpi env a v)" "reporting.keeps cha_error (cha_read_ulpi env a)"
  unfolding cha_write_ulpi_def cha_read_ulpi_def
  by (rule reporting.keeps_seqE, simp add: cha_reports poll_go_reports)
    (intro reporting.keeps_intros cha_reports poll_go_reports)

lemma cha_usb_speed_reports [cha_reports]:
  "reporting.keeps cha_error (cha_get_usb_speed env)" "reporting.keeps cha_error (cha_set_usb_speed env sp)"
  unfolding cha_get_usb_speed_def cha_set_usb_speed_def by (intro cha_rules cha_reports)+

lemma cha_stream_reports [cha_reports]:
  "reporting.keeps cha_error (cha_start_stream env)" "reporting.keeps cha_error (cha_halt_stream env)"
  "reporting.keeps cha_error (cha_stop_stream env)"
  unfolding cha_start_stream_def cha_halt_stream_def cha_stop_stream_def
  by (rule reporting.keeps_seqE, simp add: cha_reports, simp add: cha_reports,
      rule reporting.keeps_seqE, simp add: cha_reports)

end
