(* ===== verification/Register_Bus.thy ===== *)
theory Register_Bus imports
  Cha_Rules
begin

text \<open>
  The register bus as an interface: what a client may rely on when it writes and reads the
  registers of the FPGA, 32-bit registers over 8-bit ones, and the registers of the USB phy behind
  its command registers.  Last part: the laws about the device, stated over its answers, under
  which the operations of \<open>Cha\<close> provide the interface.
\<close>

unbundle bit_operations_syntax

section \<open>The interface\<close>

text \<open>
  \<open>up\<close>: the link is idle and in step; \<open>mem\<close>: the registers; \<open>plain\<close>: the addresses that keep what is
  written to them and have no effects.  Addresses are numbers or register names.
\<close>

locale byte_bus =
  fixes wr :: "'a \<Rightarrow> u8 \<Rightarrow> ('s, unit) prog"
    and rd :: "'a \<Rightarrow> ('s, u8) prog"
    and up :: "'s \<Rightarrow> bool"
    and mem :: "'s \<Rightarrow> 'a \<Rightarrow> u8"
    and plain :: "'a \<Rightarrow> bool"
  assumes wr: "up s \<Longrightarrow> plain a \<Longrightarrow>
      \<exists>s'. wr a v s = Some (Inr (), s') \<and> up s' \<and> mem s' = (mem s)(a := v)"
    and rd: "up s \<Longrightarrow> plain a \<Longrightarrow>
      \<exists>s'. rd a s = Some (Inr (mem s a), s') \<and> up s' \<and> mem s' = mem s"

text \<open>Big-endian: the most significant byte is at the lowest address.\<close>

definition mem32 :: "(u16 \<Rightarrow> u8) \<Rightarrow> u16 \<Rightarrow> u32" where
  "mem32 m a = push_bit 24 (ucast (m a)) OR push_bit 16 (ucast (m (a + 1))) OR
     push_bit 8 (ucast (m (a + 2))) OR ucast (m (a + 3))"

definition plain32 :: "(u16 \<Rightarrow> bool) \<Rightarrow> u16 \<Rightarrow> bool" where
  "plain32 plain a \<longleftrightarrow> plain a \<and> plain (a + 1) \<and> plain (a + 2) \<and> plain (a + 3)"

locale register_bus = byte_bus wr rd up mem plain
  for wr :: "u16 \<Rightarrow> u8 \<Rightarrow> ('s, unit) prog"
    and rd :: "u16 \<Rightarrow> ('s, u8) prog"
    and up :: "'s \<Rightarrow> bool"
    and mem :: "'s \<Rightarrow> u16 \<Rightarrow> u8"
    and plain :: "u16 \<Rightarrow> bool"
begin

lemma write32:
  assumes "up s" and "plain32 plain a"
  shows "\<exists>s'. write_reg32_loop wr a (a + 4) v s = Some (Inr (), s') \<and> up s' \<and>
    mem s' = (mem s)(a + 3 := ucast v, a + 2 := ucast (drop_bit 8 v), a + 1 := ucast (drop_bit 16 v),
      a := ucast (drop_bit 24 v))"
proof -
  note p = assms(2) [unfolded plain32_def]
  obtain s1 where s1: "wr (a + 3) (ucast v) s = Some (Inr (), s1)" "up s1"
      "mem s1 = (mem s)(a + 3 := ucast v)"
    using wr [OF assms(1)] p by blast
  obtain s2 where s2: "wr (a + 2) (ucast (drop_bit 8 v)) s1 = Some (Inr (), s2)" "up s2"
      "mem s2 = (mem s1)(a + 2 := ucast (drop_bit 8 v))"
    using wr [OF s1(2)] p by blast
  obtain s3 where s3: "wr (a + 1) (ucast (drop_bit 16 v)) s2 = Some (Inr (), s3)" "up s3"
      "mem s3 = (mem s2)(a + 1 := ucast (drop_bit 16 v))"
    using wr [OF s2(2)] p by blast
  obtain s4 where s4: "wr a (ucast (drop_bit 24 v)) s3 = Some (Inr (), s4)" "up s4"
      "mem s4 = (mem s3)(a := ucast (drop_bit 24 v))"
    using wr [OF s3(2)] p by blast
  have step: "write_reg32_loop wr a (a + k + 1) w t = thenE (wr (a + k) (ucast w)) (write_reg32_loop wr a (a + k) (drop_bit 8 w)) t"
    if "k + 1 \<noteq> 0" for k w t
    using that ucast_and_ff [of w] by (subst write_reg32_loop.simps) (simp add: add.assoc)
  have last: "write_reg32_loop wr a a w = ret ()" for w
    by (subst write_reg32_loop.simps) simp
  have "write_reg32_loop wr a (a + 4) v s = Some (Inr (), s4)"
    using step [of 3 v s] step [of 2 "drop_bit 8 v" s1] step [of 1 "drop_bit 16 v" s2]
      step [of 0 "drop_bit 24 v" s3] s1(1) s2(1) s3(1) s4(1)
    by (simp add: thenE_def bindE_def last add.assoc)
  then show ?thesis
    using s1 s2 s3 s4 by simp
qed

lemma read32:
  assumes "up s" and "plain32 plain a" and "unat a + 4 < 2 ^ 16"
  shows "\<exists>s'. read_reg32_loop rd a a v s = Some (Inr (mem32 (mem s) a), s') \<and> up s' \<and> mem s' = mem s"
proof -
  note p = assms(2) [unfolded plain32_def]
  obtain s1 where s1: "rd a s = Some (Inr (mem s a), s1)" "up s1" "mem s1 = mem s"
    using rd [OF assms(1)] p by blast
  obtain s2 where s2: "rd (a + 1) s1 = Some (Inr (mem s (a + 1)), s2)" "up s2" "mem s2 = mem s"
    using rd [OF s1(2)] p s1(3) by metis
  obtain s3 where s3: "rd (a + 2) s2 = Some (Inr (mem s (a + 2)), s3)" "up s3" "mem s3 = mem s"
    using rd [OF s2(2)] p s2(3) by metis
  obtain s4 where s4: "rd (a + 3) s3 = Some (Inr (mem s (a + 3)), s4)" "up s4" "mem s4 = mem s"
    using rd [OF s3(2)] p s3(3) by metis
  have n: "unat (a + 1) = unat a + 1" "unat (a + 2) = unat a + 2" "unat (a + 3) = unat a + 3"
      "unat (a + 4) = unat a + 4"
    using assms(3) by (simp_all add: unat_word_ariths)
  let ?b = "\<lambda>k. ucast (mem s (a + k)) :: u32"
  have "read_reg32_loop rd a a v s =
      Some (Inr (push_bit 8 (push_bit 8 (push_bit 8 (push_bit 8 v OR ucast (mem s a)) OR ?b 1) OR ?b 2) OR ?b 3), s4)"
    using s1(1) s2(1) s3(1) s4(1) n
    by (simp add: read_reg32_loop.simps add.assoc)
  moreover have "push_bit 8 (push_bit 8 (push_bit 8 (push_bit 8 v OR ucast (mem s a)) OR ?b 1) OR ?b 2) OR ?b 3 =
      mem32 (mem s) a"
    unfolding mem32_def by (rule bit_word_eqI) (auto simp: bit_simps)
  ultimately show ?thesis
    using s4 by simp
qed

text \<open>What was written is read back.\<close>

lemma roundtrip32:
  assumes "up s" and "plain32 plain a" and "unat a + 4 < 2 ^ 16"
  shows "\<exists>s1 s2. write_reg32_loop wr a (a + 4) v s = Some (Inr (), s1) \<and>
    read_reg32_loop rd a a w s1 = Some (Inr v, s2)"
proof -
  obtain s1 where s1: "write_reg32_loop wr a (a + 4) v s = Some (Inr (), s1)" "up s1"
    "mem s1 = (mem s)(a + 3 := ucast v, a + 2 := ucast (drop_bit 8 v), a + 1 := ucast (drop_bit 16 v),
      a := ucast (drop_bit 24 v))"
    using write32 [OF assms(1,2)] by blast
  have "mem32 (mem s1) a = v"
    unfolding mem32_def s1(3) using u32_join_bytes [of v] by simp
  then show ?thesis
    using read32 [OF s1(2) assms(2,3), of w] s1(1) by metis
qed

end

text \<open>
  The USB phy: writing \<open>GO\<close> and a phy register number to a command register starts an access, the
  command register shows \<open>GO\<close> until it is done.
\<close>

locale ulpi_bus = byte_bus wr rd up mem plain
  for wr :: "reg_name \<Rightarrow> u8 \<Rightarrow> ('s, unit) prog"
    and rd :: "reg_name \<Rightarrow> ('s, u8) prog"
    and up :: "'s \<Rightarrow> bool"
    and mem :: "'s \<Rightarrow> reg_name \<Rightarrow> u8"
    and plain :: "reg_name \<Rightarrow> bool" +
  fixes phy :: "'s \<Rightarrow> u8 \<Rightarrow> u8"
    and busy :: "'s \<Rightarrow> nat"
  assumes data: "plain UCFG_WDATA" "plain UCFG_RDATA"
    and wr_phy: "up s \<Longrightarrow> plain a \<Longrightarrow> wr a v s = Some (r, s') \<Longrightarrow> phy s' = phy s"
    and rd_phy: "up s \<Longrightarrow> plain a \<Longrightarrow> rd a s = Some (q, s') \<Longrightarrow> phy s' = phy s"
    and wcmd: "up s \<Longrightarrow>
      \<exists>s'. wr UCFG_WCMD (UCFG_REG_GO OR (n AND UCFG_REG_ADDRMASK)) s = Some (Inr (), s') \<and> up s' \<and>
        phy s' = (phy s)(n AND UCFG_REG_ADDRMASK := mem s UCFG_WDATA)"
    and rcmd: "up s \<Longrightarrow>
      \<exists>s'. wr UCFG_RCMD (UCFG_REG_GO OR (n AND UCFG_REG_ADDRMASK)) s = Some (Inr (), s') \<and> up s' \<and>
        phy s' = phy s \<and> mem s' UCFG_RDATA = phy s (n AND UCFG_REG_ADDRMASK)"
    and poll: "up s \<Longrightarrow> c \<in> {UCFG_WCMD, UCFG_RCMD} \<Longrightarrow>
      \<exists>v s'. rd c s = Some (Inr v, s') \<and> up s' \<and> mem s' UCFG_RDATA = mem s UCFG_RDATA \<and>
        phy s' = phy s \<and> (v AND UCFG_REG_GO \<noteq> 0 \<longleftrightarrow> 0 < busy s) \<and> busy s' = busy s - 1"
begin

text \<open>The waiting loop ends, and nothing but the time has changed.\<close>

lemma poll_go_ends:
  "up s \<Longrightarrow> c \<in> {UCFG_WCMD, UCFG_RCMD} \<Longrightarrow>
   \<exists>s'. poll_go (rd c) s = Some (Inr (), s') \<and> up s' \<and> mem s' UCFG_RDATA = mem s UCFG_RDATA \<and> phy s' = phy s"
proof (induction "busy s" arbitrary: s rule: less_induct)
  case less
  obtain v s1 where s1: "rd c s = Some (Inr v, s1)" "up s1" "mem s1 UCFG_RDATA = mem s UCFG_RDATA"
      "phy s1 = phy s" "v AND UCFG_REG_GO \<noteq> 0 \<longleftrightarrow> 0 < busy s" "busy s1 = busy s - 1"
    using poll [OF less.prems] by (elim exE conjE) (rule that)
  show ?case
  proof (cases "0 < busy s")
    case True
    then have "busy s1 < busy s"
      using s1(6) by simp
    then obtain s' where "poll_go (rd c) s1 = Some (Inr (), s')" "up s'"
        "mem s' UCFG_RDATA = mem s1 UCFG_RDATA" "phy s' = phy s1"
      using less.hyps [OF _ s1(2) less.prems(2)] by blast
    then show ?thesis
      using s1 True by (subst poll_go.simps) simp
  next
    case False
    then show ?thesis
      using s1 by (subst poll_go.simps) simp
  qed
qed

lemma phy_write:
  assumes "up s"
  shows "\<exists>s'. seqE [wr UCFG_WDATA v, wr UCFG_WCMD (UCFG_REG_GO OR (a AND UCFG_REG_ADDRMASK)),
      poll_go (rd UCFG_WCMD)] s = Some (Inr (), s') \<and> up s' \<and>
    phy s' = (phy s)(a AND UCFG_REG_ADDRMASK := v)"
proof -
  obtain s1 where s1: "wr UCFG_WDATA v s = Some (Inr (), s1)" "up s1" "mem s1 = (mem s)(UCFG_WDATA := v)"
    using wr [OF assms data(1)] by blast
  have phy: "phy s1 = phy s"
    by (rule wr_phy [OF assms data(1) s1(1)])
  obtain s2 where s2: "wr UCFG_WCMD (UCFG_REG_GO OR (a AND UCFG_REG_ADDRMASK)) s1 = Some (Inr (), s2)"
      "up s2" "phy s2 = (phy s1)(a AND UCFG_REG_ADDRMASK := mem s1 UCFG_WDATA)"
    using wcmd [OF s1(2)] by blast
  obtain s3 where "poll_go (rd UCFG_WCMD) s2 = Some (Inr (), s3)" "up s3" "phy s3 = phy s2"
    using poll_go_ends [OF s2(2)] by blast
  then show ?thesis
    using s1 s2 phy by (simp add: thenE_def bindE_def)
qed

lemma phy_read:
  assumes "up s"
  shows "\<exists>s'. thenE (wr UCFG_RCMD (UCFG_REG_GO OR (a AND UCFG_REG_ADDRMASK)))
      (thenE (poll_go (rd UCFG_RCMD)) (rd UCFG_RDATA)) s =
        Some (Inr (phy s (a AND UCFG_REG_ADDRMASK)), s') \<and> up s' \<and> phy s' = phy s"
proof -
  obtain s1 where s1: "wr UCFG_RCMD (UCFG_REG_GO OR (a AND UCFG_REG_ADDRMASK)) s = Some (Inr (), s1)"
      "up s1" "phy s1 = phy s" "mem s1 UCFG_RDATA = phy s (a AND UCFG_REG_ADDRMASK)"
    using rcmd [OF assms] by blast
  obtain s2 where s2: "poll_go (rd UCFG_RCMD) s1 = Some (Inr (), s2)" "up s2"
      "mem s2 UCFG_RDATA = mem s1 UCFG_RDATA" "phy s2 = phy s1"
    using poll_go_ends [OF s1(2)] by blast
  obtain s3 where s3: "rd UCFG_RDATA s2 = Some (Inr (mem s2 UCFG_RDATA), s3)" "up s3"
    using rd [OF s2(2) data(2)] by blast
  then show ?thesis
    using s1 s2 rd_phy [OF s2(2) data(2) s3(1)] by (simp add: thenE_def bindE_def)
qed

end

end
