(* ===== verification/Cha_Device.thy ===== *)
theory Cha_Device imports
  Register_Bus
begin

text \<open>
  The laws of the device, stated over what it answers to the bytes the code sends: the echo
  protocol of the register bus, and the phy behind it.  Under these laws the operations of \<open>Cha\<close>
  provide the interfaces of \<open>Register_Bus\<close>.  Second part: an emulated FPGA that has them, on which
  the interfaces are interpreted.
\<close>

unbundle bit_operations_syntax

section \<open>Exchanges\<close>

abbreviation "sends_msg msg \<equiv> Ftdi_write_data INTERFACE_A msg"
abbreviation "reads_msg \<equiv> Ftdi_read_data INTERFACE_A 5"

text \<open>\<open>k\<close> reads bring nothing, the next one brings \<open>bs\<close>.\<close>

fun answered :: "env \<Rightarrow> nat \<Rightarrow> history \<Rightarrow> u8 list \<Rightarrow> history \<Rightarrow> bool" where
  "answered env 0 h bs h' \<longleftrightarrow>
     0 \<le> r_ret (respond env h reads_msg) \<and> take 5 (r_bytes (respond env h reads_msg)) = bs \<and>
     h' = after env reads_msg h"
| "answered env (Suc k) h bs h' \<longleftrightarrow>
     0 \<le> r_ret (respond env h reads_msg) \<and> r_bytes (respond env h reads_msg) = [] \<and>
     answered env k (after env reads_msg h) bs h'"

definition exchange :: "env \<Rightarrow> history \<Rightarrow> u8 list \<Rightarrow> u8 list \<Rightarrow> history \<Rightarrow> bool" where
  "exchange env h msg bs h' \<longleftrightarrow>
     0 \<le> r_ret (respond env h (sends_msg msg)) \<and> (\<exists>k. answered env k (after env (sends_msg msg) h) bs h')"

lemma read_nonempty_answered:
  "answered env k (hist s) bs h' \<Longrightarrow> bs \<noteq> [] \<Longrightarrow> read_nonempty env s = Some (Inr bs, s\<lparr>hist := h'\<rparr>)"
proof (induction k arbitrary: s)
  case 0
  then show ?case
    by (subst read_nonempty.simps) (auto simp: read_data_run Let_def)
next
  case (Suc k)
  then show ?case
    using Suc.IH [of "s\<lparr>hist := after env reads_msg (hist s)\<rparr>"]
    by (subst read_nonempty.simps) (simp add: read_data_run Let_def)
qed

lemma reg_frame_simps:
  "length (reg_frame a v) = 5" "reg_frame a v ! 3 = v"
  "cha_transaction_checksum (take 4 (reg_frame a v)) = reg_frame a v ! 4" "reg_frame a v \<noteq> []"
  by (simp_all add: reg_frame_def Let_def nth_append)

lemma cha_transaction_exchange:
  assumes "exchange env (hist s) (reg_frame a v) (reg_frame a w) h'"
  shows "cha_transaction env a v s = Some (Inr w, s\<lparr>hist := h'\<rparr>)"
proof -
  let ?h1 = "after env (sends_msg (reg_frame a v)) (hist s)"
  obtain k where k: "0 \<le> r_ret (respond env (hist s) (sends_msg (reg_frame a v)))"
      "answered env k ?h1 (reg_frame a w) h'"
    using assms by (auto simp: exchange_def)
  have "read_nonempty env (s\<lparr>hist := ?h1\<rparr>) = Some (Inr (reg_frame a w), s\<lparr>hist := h'\<rparr>)"
    using read_nonempty_answered [of env k "s\<lparr>hist := ?h1\<rparr>"] k(2) by (simp add: reg_frame_simps)
  then show ?thesis
    using k(1) by (simp add: cha_transaction_def transaction_answer_def thenE_def bindE_def do_checked_run Let_def
        reg_frame_simps del: One_nat_def)
qed

section \<open>The laws\<close>

record device =
  d_up :: "history \<Rightarrow> bool"
  d_mem :: "history \<Rightarrow> u16 \<Rightarrow> u8"
  d_plain :: "u16 \<Rightarrow> bool"
  d_phy :: "history \<Rightarrow> u8 \<Rightarrow> u8"
  d_busy :: "history \<Rightarrow> nat"

text \<open>A write is echoed; a read is answered with the value; plain registers have no effects.\<close>

definition register_laws :: "env \<Rightarrow> device \<Rightarrow> bool" where
  "register_laws env dev \<longleftrightarrow>
     (\<forall>h a v. d_up dev h \<longrightarrow> d_plain dev a \<longrightarrow>
        (\<exists>h'. exchange env h (reg_frame (a OR 0x8000) v) (reg_frame (a OR 0x8000) v) h' \<and>
           d_up dev h' \<and> d_mem dev h' = (d_mem dev h)(a := v) \<and> d_phy dev h' = d_phy dev h)) \<and>
     (\<forall>h a. d_up dev h \<longrightarrow> d_plain dev a \<longrightarrow>
        (\<exists>h'. exchange env h (reg_frame a 0) (reg_frame a (d_mem dev h a)) h' \<and>
           d_up dev h' \<and> d_mem dev h' = d_mem dev h \<and> d_phy dev h' = d_phy dev h))"

text \<open>\<open>R\<close> is the register map.\<close>

definition phy_laws :: "env \<Rightarrow> device \<Rightarrow> (reg_name \<Rightarrow> u16) \<Rightarrow> bool" where
  "phy_laws env dev R \<longleftrightarrow>
     d_plain dev (R UCFG_WDATA) \<and> d_plain dev (R UCFG_RDATA) \<and> inj R \<and>
     (\<forall>h n. d_up dev h \<longrightarrow> n AND UCFG_REG_ADDRMASK = n \<longrightarrow>
        (\<exists>h'. exchange env h (reg_frame (R UCFG_WCMD OR 0x8000) (UCFG_REG_GO OR n))
             (reg_frame (R UCFG_WCMD OR 0x8000) (UCFG_REG_GO OR n)) h' \<and> d_up dev h' \<and>
           d_phy dev h' = (d_phy dev h)(n := d_mem dev h (R UCFG_WDATA)))) \<and>
     (\<forall>h n. d_up dev h \<longrightarrow> n AND UCFG_REG_ADDRMASK = n \<longrightarrow>
        (\<exists>h'. exchange env h (reg_frame (R UCFG_RCMD OR 0x8000) (UCFG_REG_GO OR n))
             (reg_frame (R UCFG_RCMD OR 0x8000) (UCFG_REG_GO OR n)) h' \<and> d_up dev h' \<and>
           d_phy dev h' = d_phy dev h \<and> d_mem dev h' (R UCFG_RDATA) = d_phy dev h n)) \<and>
     (\<forall>h c. d_up dev h \<longrightarrow> c \<in> {UCFG_WCMD, UCFG_RCMD} \<longrightarrow>
        (\<exists>h' v. exchange env h (reg_frame (R c) 0) (reg_frame (R c) v) h' \<and> d_up dev h' \<and>
           d_mem dev h' (R UCFG_RDATA) = d_mem dev h (R UCFG_RDATA) \<and> d_phy dev h' = d_phy dev h \<and>
           (v AND UCFG_REG_GO \<noteq> 0 \<longleftrightarrow> 0 < d_busy dev h) \<and> d_busy dev h' = d_busy dev h - 1))"

lemma cha_write_reg_exchange:
  "exchange env (hist s) (reg_frame (a OR 0x8000) v) (reg_frame (a OR 0x8000) v) h' \<Longrightarrow>
   cha_write_reg env a v s = Some (Inr (), s\<lparr>hist := h'\<rparr>)"
  by (simp add: cha_write_reg_def bindE_def cha_transaction_exchange)

lemma cha_read_reg_exchange:
  "exchange env (hist s) (reg_frame a 0) (reg_frame a v) h' \<Longrightarrow>
   cha_read_reg env a s = Some (Inr v, s\<lparr>hist := h'\<rparr>)"
  by (simp add: cha_read_reg_def cha_transaction_exchange)

text \<open>The code's register access provides the bus, on every device with the laws.\<close>

lemma register_laws_bus:
  assumes "register_laws env dev"
  shows "register_bus (cha_write_reg env) (cha_read_reg env) (\<lambda>s. d_up dev (hist s))
    (\<lambda>s. d_mem dev (hist s)) (d_plain dev)"
proof unfold_locales
  fix s :: "cha st" and a v
  assume up: "d_up dev (hist s)" "d_plain dev a"
  obtain h' where "exchange env (hist s) (reg_frame (a OR 0x8000) v) (reg_frame (a OR 0x8000) v) h'"
      "d_up dev h'" "d_mem dev h' = (d_mem dev (hist s))(a := v)"
    using assms up unfolding register_laws_def by blast
  then show "\<exists>s'. cha_write_reg env a v s = Some (Inr (), s') \<and> d_up dev (hist s') \<and>
      d_mem dev (hist s') = (d_mem dev (hist s))(a := v)"
    by (intro exI [of _ "s\<lparr>hist := h'\<rparr>"]) (simp add: cha_write_reg_exchange)
  obtain h' where "exchange env (hist s) (reg_frame a 0) (reg_frame a (d_mem dev (hist s) a)) h'"
      "d_up dev h'" "d_mem dev h' = d_mem dev (hist s)"
    using assms up unfolding register_laws_def by blast
  then show "\<exists>s'. cha_read_reg env a s = Some (Inr (d_mem dev (hist s) a), s') \<and>
      d_up dev (hist s') \<and> d_mem dev (hist s') = d_mem dev (hist s)"
    by (intro exI [of _ "s\<lparr>hist := h'\<rparr>"]) (simp add: cha_read_reg_exchange)
qed

text \<open>The same by name, with the phy; the state must have the register map \<open>R\<close>.\<close>

definition named_up :: "device \<Rightarrow> (reg_name \<Rightarrow> u16) \<Rightarrow> cha st \<Rightarrow> bool" where
  "named_up dev R s \<longleftrightarrow> d_up dev (hist s) \<and> addr (cha_reg (obj s)) = R"

definition named_mem :: "device \<Rightarrow> (reg_name \<Rightarrow> u16) \<Rightarrow> cha st \<Rightarrow> reg_name \<Rightarrow> u8" where
  "named_mem dev R s n = d_mem dev (hist s) (R n)"

lemma at_reg_run: "addr (cha_reg (obj s)) = R \<Longrightarrow> at_reg n f s = f (R n) s"
  by (simp add: at_reg_def bindE_def)

lemma write_by_name_exchange:
  assumes "named_up dev R s"
    and "exchange env (hist s) (reg_frame (R n OR 0x8000) v) (reg_frame (R n OR 0x8000) v) h'"
  shows "cha_write_reg_by_name env n v s = Some (Inr (), s\<lparr>hist := h'\<rparr>)"
proof -
  have "cha_write_reg_by_name env n v s = cha_write_reg env (R n) v s"
    unfolding cha_write_reg_by_name_def using assms(1) by (intro at_reg_run) (simp add: named_up_def)
  then show ?thesis
    using assms(2) by (simp add: cha_write_reg_exchange)
qed

lemma read_by_name_exchange:
  assumes "named_up dev R s" and "exchange env (hist s) (reg_frame (R n) 0) (reg_frame (R n) v) h'"
  shows "cha_read_reg_by_name env n s = Some (Inr v, s\<lparr>hist := h'\<rparr>)"
proof -
  have "cha_read_reg_by_name env n s = cha_read_reg env (R n) s"
    unfolding cha_read_reg_by_name_def using assms(1) by (intro at_reg_run) (simp add: named_up_def)
  then show ?thesis
    using assms(2) by (simp add: cha_read_reg_exchange)
qed

lemma mask_idem: "(n AND UCFG_REG_ADDRMASK) AND UCFG_REG_ADDRMASK = n AND UCFG_REG_ADDRMASK"
  by (simp add: and.assoc)

lemma phy_laws_wcmd:
  "phy_laws env dev R \<Longrightarrow> d_up dev h \<Longrightarrow> n AND UCFG_REG_ADDRMASK = n \<Longrightarrow>
   \<exists>h'. exchange env h (reg_frame (R UCFG_WCMD OR 0x8000) (UCFG_REG_GO OR n))
      (reg_frame (R UCFG_WCMD OR 0x8000) (UCFG_REG_GO OR n)) h' \<and> d_up dev h' \<and>
    d_phy dev h' = (d_phy dev h)(n := d_mem dev h (R UCFG_WDATA))"
  unfolding phy_laws_def by blast

lemma phy_laws_rcmd:
  "phy_laws env dev R \<Longrightarrow> d_up dev h \<Longrightarrow> n AND UCFG_REG_ADDRMASK = n \<Longrightarrow>
   \<exists>h'. exchange env h (reg_frame (R UCFG_RCMD OR 0x8000) (UCFG_REG_GO OR n))
      (reg_frame (R UCFG_RCMD OR 0x8000) (UCFG_REG_GO OR n)) h' \<and> d_up dev h' \<and>
    d_phy dev h' = d_phy dev h \<and> d_mem dev h' (R UCFG_RDATA) = d_phy dev h n"
  unfolding phy_laws_def by blast

lemma phy_laws_bus:
  assumes "register_laws env dev" and "phy_laws env dev R"
  shows "ulpi_bus (cha_write_reg_by_name env) (cha_read_reg_by_name env) (named_up dev R)
    (named_mem dev R) (\<lambda>n. d_plain dev (R n)) (\<lambda>s. d_phy dev (hist s)) (\<lambda>s. d_busy dev (hist s))"
proof -
  have inj: "inj R"
    using assms(2) by (simp add: phy_laws_def)
  have wr: "\<exists>h'. cha_write_reg_by_name env n v s = Some (Inr (), s\<lparr>hist := h'\<rparr>) \<and> d_up dev h' \<and>
      d_mem dev h' = (d_mem dev (hist s))(R n := v) \<and> d_phy dev h' = d_phy dev (hist s)"
    if up: "named_up dev R s" and p: "d_plain dev (R n)" for s n v
  proof -
    have "d_up dev (hist s)"
      using up by (simp add: named_up_def)
    then obtain h' where "exchange env (hist s) (reg_frame (R n OR 0x8000) v) (reg_frame (R n OR 0x8000) v) h'"
        "d_up dev h'" "d_mem dev h' = (d_mem dev (hist s))(R n := v)" "d_phy dev h' = d_phy dev (hist s)"
      using assms(1) p unfolding register_laws_def by blast
    then show ?thesis
      using write_by_name_exchange [OF up] by blast
  qed
  have rd: "\<exists>h'. cha_read_reg_by_name env n s = Some (Inr (d_mem dev (hist s) (R n)), s\<lparr>hist := h'\<rparr>) \<and>
      d_up dev h' \<and> d_mem dev h' = d_mem dev (hist s) \<and> d_phy dev h' = d_phy dev (hist s)"
    if up: "named_up dev R s" and p: "d_plain dev (R n)" for s n
  proof -
    have "d_up dev (hist s)"
      using up by (simp add: named_up_def)
    then obtain h' where "exchange env (hist s) (reg_frame (R n) 0) (reg_frame (R n) (d_mem dev (hist s) (R n))) h'"
        "d_up dev h'" "d_mem dev h' = d_mem dev (hist s)" "d_phy dev h' = d_phy dev (hist s)"
      using assms(1) p unfolding register_laws_def by blast
    then show ?thesis
      using read_by_name_exchange [OF up] by blast
  qed
  have wcmd: "\<exists>h'. cha_write_reg_by_name env UCFG_WCMD (UCFG_REG_GO OR (n AND UCFG_REG_ADDRMASK)) s =
        Some (Inr (), s\<lparr>hist := h'\<rparr>) \<and> d_up dev h' \<and>
        d_phy dev h' = (d_phy dev (hist s))(n AND UCFG_REG_ADDRMASK := d_mem dev (hist s) (R UCFG_WDATA))"
    if up: "named_up dev R s" for s n
    using phy_laws_wcmd [OF assms(2) _ mask_idem, of "hist s" n] up write_by_name_exchange [OF up]
    unfolding named_up_def by blast
  have rcmd: "\<exists>h'. cha_write_reg_by_name env UCFG_RCMD (UCFG_REG_GO OR (n AND UCFG_REG_ADDRMASK)) s =
        Some (Inr (), s\<lparr>hist := h'\<rparr>) \<and> d_up dev h' \<and> d_phy dev h' = d_phy dev (hist s) \<and>
        d_mem dev h' (R UCFG_RDATA) = d_phy dev (hist s) (n AND UCFG_REG_ADDRMASK)"
    if up: "named_up dev R s" for s n
    using phy_laws_rcmd [OF assms(2) _ mask_idem, of "hist s" n] up write_by_name_exchange [OF up]
    unfolding named_up_def by blast
  have poll: "\<exists>h' v. cha_read_reg_by_name env c s = Some (Inr v, s\<lparr>hist := h'\<rparr>) \<and> d_up dev h' \<and>
      d_mem dev h' (R UCFG_RDATA) = d_mem dev (hist s) (R UCFG_RDATA) \<and> d_phy dev h' = d_phy dev (hist s) \<and>
      (v AND UCFG_REG_GO \<noteq> 0 \<longleftrightarrow> 0 < d_busy dev (hist s)) \<and> d_busy dev h' = d_busy dev (hist s) - 1"
    if up: "named_up dev R s" and p: "c \<in> {UCFG_WCMD, UCFG_RCMD}" for s c
  proof -
    have "d_up dev (hist s)"
      using up by (simp add: named_up_def)
    then show ?thesis
      using assms(2) up p read_by_name_exchange [OF up] unfolding phy_laws_def by metis
  qed
  show ?thesis
  proof unfold_locales
    show "d_plain dev (R UCFG_WDATA)" "d_plain dev (R UCFG_RDATA)"
      using assms(2) by (simp_all add: phy_laws_def)
  next
    fix s n v
    assume s: "named_up dev R s" "d_plain dev (R n)"
    show "\<exists>s'. cha_write_reg_by_name env n v s = Some (Inr (), s') \<and> named_up dev R s' \<and>
        named_mem dev R s' = (named_mem dev R s)(n := v)"
      using wr [OF s, of v] s(1) inj by (fastforce simp: named_up_def named_mem_def inj_eq)
    show "\<exists>s'. cha_read_reg_by_name env n s = Some (Inr (named_mem dev R s n), s') \<and> named_up dev R s' \<and>
        named_mem dev R s' = named_mem dev R s"
      using rd [OF s] s(1) by (fastforce simp: named_up_def named_mem_def)
    show "d_phy dev (hist s') = d_phy dev (hist s)"
      if "cha_write_reg_by_name env n v s = Some (r, s')" for r s'
      using wr [OF s, of v] that by auto
    show "d_phy dev (hist s') = d_phy dev (hist s)"
      if "cha_read_reg_by_name env n s = Some (r, s')" for r s'
      using rd [OF s] that by auto
  next
    fix s n
    assume s: "named_up dev R s"
    show "\<exists>s'. cha_write_reg_by_name env UCFG_WCMD (UCFG_REG_GO OR (n AND UCFG_REG_ADDRMASK)) s = Some (Inr (), s') \<and>
        named_up dev R s' \<and>
        d_phy dev (hist s') = (d_phy dev (hist s))(n AND UCFG_REG_ADDRMASK := named_mem dev R s UCFG_WDATA)"
      using wcmd [OF s, of n] s by (fastforce simp: named_up_def named_mem_def)
    show "\<exists>s'. cha_write_reg_by_name env UCFG_RCMD (UCFG_REG_GO OR (n AND UCFG_REG_ADDRMASK)) s = Some (Inr (), s') \<and>
        named_up dev R s' \<and> d_phy dev (hist s') = d_phy dev (hist s) \<and>
        named_mem dev R s' UCFG_RDATA = d_phy dev (hist s) (n AND UCFG_REG_ADDRMASK)"
      using rcmd [OF s, of n] s by (fastforce simp: named_up_def named_mem_def)
  next
    fix s c
    assume s: "named_up dev R s" "c \<in> {UCFG_WCMD, UCFG_RCMD}"
    show "\<exists>v s'. cha_read_reg_by_name env c s = Some (Inr v, s') \<and> named_up dev R s' \<and>
        named_mem dev R s' UCFG_RDATA = named_mem dev R s UCFG_RDATA \<and>
        d_phy dev (hist s') = d_phy dev (hist s) \<and>
        (v AND UCFG_REG_GO \<noteq> 0 \<longleftrightarrow> 0 < d_busy dev (hist s)) \<and>
        d_busy dev (hist s') = d_busy dev (hist s) - 1"
      using poll [OF s] s(1) by (fastforce simp: named_up_def named_mem_def)
  qed
qed

section \<open>An emulated FPGA\<close>

text \<open>
  A device with the laws: registers at the addresses of the shipped register map, a phy whose
  accesses take \<open>n\<close> polls, and the pending answer.
\<close>

record fpga =
  f_mem :: "u16 \<Rightarrow> u8"
  f_phy :: "u8 \<Rightarrow> u8"
  f_busy :: nat
  f_answer :: "u8 list"

definition emu_map :: "reg_name \<Rightarrow> u16" where
  "emu_map r = (case r of
       UCFG_WDATA \<Rightarrow> 0x20 | UCFG_WCMD \<Rightarrow> 0x21 | UCFG_RDATA \<Rightarrow> 0x22 | UCFG_RCMD \<Rightarrow> 0x23
     | SDRAM_SINK_RING_BASE \<Rightarrow> 0x30 | SDRAM_SINK_RING_END \<Rightarrow> 0x34
     | SDRAM_HOST_READ_RING_BASE \<Rightarrow> 0x38 | SDRAM_HOST_READ_RING_END \<Rightarrow> 0x3c
     | SDRAM_SINK_PTR_READ \<Rightarrow> 0x40 | SDRAM_SINK_GO \<Rightarrow> 0x41 | SDRAM_HOST_READ_GO \<Rightarrow> 0x42
     | CSTREAM_CFG \<Rightarrow> 0x10 | CSTREAM_CONS_LO \<Rightarrow> 0x11 | CSTREAM_CONS_HI \<Rightarrow> 0x12 | LEDS_OUT \<Rightarrow> 0x13)"

definition emu_plain :: "u16 \<Rightarrow> bool" where
  "emu_plain a \<longleftrightarrow> a AND 0x8000 = 0 \<and> a \<noteq> emu_map UCFG_WCMD \<and> a \<noteq> emu_map UCFG_RCMD"

definition frame_addr :: "u8 list \<Rightarrow> u16" where
  "frame_addr msg = push_bit 8 (ucast (msg ! 1)) OR ucast (msg ! 2)"

text \<open>What a message does; the second case of \<open>emu_write\<close> is a phy access.\<close>

definition emu_write :: "nat \<Rightarrow> u16 \<Rightarrow> u8 \<Rightarrow> fpga \<Rightarrow> fpga" where
  "emu_write n a v d =
     (if a = emu_map UCFG_WCMD
      then d\<lparr>f_phy := (f_phy d)(v AND UCFG_REG_ADDRMASK := f_mem d (emu_map UCFG_WDATA)), f_busy := n\<rparr>
      else if a = emu_map UCFG_RCMD
      then d\<lparr>f_mem := (f_mem d)(emu_map UCFG_RDATA := f_phy d (v AND UCFG_REG_ADDRMASK)), f_busy := n\<rparr>
      else d\<lparr>f_mem := (f_mem d)(a := v)\<rparr>)"

definition emu_read :: "u16 \<Rightarrow> fpga \<Rightarrow> u8 \<times> fpga" where
  "emu_read a d =
     (if a = emu_map UCFG_WCMD \<or> a = emu_map UCFG_RCMD
      then (if 0 < f_busy d then UCFG_REG_GO else 0, d\<lparr>f_busy := f_busy d - 1\<rparr>)
      else (f_mem d a, d))"

definition emu_message :: "nat \<Rightarrow> u8 list \<Rightarrow> fpga \<Rightarrow> fpga" where
  "emu_message n msg d =
     (let a = frame_addr msg
      in if a AND 0x8000 \<noteq> 0 then (emu_write n (a AND 0x7fff) (msg ! 3) d)\<lparr>f_answer := msg\<rparr>
         else let (v, d') = emu_read a d in d'\<lparr>f_answer := reg_frame a v\<rparr>)"

definition emu_step :: "nat \<Rightarrow> call \<times> reply \<Rightarrow> fpga \<Rightarrow> fpga" where
  "emu_step n e d = (case fst e of
       Ftdi_write_data ch msg \<Rightarrow> if ch = INTERFACE_A \<and> length msg = 5 then emu_message n msg d else d
     | Ftdi_read_data ch k \<Rightarrow> if ch = INTERFACE_A then d\<lparr>f_answer := []\<rparr> else d
     | _ \<Rightarrow> d)"

definition emu_start :: fpga where
  "emu_start = \<lparr>f_mem = \<lambda>_. 0, f_phy = \<lambda>_. 0, f_busy = 0, f_answer = []\<rparr>"

definition emu_state :: "nat \<Rightarrow> history \<Rightarrow> fpga" where
  "emu_state n h = fold (emu_step n) h emu_start"

definition emu_env :: "nat \<Rightarrow> env" where
  "emu_env n = \<lparr>
     respond = \<lambda>h c. (case c of
         Ftdi_read_data ch k \<Rightarrow> \<lparr>r_ret = 5, r_bytes = f_answer (emu_state n h), r_size = None\<rparr>
       | _ \<Rightarrow> \<lparr>r_ret = 1, r_bytes = [], r_size = None\<rparr>),
     errtext = \<lambda>_. [], opcode = \<lambda>_. 0, out_packet_size = 512\<rparr>"

definition emu_device :: "nat \<Rightarrow> device" where
  "emu_device n = \<lparr>d_up = \<lambda>h. True, d_mem = \<lambda>h. f_mem (emu_state n h), d_plain = emu_plain,
     d_phy = \<lambda>h. f_phy (emu_state n h), d_busy = \<lambda>h. f_busy (emu_state n h)\<rparr>"

lemma frame_addr_frame: "frame_addr (reg_frame a v) = a"
proof -
  have m: "(0xFF :: u16) = mask 8"
    by (simp add: mask_eq_exp_minus_1)
  have "push_bit 8 (ucast (ucast (drop_bit 8 a) :: u8)) OR ucast (ucast (a AND 0xFF) :: u8) = a"
    unfolding m by (rule bit_word_eqI) (auto simp: bit_simps)
  then show ?thesis
    by (simp add: frame_addr_def reg_frame_def Let_def)
qed

text \<open>Every message is answered at the first read.\<close>

lemma emu_exchange:
  assumes "length msg = 5" and "d = emu_message n msg (emu_state n h)" and "f_answer d = bs"
    and "length bs = 5"
  shows "\<exists>h'. exchange (emu_env n) h msg bs h' \<and> emu_state n h' = d\<lparr>f_answer := []\<rparr>"
proof -
  let ?h1 = "after (emu_env n) (sends_msg msg) h"
  let ?h2 = "after (emu_env n) reads_msg ?h1"
  have s1: "emu_state n ?h1 = d"
    using assms(1,2) by (simp add: emu_state_def after_def emu_step_def)
  have "emu_state n ?h2 = d\<lparr>f_answer := []\<rparr>"
    using s1 by (simp add: emu_state_def after_def emu_step_def)
  moreover have "answered (emu_env n) 0 ?h1 bs ?h2"
    using s1 assms(3,4) by (simp add: emu_env_def)
  moreover have "0 \<le> r_ret (respond (emu_env n) h (sends_msg msg))"
    by (simp add: emu_env_def)
  ultimately show ?thesis
    unfolding exchange_def by blast
qed

lemma bit15_simps:
  fixes a :: u16
  assumes "a AND 0x8000 = 0"
  shows "(a OR 0x8000) AND 0x7fff = a" and "(a OR 0x8000) AND 0x8000 \<noteq> 0"
proof -
  have n: "\<not> bit a 15"
  proof
    assume "bit a 15"
    then have "bit (a AND 0x8000) 15"
      by (simp add: bit_and_iff)
    then show False
      using assms by simp
  qed
  have m: "(0x7fff :: u16) = mask 15"
    by (simp add: mask_eq_exp_minus_1)
  have e: "(0x8000 :: u16) = 2 ^ 15"
    by simp
  have b: "bit (0x8000 :: u16) j \<longleftrightarrow> j = 15" for j
    unfolding e bit_exp_iff by auto
  show "(a OR 0x8000) AND 0x7fff = a"
    unfolding m
  proof (rule bit_word_eqI)
    fix k
    assume "k < LENGTH(16)"
    then show "bit ((a OR 0x8000) AND mask 15) k = bit a k"
      using n b by (cases "k = 15") (auto simp: bit_and_iff bit_or_iff bit_mask_iff)
  qed
  have "bit ((a OR 0x8000) AND 0x8000) 15"
    by (simp add: bit_simps)
  then show "(a OR 0x8000) AND 0x8000 \<noteq> 0"
    by fastforce
qed

lemma emu_message_write:
  assumes "a AND 0x8000 = 0"
  shows "emu_message n (reg_frame (a OR 0x8000) v) d =
    (emu_write n a v d)\<lparr>f_answer := reg_frame (a OR 0x8000) v\<rparr>"
  using bit15_simps [OF assms] by (simp add: emu_message_def frame_addr_frame reg_frame_simps Let_def)

lemma emu_message_read:
  assumes "a AND 0x8000 = 0"
  shows "emu_message n (reg_frame a 0) d =
    (snd (emu_read a d))\<lparr>f_answer := reg_frame a (fst (emu_read a d))\<rparr>"
  using assms by (simp add: emu_message_def frame_addr_frame Let_def split_def)

lemma emu_write_exchange:
  assumes "a AND 0x8000 = 0"
  shows "\<exists>h'. exchange (emu_env n) h (reg_frame (a OR 0x8000) v) (reg_frame (a OR 0x8000) v) h' \<and>
    emu_state n h' = (emu_write n a v (emu_state n h))\<lparr>f_answer := []\<rparr>"
  using emu_exchange [of "reg_frame (a OR 0x8000) v" _ n h, OF _ refl]
  by (simp add: emu_message_write [OF assms] reg_frame_simps)

lemma emu_read_exchange:
  assumes "a AND 0x8000 = 0" and "emu_read a (emu_state n h) = (v, d)"
  shows "\<exists>h'. exchange (emu_env n) h (reg_frame a 0) (reg_frame a v) h' \<and>
    emu_state n h' = d\<lparr>f_answer := []\<rparr>"
  using emu_exchange [of "reg_frame a 0" _ n h, OF _ refl] assms(2)
  by (simp add: emu_message_read [OF assms(1)] reg_frame_simps)

lemma emu_plainD:
  assumes "emu_plain a"
  shows "a AND 0x8000 = 0" and "emu_write n a v d = d\<lparr>f_mem := (f_mem d)(a := v)\<rparr>"
    and "emu_read a d = (f_mem d a, d)"
  using assms by (simp_all add: emu_plain_def emu_write_def emu_read_def)

lemma emu_map_plain: "emu_plain (emu_map r) \<longleftrightarrow> r \<noteq> UCFG_WCMD \<and> r \<noteq> UCFG_RCMD"
  by (cases r) (simp_all add: emu_plain_def emu_map_def)

lemma emu_map_low: "emu_map r AND 0x8000 = 0"
  by (cases r) (simp_all add: emu_map_def)

lemma inj_emu_map: "inj emu_map"
  by (rule injI) (simp add: emu_map_def split: reg_name.splits)

lemma emu_register_laws: "register_laws (emu_env n) (emu_device n)"
proof -
  have "\<exists>h'. exchange (emu_env n) h (reg_frame (a OR 0x8000) v) (reg_frame (a OR 0x8000) v) h' \<and>
      f_mem (emu_state n h') = (f_mem (emu_state n h))(a := v) \<and> f_phy (emu_state n h') = f_phy (emu_state n h)"
    if "emu_plain a" for h a v
    using emu_write_exchange [OF emu_plainD(1) [OF that], of n h v] by (auto simp: emu_plainD(2) [OF that])
  moreover have "\<exists>h'. exchange (emu_env n) h (reg_frame a 0) (reg_frame a (f_mem (emu_state n h) a)) h' \<and>
      f_mem (emu_state n h') = f_mem (emu_state n h) \<and> f_phy (emu_state n h') = f_phy (emu_state n h)"
    if "emu_plain a" for h a
    using emu_read_exchange [OF emu_plainD(1,3) [OF that], of n h] by auto
  ultimately show ?thesis
    unfolding register_laws_def by (simp add: emu_device_def)
qed

lemma go_mask: "v AND UCFG_REG_ADDRMASK = v \<Longrightarrow> (UCFG_REG_GO OR v) AND UCFG_REG_ADDRMASK = v"
  by (simp add: bit.conj_disj_distrib2 UCFG_REG_GO_def UCFG_REG_ADDRMASK_def)

lemma emu_phy_laws: "phy_laws (emu_env n) (emu_device n) emu_map"
proof -
  have "\<exists>h'. exchange (emu_env n) h (reg_frame (emu_map UCFG_WCMD OR 0x8000) (UCFG_REG_GO OR v))
        (reg_frame (emu_map UCFG_WCMD OR 0x8000) (UCFG_REG_GO OR v)) h' \<and>
      f_phy (emu_state n h') = (f_phy (emu_state n h))(v := f_mem (emu_state n h) (emu_map UCFG_WDATA))"
    if "v AND UCFG_REG_ADDRMASK = v" for h v
    using emu_write_exchange [OF emu_map_low, of n h UCFG_WCMD "UCFG_REG_GO OR v"] go_mask [OF that]
    by (auto simp: emu_write_def)
  moreover have "\<exists>h'. exchange (emu_env n) h (reg_frame (emu_map UCFG_RCMD OR 0x8000) (UCFG_REG_GO OR v))
        (reg_frame (emu_map UCFG_RCMD OR 0x8000) (UCFG_REG_GO OR v)) h' \<and>
      f_phy (emu_state n h') = f_phy (emu_state n h) \<and>
      f_mem (emu_state n h') (emu_map UCFG_RDATA) = f_phy (emu_state n h) v"
    if "v AND UCFG_REG_ADDRMASK = v" for h v
    using emu_write_exchange [OF emu_map_low, of n h UCFG_RCMD "UCFG_REG_GO OR v"] go_mask [OF that]
      inj_emu_map by (auto simp: emu_write_def inj_eq)
  moreover have "\<exists>h' v. exchange (emu_env n) h (reg_frame (emu_map c) 0) (reg_frame (emu_map c) v) h' \<and>
      f_mem (emu_state n h') (emu_map UCFG_RDATA) = f_mem (emu_state n h) (emu_map UCFG_RDATA) \<and>
      f_phy (emu_state n h') = f_phy (emu_state n h) \<and>
      (v AND UCFG_REG_GO \<noteq> 0 \<longleftrightarrow> 0 < f_busy (emu_state n h)) \<and>
      f_busy (emu_state n h') = f_busy (emu_state n h) - 1"
    if "c = UCFG_WCMD \<or> c = UCFG_RCMD" for h c
  proof -
    let ?d = "emu_state n h"
    have "emu_read (emu_map c) ?d = (if 0 < f_busy ?d then UCFG_REG_GO else 0, ?d\<lparr>f_busy := f_busy ?d - 1\<rparr>)"
      using that by (auto simp: emu_read_def)
    from emu_read_exchange [OF emu_map_low this] obtain h' where
      "exchange (emu_env n) h (reg_frame (emu_map c) 0)
         (reg_frame (emu_map c) (if 0 < f_busy ?d then UCFG_REG_GO else 0)) h'"
      "emu_state n h' = ?d\<lparr>f_busy := f_busy ?d - 1, f_answer := []\<rparr>"
      by blast
    then show ?thesis
      by (intro exI [of _ h'] exI [of _ "if 0 < f_busy ?d then UCFG_REG_GO else 0"])
        (simp add: UCFG_REG_GO_def)
  qed
  moreover have "emu_plain (emu_map UCFG_WDATA)" "emu_plain (emu_map UCFG_RDATA)"
    by (simp_all add: emu_map_plain)
  ultimately show ?thesis
    unfolding phy_laws_def using inj_emu_map by (simp add: emu_device_def)
qed

interpretation emu: register_bus "cha_write_reg (emu_env n)" "cha_read_reg (emu_env n)"
  "\<lambda>s. d_up (emu_device n) (hist s)" "\<lambda>s. d_mem (emu_device n) (hist s)" "d_plain (emu_device n)" for n
  by (rule register_laws_bus [OF emu_register_laws])

interpretation emu_phy: ulpi_bus "cha_write_reg_by_name (emu_env n)" "cha_read_reg_by_name (emu_env n)"
  "named_up (emu_device n) emu_map" "named_mem (emu_device n) emu_map"
  "\<lambda>r. d_plain (emu_device n) (emu_map r)" "\<lambda>s. d_phy (emu_device n) (hist s)"
  "\<lambda>s. d_busy (emu_device n) (hist s)" for n
  by (rule phy_laws_bus [OF emu_register_laws emu_phy_laws])

end
