(* ===== verification/Cha_Spec.thy ===== *)
theory Cha_Spec imports
  Cha_Device
begin

text \<open>
  Properties of the register operations: what a stream start writes to the device, round trips
  through 32-bit registers and through the phy, the synchronisation, and error behaviour.
\<close>

unbundle bit_operations_syntax

section \<open>What is written\<close>

definition written :: "history \<Rightarrow> u8 list list" where
  "written h = concat (map (\<lambda>e. case fst e of
       Ftdi_write_data ch msg \<Rightarrow> if ch = INTERFACE_A then [msg] else [] | _ \<Rightarrow> []) h)"

lemma written_simps [simp]:
  "written [] = []" "written (h @ h') = written h @ written h'"
  "written (after env (sends_msg msg) h) = written h @ [msg]"
  "written (after env (Ftdi_read_data ch n) h) = written h"
  by (simp_all add: written_def after_def)

text \<open>
  If \<open>m\<close> succeeds in a state with register map \<open>R\<close>, it has written \<open>ms\<close> and kept the map.
\<close>

definition writes :: "(reg_name \<Rightarrow> u16) \<Rightarrow> (cha st, 'a) prog \<Rightarrow> u8 list list \<Rightarrow> bool" where
  "writes R m ms \<longleftrightarrow> (\<forall>s x s'. addr (cha_reg (obj s)) = R \<longrightarrow> m s = Some (Inr x, s') \<longrightarrow>
     written (hist s') = written (hist s) @ ms \<and> addr (cha_reg (obj s')) = R)"

lemma writes_bindE:
  assumes "writes R m ms" and "\<And>x. writes R (f x) ns"
  shows "writes R (bindE m f) (ms @ ns)"
  unfolding writes_def
proof (intro allI impI)
  fix s x s'
  assume s: "addr (cha_reg (obj s)) = R" and run: "bindE m f s = Some (Inr x, s')"
  then obtain y s1 where y: "m s = Some (Inr y, s1)" "f y s1 = Some (Inr x, s')"
    unfolding bindE_Some by auto
  have "written (hist s1) = written (hist s) @ ms \<and> addr (cha_reg (obj s1)) = R"
    using assms(1) s y(1) unfolding writes_def by blast
  then show "written (hist s') = written (hist s) @ (ms @ ns) \<and> addr (cha_reg (obj s')) = R"
    using assms(2) [of y] y(2) unfolding writes_def by (metis append.assoc)
qed

lemma writes_thenE: "writes R m ms \<Longrightarrow> writes R k ns \<Longrightarrow> writes R (thenE m k) (ms @ ns)"
  unfolding thenE_def by (rule writes_bindE)

lemma writes_ret: "writes R (ret x) []"
  by (simp add: writes_def)

lemma writes_fail: "writes R (fail_str se msg) ms"
  by (simp add: writes_def)

lemma writes_if: "writes R m ms \<Longrightarrow> writes R k ms \<Longrightarrow> writes R (if b then m else k) ms"
  by simp

lemma writes_seqE: "list_all2 (writes R) ms mss \<Longrightarrow> writes R (seqE ms) (concat mss)"
proof (induction ms mss rule: list_all2_induct)
  case Nil
  then show ?case
    by (simp only: seqE.simps concat.simps writes_ret)
next
  case (Cons m ms x xs)
  then show ?case
    using writes_thenE by simp
qed

lemma writes_msg: "writes R (do_checked env set_cha_error (sends_msg msg)) [msg]"
  by (auto simp: writes_def do_checked_run Let_def split: if_splits)

lemma read_nonempty_frame:
  "read_nonempty env s = Some y \<Longrightarrow>
   written (hist (snd y)) = written (hist s) \<and> cha_reg (obj (snd y)) = cha_reg (obj s)"
proof (induction rule: read_nonempty.raw_induct [rotated, consumes 1, case_names step])
  case (step loop env s y)
  obtain r s1 where read: "read_data env set_cha_error INTERFACE_A 5 s = Some (r, s1)"
    using step(2) by (cases "read_data env set_cha_error INTERFACE_A 5 s") auto
  then have "written (hist s1) = written (hist s)" "cha_reg (obj s1) = cha_reg (obj s)"
    by (auto simp: read_data_run Let_def split: if_splits)
  then show ?case
    using step(1) [of env s1 y] step(2) read by (auto split: sum.splits if_splits)
qed

lemma writes_transaction: "writes R (cha_transaction env a v) [reg_frame a v]"
proof -
  have "writes R (read_nonempty env) []"
    by (auto simp: writes_def dest: read_nonempty_frame)
  then have "writes R (cha_transaction env a v) ([reg_frame a v] @ [] @ [])"
    unfolding cha_transaction_def transaction_answer_def Let_def
    by (intro writes_thenE writes_bindE writes_msg writes_if writes_fail writes_ret)
  then show ?thesis
    by simp
qed

lemma writes_write_reg: "writes R (cha_write_reg env a v) [reg_frame (a OR 0x8000) v]"
proof -
  have "writes R (cha_write_reg env a v) ([reg_frame (a OR 0x8000) v] @ [])"
    unfolding cha_write_reg_def by (intro writes_bindE writes_transaction writes_ret)
  then show ?thesis
    by simp
qed

lemma writes_at_reg: "writes R (f (R n)) ms \<Longrightarrow> writes R (at_reg n f) ms"
proof -
  assume w: "writes R (f (R n)) ms"
  have run: "at_reg n f s = f (R n) s" if "addr (cha_reg (obj s)) = R" for s
    using that by (simp add: at_reg_run)
  show ?thesis
    unfolding writes_def
  proof (intro allI impI)
    fix s x s'
    assume "addr (cha_reg (obj s)) = R" "at_reg n f s = Some (Inr x, s')"
    then show "written (hist s') = written (hist s) @ ms \<and> addr (cha_reg (obj s')) = R"
      using w run [of s] unfolding writes_def by metis
  qed
qed

text \<open>The four messages of a 32-bit register: least significant byte, at the highest address, first.\<close>

definition reg32_frames :: "u16 \<Rightarrow> u32 \<Rightarrow> u8 list list" where
  "reg32_frames a v =
     [reg_frame ((a + 3) OR 0x8000) (ucast v), reg_frame ((a + 2) OR 0x8000) (ucast (drop_bit 8 v)),
      reg_frame ((a + 1) OR 0x8000) (ucast (drop_bit 16 v)), reg_frame (a OR 0x8000) (ucast (drop_bit 24 v))]"

lemma writes_write_reg32: "writes R (cha_write_reg32 env a v) (reg32_frames a v)"
proof -
  let ?w = "cha_write_reg env"
  have step: "write_reg32_loop ?w a (a + k + 1) x = thenE (?w (a + k) (ucast x)) (write_reg32_loop ?w a (a + k) (drop_bit 8 x))"
    if "k + 1 \<noteq> 0" for k x
    using that ucast_and_ff [of x] by (subst write_reg32_loop.simps) (simp add: add.assoc)
  have last: "write_reg32_loop ?w a a x = ret ()" for x
    by (subst write_reg32_loop.simps) simp
  have "cha_write_reg32 env a v =
      seqE [?w (a + 3) (ucast v), ?w (a + 2) (ucast (drop_bit 8 v)), ?w (a + 1) (ucast (drop_bit 16 v)),
        ?w a (ucast (drop_bit 24 v))]"
    using step [of 3 v] step [of 2 "drop_bit 8 v"] step [of 1 "drop_bit 16 v"] step [of 0 "drop_bit 24 v"]
    by (simp add: cha_write_reg32_def last add.assoc)
  moreover have "writes R (seqE [?w (a + 3) (ucast v), ?w (a + 2) (ucast (drop_bit 8 v)),
      ?w (a + 1) (ucast (drop_bit 16 v)), ?w a (ucast (drop_bit 24 v))]) (concat (map (\<lambda>m. [m]) (reg32_frames a v)))"
    by (rule writes_seqE) (simp add: reg32_frames_def writes_write_reg)
  ultimately show ?thesis
    by (simp add: reg32_frames_def)
qed

definition stream_messages :: "(reg_name \<Rightarrow> u16) \<Rightarrow> u8 list list" where
  "stream_messages R =
     reg32_frames (R SDRAM_SINK_RING_BASE) 0 @ reg32_frames (R SDRAM_SINK_RING_END) 0x01000000 @
     reg32_frames (R SDRAM_HOST_READ_RING_BASE) 0 @ reg32_frames (R SDRAM_HOST_READ_RING_END) 0x01000000 @
     [reg_frame (R SDRAM_SINK_PTR_READ OR 0x8000) 0,
      reg_frame (R SDRAM_SINK_GO OR 0x8000) 1,
      reg_frame (R CSTREAM_CFG OR 0x8000) 1,
      cast_frame (R SDRAM_HOST_READ_GO) 1]"

text \<open>A cast sends the message of a write, without waiting for the answer.\<close>

lemma cast_frame_eq: "cast_frame a v = reg_frame (a OR 0x8000) v"
proof -
  have b: "bit (0x8000 :: u16) j \<longleftrightarrow> j = 15" "bit (0x80 :: u8) j \<longleftrightarrow> j = 7" "bit (0xFF :: u16) j \<longleftrightarrow> j < 8" for j
  proof -
    have e: "(0x8000 :: u16) = 2 ^ 15" "(0x80 :: u8) = 2 ^ 7" "(0xFF :: u16) = mask 8"
      by (simp_all add: mask_eq_exp_minus_1)
    show "bit (0x8000 :: u16) j \<longleftrightarrow> j = 15" "bit (0x80 :: u8) j \<longleftrightarrow> j = 7" "bit (0xFF :: u16) j \<longleftrightarrow> j < 8"
      unfolding e bit_exp_iff bit_mask_iff by auto
  qed
  have hi: "0x80 OR ucast (drop_bit 8 a) = (ucast (drop_bit 8 (a OR 0x8000)) :: u8)"
    by (rule bit_word_eqI) (auto simp: bit_or_iff bit_ucast_iff bit_drop_bit_eq b)
  have lo: "ucast (a AND 0xFF) = (ucast ((a OR 0x8000) AND 0xFF) :: u8)"
    by (simp add: bit.conj_disj_distrib2)
  show ?thesis
    by (simp only: cast_frame_def reg_frame_def hi lo)
qed

section \<open>Synchronisation\<close>

lemma sync_scan_append:
  "sync_scan msg n (xs @ ys) = (if sync_scan msg n xs = 5 \<and> xs \<noteq> [] then 5
     else sync_scan msg (sync_scan msg n xs) ys)" if "n \<noteq> 5"
  using that by (induction xs arbitrary: n) (auto simp: Let_def)

text \<open>The reads of the loop bring the chunks \<open>cs\<close>.\<close>

abbreviation "reads_32 \<equiv> Ftdi_read_data INTERFACE_A 32"

fun chunks_read :: "env \<Rightarrow> history \<Rightarrow> u8 list list \<Rightarrow> history \<Rightarrow> bool" where
  "chunks_read env h [] h' \<longleftrightarrow> h' = h"
| "chunks_read env h (c # cs) h' \<longleftrightarrow>
     0 \<le> r_ret (respond env h reads_32) \<and> take 32 (r_bytes (respond env h reads_32)) = c \<and>
     chunks_read env (after env reads_32 h) cs h'"

lemma sync_loop_chunks:
  "chunks_read env (hist s) cs h' \<Longrightarrow> cs \<noteq> [] \<Longrightarrow> n \<noteq> 5 \<Longrightarrow>
   sync_scan msg n (concat cs) = 5 \<Longrightarrow> sync_scan msg n (concat (butlast cs)) \<noteq> 5 \<Longrightarrow>
   sync_loop env msg n s = Some (Inr (), s\<lparr>hist := h'\<rparr>)"
proof (induction cs arbitrary: s n)
  case (Cons c cs)
  let ?s1 = "s\<lparr>hist := after env reads_32 (hist s)\<rparr>"
  have read: "read_data env set_cha_error INTERFACE_A 32 s = Some (Inr c, ?s1)"
    using Cons.prems(1) by (simp add: read_data_run Let_def)
  show ?case
  proof (cases "cs = []")
    case True
    then show ?thesis
      using Cons.prems read by (subst sync_loop.simps) simp
  next
    case False
    then have c: "sync_scan msg n c \<noteq> 5"
      using Cons.prems(3,5) sync_scan_append [of n msg c] by (auto split: if_splits)
    have "sync_loop env msg (sync_scan msg n c) ?s1 = Some (Inr (), ?s1\<lparr>hist := h'\<rparr>)"
      using Cons.prems False c sync_scan_append [of n msg c]
      by (intro Cons.IH) (auto split: if_splits)
    then show ?thesis
      using read c by (subst sync_loop.simps) simp
  qed
qed simp

lemma sync_scan_skip: "msg ! 0 \<notin> set g \<Longrightarrow> sync_scan msg 0 (g @ xs) = sync_scan msg 0 xs"
  by (induction g) auto

lemma sync_scan_match:
  "i \<le> 5 \<Longrightarrow> length msg = 5 \<Longrightarrow> n + i < 5 \<Longrightarrow> sync_scan msg n (take i (drop n msg)) = n + i"
proof (induction i arbitrary: n)
  case (Suc i)
  have "take (Suc i) (drop n msg) = msg ! n # take i (drop (Suc n) msg)"
    using Suc.prems by (simp add: Cons_nth_drop_Suc [symmetric])
  then show ?case
    using Suc.IH [of "Suc n"] Suc.prems by simp
qed simp

lemma sync_scan_frame:
  assumes "length msg = 5"
  shows "sync_scan msg 0 msg = 5" and "k < 5 \<Longrightarrow> sync_scan msg 0 (take k msg) = k"
proof -
  show m: "sync_scan msg 0 (take k msg) = k" if "k < 5" for k
    using sync_scan_match [of k msg 0] assms that by simp
  have "msg = take 4 msg @ [msg ! 4]"
    using assms by (simp add: take_Suc_conv_app_nth [symmetric])
  then have "sync_scan msg 0 msg = sync_scan msg 0 (take 4 msg @ [msg ! 4])"
    by simp
  then show "sync_scan msg 0 msg = 5"
    using m [of 4] sync_scan_append [of 0 msg "take 4 msg" "[msg ! 4]"] by simp
qed

lemma sync_scan_before:
  assumes "length msg = 5" and "msg ! 0 \<notin> set g" and "prefix xs (g @ msg)" and "xs \<noteq> g @ msg"
  shows "sync_scan msg 0 xs \<noteq> 5"
proof (cases "prefix xs g")
  case True
  then have "msg ! 0 \<notin> set xs"
    using assms(2) by (auto simp: prefix_def)
  then show ?thesis
    using sync_scan_skip [of msg xs "[]"] by simp
next
  case False
  then obtain ys zs where ys: "xs = g @ ys" "msg = ys @ zs"
    using assms(3) False by (auto simp: prefix_append elim!: prefixE)
  then have "zs \<noteq> []" "ys = take (length ys) msg"
    using assms(4) by auto
  then have "length ys < 5" "xs = g @ take (length ys) msg"
    using ys assms(1) by (auto simp: length_greater_0_conv [symmetric] simp del: length_greater_0_conv)
  then obtain k where "xs = g @ take k msg" "k < 5"
    by blast
  then show ?thesis
    using sync_scan_skip [OF assms(2)] sync_scan_frame(2) [OF assms(1)] by simp
qed

lemma start_stream_writes: "writes R (cha_start_stream env) (stream_messages R)"
proof -
  note name_defs = cha_write_reg32_by_name_def cha_write_reg_by_name_def cha_cast_reg_by_name_def
  have "writes R (cha_start_stream env) (concat
      [reg32_frames (R SDRAM_SINK_RING_BASE) 0, reg32_frames (R SDRAM_SINK_RING_END) 0x01000000,
       reg32_frames (R SDRAM_HOST_READ_RING_BASE) 0, reg32_frames (R SDRAM_HOST_READ_RING_END) 0x01000000,
       [reg_frame (R SDRAM_SINK_PTR_READ OR 0x8000) 0], [reg_frame (R SDRAM_SINK_GO OR 0x8000) 1],
       [reg_frame (R CSTREAM_CFG OR 0x8000) 1], [cast_frame (R SDRAM_HOST_READ_GO) 1]])"
    unfolding cha_start_stream_def name_defs ring_base_def ring_end_def
    by (rule writes_seqE)
      (simp add: writes_at_reg writes_write_reg32 writes_write_reg cha_cast_reg_def writes_msg)
  then show ?thesis
    by (simp add: stream_messages_def)
qed

section \<open>Properties\<close>

text \<open>
  C21: Starting a stream.  For every device, if \<open>cha_start_stream\<close> succeeds it has sent exactly these
  twenty messages, in this order: the bounds of the two rings, byte by byte, the read pointer, the
  sink, the capture stream, and last the message that starts the host reading.
\<close>

theorem cha_start_stream_messages:
  assumes "cha_start_stream env s = Some (Inr x, s')"
  shows "written (hist s') = written (hist s) @ stream_messages (addr (cha_reg (obj s)))"
  using start_stream_writes assms unfolding writes_def by blast

definition test_cha :: "cha st" where
  "test_cha = \<lparr>obj = \<lparr>cha_reg = \<lparr>reg_error = None, addr = emu_map\<rparr>, cha_error = None\<rparr>, hist = []\<rparr>"

text \<open>The emulated FPGA lets a stream start succeed.\<close>

lemma emu_write_reg_ok:
  assumes "a AND 0x8000 = 0"
  shows "\<exists>h'. cha_write_reg (emu_env n) a v s = Some (Inr (), s\<lparr>hist := h'\<rparr>)"
  using emu_write_exchange [OF assms, of n "hist s" v] cha_write_reg_exchange by blast

lemma emu_ret [simp]: "\<not> r_ret (respond (emu_env n) h c) < 0"
  by (simp add: emu_env_def split: call.split)

lemma emu_by_name_ok:
  assumes "addr (cha_reg (obj s)) = emu_map"
  shows "\<exists>h'. cha_write_reg_by_name (emu_env n) r v s = Some (Inr (), s\<lparr>hist := h'\<rparr>)"
    and "\<exists>h'. cha_cast_reg_by_name (emu_env n) r v s = Some (Inr (), s\<lparr>hist := h'\<rparr>)"
proof -
  show "\<exists>h'. cha_write_reg_by_name (emu_env n) r v s = Some (Inr (), s\<lparr>hist := h'\<rparr>)"
    using emu_write_reg_ok [OF emu_map_low, of n r v s]
    by (simp add: cha_write_reg_by_name_def at_reg_run [OF assms])
  have "cha_cast_reg_by_name (emu_env n) r v s =
      Some (Inr (), s\<lparr>hist := after (emu_env n) (sends_msg (cast_frame (emu_map r) v)) (hist s)\<rparr>)"
    by (simp add: cha_cast_reg_by_name_def at_reg_run [OF assms] cha_cast_reg_def do_checked_run Let_def)
  then show "\<exists>h'. cha_cast_reg_by_name (emu_env n) r v s = Some (Inr (), s\<lparr>hist := h'\<rparr>)"
    by blast
qed

lemma emu_reg32_ok:
  assumes "addr (cha_reg (obj s)) = emu_map"
    and "r \<in> {SDRAM_SINK_RING_BASE, SDRAM_SINK_RING_END, SDRAM_HOST_READ_RING_BASE, SDRAM_HOST_READ_RING_END}"
  shows "\<exists>h'. cha_write_reg32_by_name (emu_env n) r v s = Some (Inr (), s\<lparr>hist := h'\<rparr>)"
proof -
  have low: "(emu_map r + k) AND 0x8000 = 0" if "k \<in> {0, 1, 2, 3}" for k
    using assms(2) that by (auto simp: emu_map_def)
  have step: "write_reg32_loop (cha_write_reg (emu_env n)) (emu_map r) (emu_map r + k + 1) x t =
      thenE (cha_write_reg (emu_env n) (emu_map r + k) (ucast x))
        (write_reg32_loop (cha_write_reg (emu_env n)) (emu_map r) (emu_map r + k) (drop_bit 8 x)) t"
    if "k + 1 \<noteq> 0" for k x t
    using that ucast_and_ff [of x] by (subst write_reg32_loop.simps) (simp add: add.assoc)
  have last: "write_reg32_loop (cha_write_reg (emu_env n)) (emu_map r) (emu_map r) x = ret ()" for x
    by (subst write_reg32_loop.simps) simp
  obtain h1 where h1: "cha_write_reg (emu_env n) (emu_map r + 3) (ucast v) s = Some (Inr (), s\<lparr>hist := h1\<rparr>)"
    using emu_write_reg_ok [OF low] by blast
  obtain h2 where h2: "cha_write_reg (emu_env n) (emu_map r + 2) (ucast (drop_bit 8 v)) (s\<lparr>hist := h1\<rparr>) =
      Some (Inr (), s\<lparr>hist := h2\<rparr>)"
    using emu_write_reg_ok [OF low, of 2 n _ "s\<lparr>hist := h1\<rparr>"] by auto
  obtain h3 where h3: "cha_write_reg (emu_env n) (emu_map r + 1) (ucast (drop_bit 16 v)) (s\<lparr>hist := h2\<rparr>) =
      Some (Inr (), s\<lparr>hist := h3\<rparr>)"
    using emu_write_reg_ok [OF low, of 1 n _ "s\<lparr>hist := h2\<rparr>"] by auto
  obtain h4 where h4: "cha_write_reg (emu_env n) (emu_map r) (ucast (drop_bit 24 v)) (s\<lparr>hist := h3\<rparr>) =
      Some (Inr (), s\<lparr>hist := h4\<rparr>)"
    using emu_write_reg_ok [OF low, of 0 n _ "s\<lparr>hist := h3\<rparr>"] by auto
  have "cha_write_reg32 (emu_env n) (emu_map r) v s = Some (Inr (), s\<lparr>hist := h4\<rparr>)"
    using step [of 3 v s] step [of 2 "drop_bit 8 v" "s\<lparr>hist := h1\<rparr>"]
      step [of 1 "drop_bit 16 v" "s\<lparr>hist := h2\<rparr>"] step [of 0 "drop_bit 24 v" "s\<lparr>hist := h3\<rparr>"] h1 h2 h3 h4
    by (simp add: cha_write_reg32_def thenE_def bindE_def last add.assoc)
  then have "cha_write_reg32_by_name (emu_env n) r v s = Some (Inr (), s\<lparr>hist := h4\<rparr>)"
    by (simp add: cha_write_reg32_by_name_def at_reg_run [OF assms(1)])
  then show ?thesis
    by blast
qed

lemma seqE_all_ok:
  assumes "\<And>s m. m \<in> set ms \<Longrightarrow> addr (cha_reg (obj s)) = R \<Longrightarrow> \<exists>h. m s = Some (Inr (), s\<lparr>hist := h\<rparr>)"
  shows "addr (cha_reg (obj s)) = R \<Longrightarrow> \<exists>h. seqE ms s = Some (Inr (), s\<lparr>hist := h\<rparr>)"
  using assms
proof (induction ms arbitrary: s)
  case Nil
  then show ?case
    by (intro exI [of _ "hist s"]) simp
next
  case (Cons m ms)
  obtain h1 where h1: "m s = Some (Inr (), s\<lparr>hist := h1\<rparr>)"
    using Cons.prems by auto
  have "\<exists>h. seqE ms (s\<lparr>hist := h1\<rparr>) = Some (Inr (), (s\<lparr>hist := h1\<rparr>)\<lparr>hist := h\<rparr>)"
    using Cons.prems by (intro Cons.IH) auto
  then show ?case
    using h1 by (auto simp: thenE_def bindE_def)
qed

lemma emu_start_stream_ok: "\<exists>s'. cha_start_stream (emu_env n) test_cha = Some (Inr (), s')"
proof -
  have "\<exists>h. cha_start_stream (emu_env n) test_cha = Some (Inr (), test_cha\<lparr>hist := h\<rparr>)"
    unfolding cha_start_stream_def
    by (rule seqE_all_ok [where R = emu_map]) (auto simp: emu_by_name_ok emu_reg32_ok test_cha_def)
  then show ?thesis
    by blast
qed

theorem cha_start_stream_messages_witness:
  "\<exists>s'. cha_start_stream (emu_env 0) test_cha = Some (Inr (), s') \<and>
     length (written (hist s')) = 20 \<and> last (written (hist s')) = [0x55, 0x80, 0x42, 1, 0x18]"
proof -
  obtain s' where s': "cha_start_stream (emu_env 0) test_cha = Some (Inr (), s')"
    using emu_start_stream_ok by blast
  have "written (hist s') = stream_messages emu_map"
    using cha_start_stream_messages [OF s'] by (simp add: test_cha_def)
  moreover have "length (stream_messages emu_map) = 20"
    by (simp add: stream_messages_def reg32_frames_def)
  moreover have "last (stream_messages emu_map) = [0x55, 0x80, 0x42, 1, 0x18]"
    by (simp add: stream_messages_def cast_frame_def emu_map_def cha_transaction_checksum_def)
  ultimately show ?thesis
    using s' by auto
qed



text \<open>
  C20: 32-bit registers.  On every device with the laws of the register bus, a 32-bit value that is
  written to four plain registers is read back, big-endian, whatever the out-parameter held before.
\<close>

theorem cha_reg32_roundtrip:
  assumes "register_laws env dev" and "d_up dev (hist s)" and "plain32 (d_plain dev) a"
    and "unat a + 4 < 2 ^ 16"
  shows "\<exists>s1 s2. cha_write_reg32 env a v s = Some (Inr (), s1) \<and>
    mem32 (d_mem dev (hist s1)) a = v \<and> cha_read_reg32 env a w s1 = Some (Inr v, s2)"
proof -
  note bus = register_laws_bus [OF assms(1)]
  obtain s1 where s1: "cha_write_reg32 env a v s = Some (Inr (), s1)" "d_up dev (hist s1)"
      "d_mem dev (hist s1) = (d_mem dev (hist s))(a + 3 := ucast v, a + 2 := ucast (drop_bit 8 v),
        a + 1 := ucast (drop_bit 16 v), a := ucast (drop_bit 24 v))"
    using register_bus.write32 [OF bus assms(2,3), of v] unfolding cha_write_reg32_def by blast
  have "mem32 (d_mem dev (hist s1)) a = v"
    unfolding mem32_def s1(3) using u32_join_bytes [of v] by simp
  then show ?thesis
    using register_bus.read32 [OF bus s1(2) assms(3,4), of w] s1(1) by (auto simp: cha_read_reg32_def)
qed

theorem cha_reg32_roundtrip_witness:
  "\<exists>s1 s2. cha_write_reg32 (emu_env 0) 0x30 0x01000000 test_cha = Some (Inr (), s1) \<and>
     cha_read_reg32 (emu_env 0) 0x30 7 s1 = Some (Inr 0x01000000, s2)"
proof -
  have "plain32 (d_plain (emu_device 0)) 0x30"
    by (simp add: plain32_def emu_device_def emu_plain_def emu_map_def)
  then show ?thesis
    using cha_reg32_roundtrip [OF emu_register_laws, of 0 test_cha "0x30" "0x01000000" 7]
    by (auto simp: emu_device_def)
qed

text \<open>
  C27: Failures are reported.  Whatever the device and libftdi do, when one of these operations fails
  it returns -1 with the error string set, and what was said to the device before is a prefix of
  what has been said after.
\<close>

theorem cha_failures_reported:
  assumes "m \<in> {cha_open env, cha_switch_config_mode env, cha_switch_fifo_mode env,
      cha_write_reg_by_name env n v, cha_write_reg32_by_name env n w, cha_cast_reg_by_name env n v,
      cha_write_ulpi env a v, cha_set_usb_speed env speed, cha_start_stream env, cha_halt_stream env,
      cha_stop_stream env}"
    and "m s = Some (Inl e, s')"
  shows "e = Failed \<and> cha_error (obj s') \<noteq> None \<and> prefix (hist s) (hist s')"
proof -
  have keeps: "reporting.keeps cha_error m"
    using assms(1) by (auto simp: cha_reports)
  show ?thesis
    using reporting.keepsD [OF keeps assms(2)] by (auto simp: reported_def reports_def talks_def)
qed

text \<open>A device that is not there.\<close>

definition no_device :: env where
  "no_device = \<lparr>respond = \<lambda>h c. \<lparr>r_ret = -3, r_bytes = [], r_size = None\<rparr>,
     errtext = \<lambda>_. ''device not found'', opcode = \<lambda>_. 0, out_packet_size = 512\<rparr>"

theorem cha_failures_reported_witness:
  "\<exists>s'. cha_open no_device test_cha = Some (Inl Failed, s') \<and> cha_error (obj s') \<noteq> None"
proof -
  obtain s' where "cha_open no_device test_cha = Some (Inl Failed, s')"
    by (simp add: cha_open_def thenE_def bindE_def do_checked_run no_device_def)
  then show ?thesis
    using cha_failures_reported [of "cha_open no_device" no_device] by blast
qed

text \<open>
  C28: Synchronisation.  If the flushes and the write succeed and the reads bring, in any pieces,
  bytes without 0x55 and then the echo of the message, \<open>cha_sync_stream\<close> returns with success when
  the last byte of the echo has arrived.
\<close>

theorem cha_sync_stream_finds_echo:
  assumes "0 \<le> r_ret (respond env (hist s) (Ftdi_tcioflush INTERFACE_A))"
    and "hf = after env (Ftdi_tcioflush INTERFACE_A) (hist s)"
    and "0 \<le> r_ret (respond env hf (sends_msg (reg_frame a 0)))"
    and "chunks_read env (after env (sends_msg (reg_frame a 0)) hf) cs hr"
    and "concat cs = garbage @ reg_frame a 0" and "0x55 \<notin> set garbage" and "last cs \<noteq> []"
    and "0 \<le> r_ret (respond env hr (Ftdi_tcioflush INTERFACE_A))"
  shows "cha_sync_stream env a s = Some (Inr (), s\<lparr>hist := after env (Ftdi_tcioflush INTERFACE_A) hr\<rparr>)"
proof -
  let ?msg = "reg_frame a 0"
  let ?s1 = "s\<lparr>hist := after env (sends_msg ?msg) hf\<rparr>"
  have len: "length ?msg = 5" and first: "?msg ! 0 \<notin> set garbage"
    using assms(6) by (simp_all add: reg_frame_simps) (simp add: reg_frame_def Let_def)
  have cs: "cs \<noteq> []"
    using assms(5) reg_frame_simps(4) [of a 0] by auto
  then have split: "concat cs = concat (butlast cs) @ last cs"
    by (metis append_butlast_last_id concat_append concat.simps append_Nil2)
  have "sync_scan ?msg 0 (concat cs) = 5"
    unfolding assms(5) sync_scan_skip [OF first] by (rule sync_scan_frame(1) [OF len])
  moreover have "sync_scan ?msg 0 (concat (butlast cs)) \<noteq> 5"
    using split assms(5,7) by (intro sync_scan_before [OF len first]) (auto simp: prefix_def)
  ultimately have "sync_loop env ?msg 0 ?s1 = Some (Inr (), ?s1\<lparr>hist := hr\<rparr>)"
    using assms(4) cs by (intro sync_loop_chunks) simp_all
  then show ?thesis
    using assms(1-3,8) by (simp add: cha_sync_stream_def thenE_def bindE_def do_checked_run Let_def)
qed

theorem cha_sync_stream_finds_echo_witness:
  "\<exists>s'. cha_sync_stream (emu_env 0) 0x8042 test_cha = Some (Inr (), s')"
proof -
  let ?env = "emu_env 0"
  let ?h1 = "after ?env (Ftdi_tcioflush INTERFACE_A) (hist test_cha)"
  let ?h2 = "after ?env reads_32 (after ?env (sends_msg (reg_frame 0x8042 0)) ?h1)"
  have "f_answer (emu_state 0 (after ?env (sends_msg (reg_frame 0x8042 0)) ?h1)) = reg_frame 0x8042 0"
    by (simp add: emu_state_def after_def test_cha_def emu_step_def emu_message_def frame_addr_frame
        reg_frame_simps emu_write_def Let_def)
  then have "chunks_read ?env (after ?env (sends_msg (reg_frame 0x8042 0)) ?h1) [reg_frame 0x8042 0] ?h2"
    by (simp add: emu_env_def reg_frame_simps)
  then have "cha_sync_stream ?env 0x8042 test_cha =
      Some (Inr (), test_cha\<lparr>hist := after ?env (Ftdi_tcioflush INTERFACE_A) ?h2\<rparr>)"
    by (intro cha_sync_stream_finds_echo [where hf = ?h1 and cs = "[reg_frame 0x8042 0]" and garbage = "[]"])
      (simp_all add: reg_frame_simps emu_env_def)
  then show ?thesis
    by blast
qed

text \<open>
  The comparison starts anew one byte too late: the byte that does not fit is not looked at as
  the first byte of the message.  An echo that follows another 0x55 byte is missed, and the bytes
  of the message have been used up.
\<close>

lemma cha_sync_misses_echo:
  assumes "0x55 \<notin> set (tl (reg_frame a 0))"
  shows "sync_scan (reg_frame a 0) 0 (0x55 # reg_frame a 0) = 0"
proof -
  obtain b c d e where msg: "reg_frame a 0 = [0x55, b, c, d, e]"
    by (simp add: reg_frame_def Let_def)
  then have "b \<noteq> 0x55" "c \<noteq> 0x55" "d \<noteq> 0x55" "e \<noteq> 0x55"
    using assms by auto
  then show ?thesis
    unfolding msg by simp
qed

lemma cha_sync_misses_echo_witness:
  "sync_scan (reg_frame 0x8c28 0) 0 (0x55 # reg_frame 0x8c28 0) = 0"
  by (rule cha_sync_misses_echo) (simp add: reg_frame_def cha_transaction_checksum_def)

text \<open>
  C32: Short answers.  \<open>cha_transaction\<close> reads the answer over the message it has sent, so if the
  first read that brings anything brings only one to three bytes of the answer, the rest of the
  message stays, the checksum fits, and reading a register returns 0, whatever its value.
\<close>

theorem cha_read_reg_short_answer:
  assumes "exchange env (hist s) (reg_frame a 0) (take k (reg_frame a w)) h'" and "k \<in> {1, 2, 3}"
  shows "cha_read_reg env a s = Some (Inr 0, s\<lparr>hist := h'\<rparr>)"
proof -
  let ?h1 = "after env (sends_msg (reg_frame a 0)) (hist s)"
  let ?bs = "take k (reg_frame a w)"
  obtain j where j: "0 \<le> r_ret (respond env (hist s) (sends_msg (reg_frame a 0)))"
      "answered env j ?h1 ?bs h'"
    using assms(1) by (auto simp: exchange_def)
  have "?bs \<noteq> []"
    using assms(2) reg_frame_simps(4) [of a w] by auto
  then have read: "read_nonempty env (s\<lparr>hist := ?h1\<rparr>) = Some (Inr ?bs, s\<lparr>hist := h'\<rparr>)"
    using read_nonempty_answered [of env j "s\<lparr>hist := ?h1\<rparr>"] j(2) by simp
  have "?bs @ drop (length ?bs) (reg_frame a 0) = reg_frame a 0"
    using assms(2) by (auto simp: reg_frame_def Let_def)
  then have answer: "transaction_answer a 0 ?bs = ret 0"
    unfolding transaction_answer_def by (simp only: Let_def reg_frame_simps) simp
  show ?thesis
    using j(1) read answer
    by (simp add: cha_read_reg_def cha_transaction_def thenE_def bindE_def do_checked_run Let_def)
qed

text \<open>A device that answers every read with the first byte of a message.\<close>

definition one_byte_env :: env where
  "one_byte_env = \<lparr>respond = \<lambda>h c. \<lparr>r_ret = 1, r_bytes = [0x55], r_size = None\<rparr>,
     errtext = \<lambda>_. [], opcode = \<lambda>_. 0, out_packet_size = 512\<rparr>"

theorem cha_read_reg_short_answer_witness:
  "\<exists>s'. cha_read_reg one_byte_env 0x20 test_cha = Some (Inr 0, s')"
proof -
  let ?h = "after one_byte_env (sends_msg (reg_frame 0x20 0)) (hist test_cha)"
  have "answered one_byte_env 0 ?h (take 1 (reg_frame 0x20 9)) (after one_byte_env reads_msg ?h)"
    by (simp add: one_byte_env_def reg_frame_def Let_def)
  moreover have "0 \<le> r_ret (respond one_byte_env (hist test_cha) (sends_msg (reg_frame 0x20 0)))"
    by (simp add: one_byte_env_def)
  ultimately have "exchange one_byte_env (hist test_cha) (reg_frame 0x20 0) (take 1 (reg_frame 0x20 9))
      (after one_byte_env reads_msg ?h)"
    unfolding exchange_def by blast
  then show ?thesis
    using cha_read_reg_short_answer [of one_byte_env test_cha "0x20" 1 9] by auto
qed

lemma read_reg32_loop_no_value:
  "read_reg32_loop rd a i val s = Some y \<Longrightarrow> 65536 \<le> unat a + 4 \<Longrightarrow> \<exists>e. fst y = Inl e"
proof (induction rule: read_reg32_loop.raw_induct [rotated, consumes 1, case_names step])
  case (step loop rd a i val s y)
  have "unat i \<noteq> unat a + 4"
    using unat_u16_less [of i] step(3) by simp
  then show ?case
    using step(1) [of rd a "i + 1" _ _ y] step(2,3) by (auto split: option.splits sum.splits prod.splits)
qed

text \<open>
  \<open>cha_read_reg32\<close> never returns a value for the last four addresses: its counter is a
  \<open>uint16_t\<close> and wraps to 0, the bound \<open>addr + 4\<close> is an \<open>int\<close> and does not wrap.
\<close>

lemma cha_read_reg32_no_value:
  assumes "0xFFFC \<le> unat a"
  shows "cha_read_reg32 env a v s \<noteq> Some (Inr w, s')"
  using read_reg32_loop_no_value [of "cha_read_reg env" a a v s] assms by (auto simp: cha_read_reg32_def)

lemma cha_read_reg32_no_value_witness:
  "\<nexists>w s'. cha_read_reg32 (emu_env 0) 0xFFFE 0 test_cha = Some (Inr w, s')"
  using cha_read_reg32_no_value [where a = "0xFFFE" and env = "emu_env 0" and v = 0 and s = test_cha] by simp

end
