(* ===== verification/Ov.thy ===== *)
theory Ov imports
  Bit
  Cha_Loop
begin

text \<open>
  \<open>src/ov.c\<close>: the library's interface.  A \<open>struct ov_device\<close> is made of the parts of the other
  theories; an operation runs operations of its parts inside it and copies their error strings.

  \<open>loop.cha\<close> is a pointer to \<open>cha\<close>: the copy in the loop is refreshed when the loop is entered, and
  what the loop has done to it is written back.  Objects on the stack of a function that C does not
  initialise (a \<open>struct bit\<close>, two buffers, a \<open>struct fwpkg\<close>, a \<open>struct reg\<close>) are arguments.
\<close>

record 'u ov_device =
  ov_cha :: cha
  ov_chb :: chb
  ov_fwpkg :: fwpkg
  ov_loop :: "'u cha_loop"
  ov_error :: "string option"

section \<open>Parts of a device\<close>

definition in_cha :: "(cha st, 'a) prog \<Rightarrow> ('u ov_device st, 'a) prog" where
  "in_cha = zoom ov_cha (\<lambda>c d. d\<lparr>ov_cha := c\<rparr>)"

definition in_chb :: "(chb st, 'a) prog \<Rightarrow> ('u ov_device st, 'a) prog" where
  "in_chb = zoom ov_chb (\<lambda>c d. d\<lparr>ov_chb := c\<rparr>)"

definition in_package :: "(fwpkg st, 'a) prog \<Rightarrow> ('u ov_device st, 'a) prog" where
  "in_package = zoom ov_fwpkg (\<lambda>f d. d\<lparr>ov_fwpkg := f\<rparr>)"

text \<open>\<open>if (ret < 0) { ov->error_str = ...; goto fail; }\<close>; \<open>err\<close> is where the string is copied from.\<close>

definition or_error :: "('c \<Rightarrow> string option) \<Rightarrow> ('c \<Rightarrow> string option \<Rightarrow> 'c) \<Rightarrow> ('c st, 'a) prog \<Rightarrow> ('c st, 'a) prog" where
  "or_error err se m = onfail m (modify_obj (\<lambda>d. se d (err d)))"

definition set_ov_error :: "'u ov_device \<Rightarrow> string option \<Rightarrow> 'u ov_device" where
  "set_ov_error d msg = d\<lparr>ov_error := msg\<rparr>"

definition cha_part :: "(cha st, 'a) prog \<Rightarrow> ('u ov_device st, 'a) prog" where
  "cha_part m = or_error (\<lambda>d. cha_error (ov_cha d)) set_ov_error (in_cha m)"

definition chb_part :: "(chb st, 'a) prog \<Rightarrow> ('u ov_device st, 'a) prog" where
  "chb_part m = or_error (\<lambda>d. chb_error (ov_chb d)) set_ov_error (in_chb m)"

section \<open>Loading the firmware\<close>

text \<open>The device, the package, and the \<open>struct bit\<close> of \<open>ov_load_firmware_from_fwpkg\<close>.\<close>

type_synonym 'u loading = "'u ov_device \<times> fwpkg \<times> bit_file"

definition set_loading_error :: "'u loading \<Rightarrow> string option \<Rightarrow> 'u loading" where
  "set_loading_error = (\<lambda>(d, f, b) msg. (d\<lparr>ov_error := msg\<rparr>, f, b))"

definition on_device :: "('u ov_device st, 'a) prog \<Rightarrow> ('u loading st, 'a) prog" where
  "on_device = zoom fst (\<lambda>d (_, x). (d, x))"

definition on_package :: "(fwpkg st, 'a) prog \<Rightarrow> ('u loading st, 'a) prog" where
  "on_package = zoom (\<lambda>(d, f, b). f) (\<lambda>f (d, _, b). (d, f, b))"

definition on_bit :: "(bit_file, 'a) prog \<Rightarrow> ('u loading st, 'a) prog" where
  "on_bit m = (\<lambda>s. case obj s of (d, f, b) \<Rightarrow> (case m b of
       None \<Rightarrow> None
     | Some (r, b') \<Rightarrow> Some (r, s\<lparr>obj := (d, f, b')\<rparr>)))"

definition on_loader :: "(loader st, 'a) prog \<Rightarrow> ('u loading st, 'a) prog" where
  "on_loader = zoom (\<lambda>(d, f, b). (b, ov_chb d)) (\<lambda>(b, c) (d, f, _). (d\<lparr>ov_chb := c\<rparr>, f, b))"

text \<open>Reading the bitstream into the buffer, up to the point where the chip's mode changes.\<close>

definition read_bitstream :: "env \<Rightarrow> nat \<Rightarrow> ('u loading st, unit) prog" where
  "read_bitstream env sz =
     bindE (or_error (\<lambda>(d, f, b). fw_error f) set_loading_error (on_package (fwpkg_read_bitstream env sz)))
       (\<lambda>bs. or_error (\<lambda>(d, f, b). bit_error b) set_loading_error (on_bit (bit_init bs (length bs))))"

text \<open>Programming the FPGA; if that fails the chip is put back into FIFO mode.\<close>

definition program_fpga :: "env \<Rightarrow> u8 list list \<Rightarrow> ('u loading st, unit) prog" where
  "program_fpga env bufs =
     onfail
       (thenE (on_device (chb_part (chb_switch_program_mode env)))
         (or_error (\<lambda>(d, f, b). bit_error b) set_loading_error (on_loader (bit_load_firmware env bufs))))
       (ignore (on_device (in_cha (cha_switch_fifo_mode env))))"

text \<open>
  Everything before \<open>free(tmp)\<close> of the straight path; after it, \<open>tmp\<close> is NULL and the fail path does
  not free it again.
\<close>

definition ov_load_firmware_from_fwpkg :: "env \<Rightarrow> u8 list list \<Rightarrow> ('u loading st, unit) prog" where
  "ov_load_firmware_from_fwpkg env bufs =
     bindE (on_package (fwpkg_bitstream_size env)) (\<lambda>sz.
     bindE (perform env (Malloc sz)) (\<lambda>tmp.
       if r_ret tmp = 0
       then thenE (modify_obj (\<lambda>x. set_loading_error x (Some ''Cannot allocate memory for firmware bitstream'')))
              (throw Failed)
       else thenE
         (onfail
           (thenE (read_bitstream env sz)
             (thenE (on_device (cha_part (cha_switch_config_mode env))) (program_fpga env bufs)))
           (call_void env Free))
         (thenE (call_void env Free)
           (onfail (on_device (cha_part (cha_switch_fifo_mode env)))
              (ignore (on_device (in_cha (cha_switch_fifo_mode env))))))))"

section \<open>Creating, opening, freeing\<close>

text \<open>The structure after \<open>memset\<close>; \<open>null\<close> is the null pointer as user data.\<close>

definition ov_zero :: "'u \<Rightarrow> 'u ov_device" where
  "ov_zero null =
     (let c = \<lparr>cha_reg = \<lparr>reg_error = None, addr = \<lambda>_. 0\<rparr>, cha_error = None\<rparr>;
          p = \<lparr>pk_magic = 0, pk_flags = 0, pk_size = 0, pk_timestamp = 0, pk_data = []\<rparr>;
          d = \<lparr>lp_cha = c, lp_transfer = replicate transfers_count Idle, active_transfers = 0, lp_callback = None,
               lp_user = null, lp_count = 0, max_count = 0, lp_state = RUNNING, lp_complete = False,
               lp_abort = None\<rparr>
      in \<lparr>ov_cha = c, ov_chb = \<lparr>chb_error = None\<rparr>, ov_fwpkg = fwpkg_zero,
          ov_loop = \<lparr>fd_pd = \<lparr>packet = p, ops = \<lparr>ops_packet = None, ops_bus_frame = None\<rparr>, user_data = d,
                             cumulative_ts = 0, ts_byte = 0, ts_length = 0, pd_state = NEED_PACKET_MAGIC,
                             buf_actual_length = 0, buf_length = 0, pd_error_str = None\<rparr>,
                    fd_state = NEED_FRAME_MAGIC, fd_word = 0, bus_value = 0, bus_checksum = 0\<rparr>,
          ov_error = None\<rparr>)"

text \<open>\<open>iws\<close> is the generated hash function, \<open>n\<close> is \<open>sizeof(struct ov_device)\<close>.\<close>

definition ov_new ::
    "env \<Rightarrow> (string \<Rightarrow> reg_name option) \<Rightarrow> nat \<Rightarrow> 'u \<Rightarrow> string option \<Rightarrow> ('u ov_device st, unit) prog" where
  "ov_new env iws n null firmware_filename =
     bindE (perform env (Malloc n)) (\<lambda>ov.
       if r_ret ov = 0 then throw Failed
       else thenE (modify_obj (\<lambda>_. ov_zero null))
         (onfail
           (thenE (or_error (\<lambda>d. fw_error (ov_fwpkg d)) set_ov_error (in_package (fwpkg_init env firmware_filename)))
             (onfail
               (thenE
                 (or_error (\<lambda>d. cha_error (ov_cha d)) set_ov_error
                   (zoom (\<lambda>d. (ov_cha d, ov_fwpkg d)) (\<lambda>(c, f) d. d\<lparr>ov_cha := c, ov_fwpkg := f\<rparr>)
                     (cha_init env iws)))
                 (onfail (chb_part (chb_init env)) (in_cha (cha_destroy env))))
               (in_package (fwpkg_destroy env))))
           (call_void env Free)))"

definition ov_open :: "env \<Rightarrow> u8 list list \<Rightarrow> bit_file \<Rightarrow> ('u ov_device st, unit) prog" where
  "ov_open env bufs bf =
     seqE
       [cha_part (cha_open env),
        chb_part (chb_open env),
        zoom (\<lambda>d. (d, ov_fwpkg d, bf)) (\<lambda>(d, f, _) _. d\<lparr>ov_fwpkg := f\<rparr>) (ov_load_firmware_from_fwpkg env bufs),
        cha_part (cha_switch_fifo_mode env),
        cha_part (cha_stop_stream env)]"

definition ov_free :: "env \<Rightarrow> ('u ov_device st, unit) prog" where
  "ov_free env =
     seqE [in_chb (chb_destroy env), in_cha (cha_destroy env), in_package (fwpkg_destroy env), call_void env Free]"

section \<open>Speed\<close>

definition ov_get_usb_speed :: "env \<Rightarrow> ('u ov_device st, ov_usb_speed) prog" where
  "ov_get_usb_speed env = cha_part (cha_get_usb_speed env)"

definition ov_set_usb_speed :: "env \<Rightarrow> ov_usb_speed \<Rightarrow> ('u ov_device st, unit) prog" where
  "ov_set_usb_speed env speed = cha_part (cha_set_usb_speed env speed)"

section \<open>Another firmware\<close>

text \<open>
  The calls of libzip name no archive; in \<open>ov_load_firmware\<close> they are about the one that it has
  opened.  Its local variables are \<open>fwpkg\<close> and \<open>reg\<close>.
\<close>

type_synonym 'u reloading = "'u ov_device \<times> reg \<times> fwpkg"

definition set_reloading_error :: "'u reloading \<Rightarrow> string option \<Rightarrow> 'u reloading" where
  "set_reloading_error = (\<lambda>(d, x) msg. (d\<lparr>ov_error := msg\<rparr>, x))"

definition on_new_package :: "(fwpkg st, 'a) prog \<Rightarrow> ('u reloading st, 'a) prog" where
  "on_new_package = zoom (\<lambda>(d, r, f). f) (\<lambda>f (d, r, _). (d, r, f))"

definition reload :: "env \<Rightarrow> (string \<Rightarrow> reg_name option) \<Rightarrow> u8 list list \<Rightarrow> bit_file \<Rightarrow> ('u reloading st, unit) prog" where
  "reload env iws bufs bf =
     seqE
       [or_error (\<lambda>(d, r, f). reg_error r) set_reloading_error
          (zoom (\<lambda>(d, x). x) (\<lambda>x (d, _). (d, x)) (reg_init_from_fwpkg env iws)),
        zoom (\<lambda>(d, r, f). (d, f, bf)) (\<lambda>(d, f, _) (_, r, _). (d, r, f)) (ov_load_firmware_from_fwpkg env bufs),
        bindE (gets_obj (\<lambda>(d, r, f). r)) (\<lambda>r. zoom fst (\<lambda>d (_, x). (d, x)) (cha_part (cha_set_reg r)))]"

definition ov_load_firmware ::
    "env \<Rightarrow> (string \<Rightarrow> reg_name option) \<Rightarrow> u8 list list \<Rightarrow> bit_file \<Rightarrow> reg \<Rightarrow> fwpkg \<Rightarrow> string option
      \<Rightarrow> ('u ov_device st, unit) prog" where
  "ov_load_firmware env iws bufs bf reg fwpkg filename =
     zoom (\<lambda>d. (d, reg, fwpkg)) (\<lambda>(d, _) _. d)
       (thenE (or_error (\<lambda>(d, r, f). fw_error f) set_reloading_error (on_new_package (fwpkg_init env filename)))
         (thenE (onfail (reload env iws bufs bf) (on_new_package (fwpkg_destroy env)))
           (on_new_package (fwpkg_destroy env))))"

section \<open>Capturing\<close>

definition ov_capture_start ::
    "env \<Rightarrow> ov_packet \<Rightarrow> nat \<Rightarrow> 'u callback option \<Rightarrow> 'u \<Rightarrow> ('u ov_device st, unit) prog" where
  "ov_capture_start env p packet_size f u =
     thenE
       (or_error (\<lambda>d. cha_error (ov_cha d)) set_ov_error
         (zoom (\<lambda>d. (ov_cha d, ov_loop d)) (\<lambda>(c, l) d. d\<lparr>ov_cha := c, ov_loop := l\<rparr>)
           (cha_loop_init env p packet_size f u)))
       (cha_part (cha_start_stream env))"

text \<open>Entering the loop, and what it leaves.\<close>

definition loop_of :: "'u ov_device \<Rightarrow> 'u cha_loop" where
  "loop_of d = on_loop (\<lambda>l. l\<lparr>lp_cha := ov_cha d\<rparr>) (ov_loop d)"

definition put_loop :: "'u cha_loop \<Rightarrow> 'u ov_device \<Rightarrow> 'u ov_device" where
  "put_loop l d = d\<lparr>ov_loop := l, ov_cha := lp_cha (loop_data l)\<rparr>"

inductive ov_capture_dispatch ::
    "usb \<Rightarrow> (nat \<Rightarrow> int) \<Rightarrow> int \<Rightarrow> 'u ov_device \<Rightarrow> error + int \<Rightarrow> 'u ov_device \<Rightarrow> bool" for usb answer cnt where
  dispatch: "cha_loop_run usb answer cnt (loop_of d) r l \<Longrightarrow>
    d' = (if r = Inr (- 1) then set_ov_error (put_loop l d) (cha_error (lp_cha (loop_data l))) else put_loop l d) \<Longrightarrow>
    ov_capture_dispatch usb answer cnt d r d'"

definition ov_capture_set_callback ::
    "'u callback option \<Rightarrow> 'u \<Rightarrow> 'u ov_device \<Rightarrow> 'u ov_device \<times> 'u callback option" where
  "ov_capture_set_callback f u d =
     (case cha_loop_set_callback f u (loop_data (ov_loop d)) of
        (l, old) \<Rightarrow> (d\<lparr>ov_loop := on_loop (\<lambda>_. l) (ov_loop d)\<rparr>, old))"

definition ov_capture_breakloop :: "'u ov_device \<Rightarrow> 'u ov_device" where
  "ov_capture_breakloop d = d\<lparr>ov_loop := on_loop cha_loop_break (ov_loop d)\<rparr>"

text \<open>
  The function up to the loop: a failing \<open>cha_halt_stream\<close> only sets the string, since \<open>ret\<close> is
  overwritten by the loop.
\<close>

definition stop_begin :: "env \<Rightarrow> 'u \<Rightarrow> ('u ov_device st, unit) prog" where
  "stop_begin env null =
     thenE (ignore (cha_part (cha_halt_stream env)))
       (modify_obj (\<lambda>d. case ov_capture_set_callback None null d of
          (d', _) \<Rightarrow> d'\<lparr>ov_loop := on_loop (\<lambda>l. l\<lparr>lp_state := RUNNING\<rparr>) (ov_loop d')\<rparr>))"

text \<open>The function after the loop has returned \<open>r\<close>.\<close>

definition stop_end :: "env \<Rightarrow> error + int \<Rightarrow> ('u ov_device st, int) prog" where
  "stop_end env r =
     (case r of
        Inl e \<Rightarrow> throw e
      | Inr n \<Rightarrow>
          bindE
            (if n < 0 \<and> n \<noteq> - state_code HOST_READ_OFF
             then thenE (modify_obj (\<lambda>d. set_ov_error d (cha_error (ov_cha d)))) (ret (- 1))
             else ret 0) (\<lambda>n'.
          thenE (bindE (gets_obj ov_loop) (\<lambda>l. in_cha (cha_loop_destroy env l)))
            (\<lambda>s. case cha_part (cha_stop_stream env) s of
                None \<Rightarrow> None
              | Some (Inl e, s') \<Rightarrow> if e = Failed then Some (Inr (- 1), s') else Some (Inl e, s')
              | Some (Inr _, s') \<Rightarrow> Some (Inr n', s'))))"

inductive ov_capture_stop ::
    "env \<Rightarrow> usb \<Rightarrow> (nat \<Rightarrow> int) \<Rightarrow> 'u \<Rightarrow> 'u ov_device st \<Rightarrow> error + int \<Rightarrow> 'u ov_device st \<Rightarrow> bool"
    for env usb answer null where
  stop: "stop_begin env null s = Some (Inr (), s1) \<Longrightarrow>
    cha_loop_run usb answer (- 1) (loop_of (obj s1)) r l \<Longrightarrow>
    stop_end env r (s1\<lparr>obj := put_loop l (obj s1)\<rparr>) = Some (r', s') \<Longrightarrow>
    ov_capture_stop env usb answer null s r' s'"

end
