(* ===== verification/Tools.thy ===== *)
theory Tools imports
  Ov
  Nak_Filter
begin

text \<open>
  The three programs under \<open>tools/\<close>: they drive the library and print.  A program's object is its
  device and what it has printed; a run that uses the capture loop is a relation, like the loop.
  A \<open>prog\<close> that fails with \<open>Failed\<close> is a \<open>return 1\<close>.
\<close>

unbundle bit_operations_syntax

record 'u tool =
  tool_dev :: "'u ov_device"
  tool_out :: "string list"
  tool_err :: "string list"

definition in_dev :: "('u ov_device st, 'a) prog \<Rightarrow> ('u tool st, 'a) prog" where
  "in_dev = zoom tool_dev (\<lambda>d t. t\<lparr>tool_dev := d\<rparr>)"

text \<open>A line on the standard output, a line on the error output, and \<open>"%s: %s"\<close> with the library's error string.\<close>

definition print_out :: "string \<Rightarrow> ('u tool st, unit) prog" where
  "print_out line = modify_obj (\<lambda>t. t\<lparr>tool_out := tool_out t @ [line]\<rparr>)"

definition print_err :: "string \<Rightarrow> ('u tool st, unit) prog" where
  "print_err line = modify_obj (\<lambda>t. t\<lparr>tool_err := tool_err t @ [line]\<rparr>)"

definition complain :: "string \<Rightarrow> ('u tool st, unit) prog" where
  "complain what = modify_obj (\<lambda>t. t\<lparr>tool_err := tool_err t @
     [what @ '': '' @ (case ov_error (tool_dev t) of None \<Rightarrow> ''(null)'' | Some e \<Rightarrow> e)]\<rparr>)"

text \<open>\<open>if (ret < 0) { fprintf(...); ov_free(ov); return 1; }\<close>\<close>

definition or_quit :: "env \<Rightarrow> string \<Rightarrow> ('u ov_device st, 'a) prog \<Rightarrow> ('u tool st, 'a) prog" where
  "or_quit env what m = onfail (in_dev m) (thenE (complain what) (in_dev (ov_free env)))"

definition create ::
    "env \<Rightarrow> (string \<Rightarrow> reg_name option) \<Rightarrow> nat \<Rightarrow> 'u \<Rightarrow> string option \<Rightarrow> ('u tool st, unit) prog" where
  "create env iws n null filename =
     onfail (in_dev (ov_new env iws n null filename)) (print_err ''Cannot create ov_device handler'')"

section \<open>Loading a firmware: \<open>tools/load/main.c\<close>\<close>

definition load_main ::
    "env \<Rightarrow> (string \<Rightarrow> reg_name option) \<Rightarrow> nat \<Rightarrow> 'u \<Rightarrow> u8 list list \<Rightarrow> bit_file \<Rightarrow> reg \<Rightarrow> fwpkg \<Rightarrow> string list
      \<Rightarrow> ('u tool st, unit) prog" where
  "load_main env iws n null bufs bf reg fwpkg argv =
     (let filename = (if 1 < length argv then Some (argv ! 1) else None)
      in seqE
        [create env iws n null filename,
         or_quit env ''Cannot open OpenVizsla device'' (ov_open env bufs bf),
         or_quit env ''Cannot load firmware'' (ov_load_firmware env iws bufs bf reg fwpkg filename),
         print_out ''Firmware loaded'',
         in_dev (ov_free env)])"

section \<open>Capturing\<close>

text \<open>The device ready for a capture: created, opened, and at the speed.\<close>

definition prepare ::
    "env \<Rightarrow> (string \<Rightarrow> reg_name option) \<Rightarrow> nat \<Rightarrow> 'u \<Rightarrow> u8 list list \<Rightarrow> bit_file \<Rightarrow> ov_usb_speed
      \<Rightarrow> ('u tool st, unit) prog" where
  "prepare env iws n null bufs bf speed =
     seqE
       [create env iws n null None,
        or_quit env ''Cannot open OpenVizsla device'' (ov_open env bufs bf),
        or_quit env ''Cannot set USB speed'' (ov_set_usb_speed env speed)]"

text \<open>
  \<open>union { struct ov_packet packet; char buf[1024]; } p\<close>: the header of a packed packet has 12 bytes.
  The bytes are whatever the stack holds.
\<close>

definition union_packet :: "u8 list \<Rightarrow> ov_packet" where
  "union_packet buf = \<lparr>pk_magic = buf ! 0, pk_flags = buf ! 1, pk_size = word_rcat [buf ! 3, buf ! 2],
     pk_timestamp = word_rcat (rev (take 8 (drop 4 buf))), pk_data = drop 12 (take 1024 buf)\<rparr>"

definition union_size :: nat where "union_size = 1024"

text \<open>The device of a tool inside the relations of the library.\<close>

definition dev_st :: "'u tool st \<Rightarrow> 'u ov_device st" where
  "dev_st s = \<lparr>obj = tool_dev (obj s), hist = hist s\<rparr>"

definition put_dev :: "'u ov_device st \<Rightarrow> 'u tool st \<Rightarrow> 'u tool st" where
  "put_dev d s = \<lparr>obj = (obj s)\<lparr>tool_dev := obj d\<rparr>, hist = hist d\<rparr>"

text \<open>\<open>if (ret == -1) fprintf(...)\<close>\<close>

definition after_dispatch :: "int \<Rightarrow> ('u tool st, unit) prog" where
  "after_dispatch n = (if n = - 1 then complain ''Cannot dispatch capture'' else ret ())"

section \<open>The sample: \<open>tools/sample/main.c\<close>\<close>

fun show_nat :: "nat \<Rightarrow> string" where
  "show_nat n = (if n < 10 then [char_of (48 + n)] else show_nat (n div 10) @ [char_of (48 + n mod 10)])"

declare show_nat.simps [simp del]

definition show_int :: "int \<Rightarrow> string" where
  "show_int i = (if i < 0 then CHR ''-'' # show_nat (nat (- i)) else show_nat (nat i))"

definition show_hex :: "u8 \<Rightarrow> string" where
  "show_hex b = map (\<lambda>d. ''0123456789abcdef'' ! d) [unat b div 16, unat b mod 16]"

text \<open>The line for a packet; it is given to the user data of the callback, which collects the output.\<close>

definition sample_line :: "ov_packet \<Rightarrow> string" where
  "sample_line p = ''['' @ show_hex (pk_flags p) @ ''] Received '' @ show_nat (unat (pk_size p)) @ '' bytes at '' @
     show_int (sint (pk_timestamp p)) @ '':'' @
     concat (map (\<lambda>b. '' '' @ show_hex b) (take (ov_packet_captured_size p) (pk_data p)))"

definition sample_handler :: "string list callback" where
  "sample_handler p lines = Inr (lines @ [sample_line p], False)"

inductive sample_main ::
    "env \<Rightarrow> (string \<Rightarrow> reg_name option) \<Rightarrow> nat \<Rightarrow> u8 list list \<Rightarrow> bit_file \<Rightarrow> u8 list \<Rightarrow> usb \<Rightarrow> (nat \<Rightarrow> int)
      \<Rightarrow> (nat \<Rightarrow> int) \<Rightarrow> string list tool st \<Rightarrow> int \<Rightarrow> string list tool st \<Rightarrow> bool"
    for env iws n bufs bf buf usb answer answer' where
  quits: "thenE (prepare env iws n [] bufs bf OV_LOW_SPEED)
      (or_quit env ''Cannot start capture''
        (ov_capture_start env (union_packet buf) union_size (Some sample_handler) [])) s = Some (Inl Failed, s') \<Longrightarrow>
    sample_main env iws n bufs bf buf usb answer answer' s 1 s'"
| captures: "thenE (prepare env iws n [] bufs bf OV_LOW_SPEED)
      (or_quit env ''Cannot start capture''
        (ov_capture_start env (union_packet buf) union_size (Some sample_handler) [])) s = Some (Inr (), s1) \<Longrightarrow>
    ov_capture_dispatch usb answer 100 (tool_dev (obj s1)) (Inr r) d \<Longrightarrow>
    thenE (modify_obj (\<lambda>t. t\<lparr>tool_dev := d, tool_out := tool_out t @ lp_user (loop_data (ov_loop d))\<rparr>))
      (after_dispatch r) s1 = Some (Inr (), s2) \<Longrightarrow>
    ov_capture_stop env usb answer' [] (dev_st s2) (Inr q) t \<Longrightarrow>
    in_dev (ov_free env) (put_dev t s2) = Some (Inr (), s') \<Longrightarrow>
    sample_main env iws n bufs bf buf usb answer answer' s (if r = - 1 then 1 else 0) s'"

end
