(* ===== verification/Extcap.thy ===== *)
theory Extcap imports
  Tools
begin

text \<open>
  \<open>tools/ovextcap/main.c\<close>: the capture, and the dialogue with Wireshark over the command line.  What
  \<open>getopt_long\<close> returns is a list of options; \<open>sscanf\<close> and \<open>atoi\<close> are defined as far as they are
  used, without overflow.
\<close>

section \<open>A capture\<close>

text \<open>
  \<open>struct handler_data\<close> when the capture starts.  \<open>tv_sec\<close> and \<open>tv_nsec\<close> are the clock; the fields of
  the structure have 32 bits.
\<close>

definition handler_start ::
    "ofile \<Rightarrow> ofile \<Rightarrow> int \<Rightarrow> nat \<Rightarrow> bool \<Rightarrow> bool \<Rightarrow> u32 \<Rightarrow> handler_data" where
  "handler_start fifo debug_pcap tv_sec tv_nsec naks sofs linktype =
     \<lparr>out = write_pcap_header linktype fifo, debug = write_pcap_header linktype debug_pcap,
      utc_ts = of_int tv_sec, ts_offset = of_nat (tv_nsec div 17 + tv_nsec div 850), last_ov_ts = 0,
      filter_naks = naks, filter_sofs = sofs, st = FILTER_STATE_DEFAULT, queue = []\<rparr>"

text \<open>The end of the handler's data: the pending packets are dropped or written, the files closed.\<close>

definition close_files :: "handler_data \<Rightarrow> handler_data" where
  "close_files h = h\<lparr>out := close_file (out h), debug := close_file (debug h)\<rparr>"

definition handler_end :: "handler_data \<Rightarrow> handler_data" where
  "handler_end h = close_files (discard_queued_packets h)"

text \<open>Up to the opened fifo; \<open>None\<close> is a \<open>fopen\<close> that fails.\<close>

definition capture_prepare ::
    "env \<Rightarrow> (string \<Rightarrow> reg_name option) \<Rightarrow> nat \<Rightarrow> handler_data \<Rightarrow> u8 list list \<Rightarrow> bit_file \<Rightarrow> ov_usb_speed
      \<Rightarrow> ofile option \<Rightarrow> (handler_data tool st, unit) prog" where
  "capture_prepare env iws n null bufs bf speed fifo =
     thenE (prepare env iws n null bufs bf speed)
       (case fifo of
          None \<Rightarrow> onfail (throw Failed) (thenE (print_err ''Cannot open fifo for writing'') (in_dev (ov_free env)))
        | Some _ \<Rightarrow> ret ())"

text \<open>
  \<open>start_capture\<close> may return \<open>code\<close>; \<open>files\<close> is the final state of the handler's data, if the files
  were opened.  The result of \<open>ov_capture_stop\<close> is not looked at.
\<close>

inductive start_capture ::
    "env \<Rightarrow> (string \<Rightarrow> reg_name option) \<Rightarrow> nat \<Rightarrow> handler_data \<Rightarrow> u8 list list \<Rightarrow> bit_file \<Rightarrow> u8 list \<Rightarrow> usb
      \<Rightarrow> (nat \<Rightarrow> int) \<Rightarrow> (nat \<Rightarrow> int) \<Rightarrow> int \<Rightarrow> nat \<Rightarrow> ov_usb_speed \<Rightarrow> u32 \<Rightarrow> bool \<Rightarrow> bool \<Rightarrow> ofile option \<Rightarrow> ofile
      \<Rightarrow> handler_data tool st \<Rightarrow> int \<Rightarrow> handler_data option \<Rightarrow> handler_data tool st \<Rightarrow> bool"
    for env iws n null bufs bf buf usb answer answer' tv_sec tv_nsec speed linktype naks sofs fifo debug_pcap where
  not_prepared: "capture_prepare env iws n null bufs bf speed fifo s = Some (Inl Failed, s') \<Longrightarrow>
    start_capture env iws n null bufs bf buf usb answer answer' tv_sec tv_nsec speed linktype naks sofs fifo
      debug_pcap s 1 None s'"
| not_started: "capture_prepare env iws n null bufs bf speed fifo s = Some (Inr (), s1) \<Longrightarrow>
    h = handler_start (the fifo) debug_pcap tv_sec tv_nsec naks sofs linktype \<Longrightarrow>
    or_quit env ''Cannot start capture''
      (ov_capture_start env (union_packet buf) union_size (Some packet_handler) h) s1 = Some (Inl Failed, s') \<Longrightarrow>
    start_capture env iws n null bufs bf buf usb answer answer' tv_sec tv_nsec speed linktype naks sofs fifo
      debug_pcap s 1 (Some (close_files h)) s'"
| captured: "capture_prepare env iws n null bufs bf speed fifo s = Some (Inr (), s1) \<Longrightarrow>
    h = handler_start (the fifo) debug_pcap tv_sec tv_nsec naks sofs linktype \<Longrightarrow>
    or_quit env ''Cannot start capture''
      (ov_capture_start env (union_packet buf) union_size (Some packet_handler) h) s1 = Some (Inr (), s2) \<Longrightarrow>
    ov_capture_dispatch usb answer 0 (tool_dev (obj s2)) (Inr r) d \<Longrightarrow>
    thenE (modify_obj (\<lambda>t. t\<lparr>tool_dev := d\<rparr>)) (after_dispatch r) s2 = Some (Inr (), s3) \<Longrightarrow>
    ov_capture_stop env usb answer' null (dev_st s3) (Inr q) t \<Longrightarrow>
    in_dev (ov_free env) (put_dev t s3) = Some (Inr (), s') \<Longrightarrow>
    start_capture env iws n null bufs bf buf usb answer answer' tv_sec tv_nsec speed linktype naks sofs fifo
      debug_pcap s r (Some (handler_end (lp_user (loop_data (ov_loop d))))) s'"

section \<open>What Wireshark is told\<close>

definition EXTCAP_VERSION_STR :: string where "EXTCAP_VERSION_STR = ''0.0.3''"
definition EXTCAP_INTERFACE_DEPRECATED :: string where "EXTCAP_INTERFACE_DEPRECATED = ''ov''"
definition EXTCAP_INTERFACE_LOW_SPEED :: string where "EXTCAP_INTERFACE_LOW_SPEED = ''ov-low''"
definition EXTCAP_INTERFACE_FULL_SPEED :: string where "EXTCAP_INTERFACE_FULL_SPEED = ''ov-full''"
definition EXTCAP_INTERFACE_HIGH_SPEED :: string where "EXTCAP_INTERFACE_HIGH_SPEED = ''ov-high''"

lemmas interface_defs = EXTCAP_INTERFACE_DEPRECATED_def EXTCAP_INTERFACE_LOW_SPEED_def
  EXTCAP_INTERFACE_FULL_SPEED_def EXTCAP_INTERFACE_HIGH_SPEED_def

datatype wireshark_version =
    WIRESHARK_VERSION_UNKNOWN
  | WIRESHARK_VERSION_2_9_OR_NEWER
  | WIRESHARK_VERSION_3_1_OR_NEWER
  | WIRESHARK_VERSION_4_0_OR_NEWER

text \<open>\<open>%d\<close> of \<open>sscanf\<close>: white space, a sign, digits; the number and the rest.\<close>

definition is_digit :: "char \<Rightarrow> bool" where
  "is_digit c \<longleftrightarrow> 48 \<le> (of_char c :: nat) \<and> (of_char c :: nat) \<le> 57"

definition is_space :: "char \<Rightarrow> bool" where
  "is_space c \<longleftrightarrow> c = CHR '' '' \<or> 9 \<le> (of_char c :: nat) \<and> (of_char c :: nat) \<le> 13"

definition digits_value :: "string \<Rightarrow> nat" where
  "digits_value ds = foldl (\<lambda>a c. 10 * a + (of_char c - 48)) 0 ds"

definition scan_int :: "string \<Rightarrow> (int \<times> string) option" where
  "scan_int s =
     (let t = dropWhile is_space s;
          neg = (t \<noteq> [] \<and> hd t = CHR ''-'');
          u = (if t \<noteq> [] \<and> (hd t = CHR ''-'' \<or> hd t = CHR ''+'') then tl t else t);
          ds = takeWhile is_digit u
      in if ds = [] then None
         else Some (if neg then - int (digits_value ds) else int (digits_value ds), dropWhile is_digit u))"

definition atoi :: "string \<Rightarrow> int" where
  "atoi s = (case scan_int s of None \<Rightarrow> 0 | Some (i, _) \<Rightarrow> i)"

text \<open>\<open>sscanf(version, "%d.%d", &major, &minor) == 2\<close>\<close>

definition scan_version :: "string \<Rightarrow> (int \<times> int) option" where
  "scan_version s = (case scan_int s of
       None \<Rightarrow> None
     | Some (major, rest) \<Rightarrow>
         (if rest \<noteq> [] \<and> hd rest = CHR ''.''
          then map_option (\<lambda>(minor, _). (major, minor)) (scan_int (tl rest))
          else None))"

definition wireshark_version_from_string :: "string option \<Rightarrow> wireshark_version" where
  "wireshark_version_from_string version =
     (case Option.bind version scan_version of
        None \<Rightarrow> WIRESHARK_VERSION_UNKNOWN
      | Some (major, minor) \<Rightarrow>
          if 4 \<le> major then WIRESHARK_VERSION_4_0_OR_NEWER
          else if major = 3 \<and> 1 \<le> minor then WIRESHARK_VERSION_3_1_OR_NEWER
          else WIRESHARK_VERSION_2_9_OR_NEWER)"

definition print_extcap_version :: "string list" where
  "print_extcap_version =
     [''extcap {version='' @ EXTCAP_VERSION_STR @ ''}{help=https://github.com/matwey/libopenvizsla/}'']"

definition interface_line :: "string \<Rightarrow> string \<Rightarrow> string" where
  "interface_line val disp = ''interface {value='' @ val @ ''}{display='' @ disp @ ''}''"

definition print_extcap_interfaces :: "wireshark_version \<Rightarrow> string list" where
  "print_extcap_interfaces ws_version =
     (if ws_version = WIRESHARK_VERSION_3_1_OR_NEWER
      then [interface_line EXTCAP_INTERFACE_DEPRECATED ''OpenVizsla FPGA-based USB sniffer'']
      else [interface_line EXTCAP_INTERFACE_LOW_SPEED ''OpenVizsla Low Speed USB capture'',
            interface_line EXTCAP_INTERFACE_FULL_SPEED ''OpenVizsla Full Speed USB capture'',
            interface_line EXTCAP_INTERFACE_HIGH_SPEED ''OpenVizsla High Speed USB capture''])"

definition dlt_line :: "u32 \<Rightarrow> string \<Rightarrow> string \<Rightarrow> string" where
  "dlt_line number val disp =
     ''dlt {number='' @ show_nat (unat number) @ ''}{name='' @ val @ ''}{display='' @ disp @ ''}''"

definition print_extcap_dlts :: "string \<Rightarrow> string list" where
  "print_extcap_dlts ifc =
     (if ifc = EXTCAP_INTERFACE_DEPRECATED
      then [dlt_line LINKTYPE_USBLL ''USB_2_0'' ''USB 2.0/1.1/1.0'']
      else if ifc = EXTCAP_INTERFACE_LOW_SPEED
      then [dlt_line LINKTYPE_USBLL_LOW_SPEED ''USB_2_0_LOW_SPEED'' ''Low-Speed USB 2.0/1.1/1.0'']
      else if ifc = EXTCAP_INTERFACE_FULL_SPEED
      then [dlt_line LINKTYPE_USBLL_FULL_SPEED ''USB_2_0_FULL_SPEED'' ''Full-Speed USB 2.0/1.1/1.0'']
      else if ifc = EXTCAP_INTERFACE_HIGH_SPEED
      then [dlt_line LINKTYPE_USBLL_HIGH_SPEED ''USB_2_0_HIGH_SPEED'' ''High-Speed USB 2.0'']
      else [])"

definition speed_value :: "ov_usb_speed \<Rightarrow> string" where
  "speed_value s = show_nat (unat (ov_usb_speed_code s))"

text \<open>The lines of the speed selector, of the two filters, and of the debug file.\<close>

definition speed_options :: "string list" where
  "speed_options =
     [''arg {number=0}{call=--speed}{display=Capture speed}{tooltip=Analyzed device USB speed}{type=selector}{default='' @
        speed_value OV_HIGH_SPEED @ ''}{group=Capture}'',
      ''value {arg=0}{value='' @ speed_value OV_HIGH_SPEED @ ''}{display=High}'',
      ''value {arg=0}{value='' @ speed_value OV_FULL_SPEED @ ''}{display=Full}'',
      ''value {arg=0}{value='' @ speed_value OV_LOW_SPEED @ ''}{display=Low}'']"

definition sof_option :: "string \<Rightarrow> string" where
  "sof_option disp =
     ''arg {number=2}{call=--filter-sof}{display='' @ disp @
     ''}{tooltip=Only SOFs that do not interrupt any transaction will be filtered}{type=boolflag}{default=false}{group=Capture}''"

definition print_extcap_options :: "string \<Rightarrow> string list" where
  "print_extcap_options ifc =
     (if ifc = EXTCAP_INTERFACE_DEPRECATED then speed_options else []) @
     [''arg {number=1}{call=--filter-nak}{display=Filter NAKed transactions}{tooltip=NAKed SPLIT transactions won't be filtered}{type=boolflag}{default=false}{group=Capture}''] @
     (if ifc = EXTCAP_INTERFACE_DEPRECATED
      then [sof_option ''Filter Full and High speed Start-of-Frame packets'']
      else if ifc = EXTCAP_INTERFACE_FULL_SPEED \<or> ifc = EXTCAP_INTERFACE_HIGH_SPEED
      then [sof_option ''Filter Start-of-Frame packets'']
      else []) @
     [''arg {number=800}{call=--overwrite-debug-pcap}{display=Overwrite .pcap file if it exists}{type=boolflag}{required=false}{default=false}{group=Debug}'',
      ''arg {number=801}{call=--debug-pcap}{display=Save all packets to .pcap file}{type=fileselect}{fileext=pcap (*.pcap)}{tooltip=Set a file where all incoming packets are written (unfiltered)}{required=false}{group=Debug}'']"

section \<open>The command line\<close>

text \<open>What \<open>getopt_long\<close> reports; \<open>Unknown\<close> is any other character code.\<close>

datatype opt =
    Speed string
  | Filter_nak
  | Filter_sof
  | Overwrite_debug_pcap
  | Debug_pcap string
  | Extcap_version "string option"
  | Extcap_interface string
  | Fifo string
  | Extcap_interfaces
  | Extcap_dlts
  | Extcap_config
  | Capture
  | Unknown nat

record options =
  o_linktype :: u32
  o_speed :: ov_usb_speed
  o_filter_naks :: bool
  o_filter_sofs :: bool
  o_overwrite :: bool
  o_debug_pcap :: "string option"
  o_version :: bool
  o_interfaces :: bool
  o_dlts :: bool
  o_config :: bool
  o_capture :: bool
  o_ws_version :: wireshark_version
  o_interface :: "string option"
  o_fifo :: "string option"

definition default_options :: options where
  "default_options = \<lparr>o_linktype = LINKTYPE_USBLL, o_speed = OV_HIGH_SPEED, o_filter_naks = False,
     o_filter_sofs = False, o_overwrite = False, o_debug_pcap = None, o_version = False, o_interfaces = False,
     o_dlts = False, o_config = False, o_capture = False, o_ws_version = WIRESHARK_VERSION_UNKNOWN,
     o_interface = None, o_fifo = None\<rparr>"

fun show_HEX :: "nat \<Rightarrow> string" where
  "show_HEX n = (if n < 16 then [''0123456789ABCDEF'' ! n] else show_HEX (n div 16) @ [''0123456789ABCDEF'' ! (n mod 16)])"

declare show_HEX.simps [simp del]

text \<open>\<open>speed = atoi(optarg)\<close>, which has to be one of the codes.\<close>

definition speed_from_arg :: "string \<Rightarrow> ov_usb_speed option" where
  "speed_from_arg arg =
     (let c = atoi arg
      in if c = uint (ov_usb_speed_code OV_LOW_SPEED) then Some OV_LOW_SPEED
         else if c = uint (ov_usb_speed_code OV_FULL_SPEED) then Some OV_FULL_SPEED
         else if c = uint (ov_usb_speed_code OV_HIGH_SPEED) then Some OV_HIGH_SPEED
         else None)"

text \<open>One round of the loop over the options; \<open>Inl\<close> is the message of a \<open>return -1\<close>.\<close>

fun read_opt :: "opt \<Rightarrow> options \<Rightarrow> string + options" where
  "read_opt (Speed arg) p = (case speed_from_arg arg of
       None \<Rightarrow> Inl ''Invalid speed option!'' | Some s \<Rightarrow> Inr (p\<lparr>o_speed := s\<rparr>))"
| "read_opt Filter_nak p = Inr (p\<lparr>o_filter_naks := True\<rparr>)"
| "read_opt Filter_sof p = Inr (p\<lparr>o_filter_sofs := True\<rparr>)"
| "read_opt Overwrite_debug_pcap p = Inr (p\<lparr>o_overwrite := True\<rparr>)"
| "read_opt (Debug_pcap arg) p = Inr (p\<lparr>o_debug_pcap := Some arg\<rparr>)"
| "read_opt (Extcap_version arg) p =
     Inr (p\<lparr>o_version := True, o_ws_version := wireshark_version_from_string arg\<rparr>)"
| "read_opt (Extcap_interface arg) p = Inr (p\<lparr>o_interface := Some arg\<rparr>)"
| "read_opt (Fifo arg) p = Inr (p\<lparr>o_fifo := Some arg\<rparr>)"
| "read_opt Extcap_interfaces p = Inr (p\<lparr>o_interfaces := True\<rparr>)"
| "read_opt Extcap_dlts p = Inr (p\<lparr>o_dlts := True\<rparr>)"
| "read_opt Extcap_config p = Inr (p\<lparr>o_config := True\<rparr>)"
| "read_opt Capture p = Inr (p\<lparr>o_capture := True\<rparr>)"
| "read_opt (Unknown c) p =
     Inl (''getopt_long() returned character code 0x'' @ show_HEX c @ ''. Please report.'')"

fun read_opts :: "opt list \<Rightarrow> options \<Rightarrow> string + options" where
  "read_opts [] p = Inr p"
| "read_opts (x # xs) p = (case read_opt x p of Inl m \<Rightarrow> Inl m | Inr p' \<Rightarrow> read_opts xs p')"

text \<open>The answers on the standard output.\<close>

definition main_output :: "options \<Rightarrow> string list" where
  "main_output p =
     (if o_version p then print_extcap_version else []) @
     (if o_interfaces p then print_extcap_interfaces (o_ws_version p) else []) @
     (case o_interface p of
        None \<Rightarrow> []
      | Some ifc \<Rightarrow> (if o_dlts p then print_extcap_dlts ifc else []) @ (if o_config p then print_extcap_options ifc else []))"

text \<open>The link type and the speed of the interface.\<close>

definition select_interface :: "options \<Rightarrow> options" where
  "select_interface p = (case o_interface p of
       None \<Rightarrow> p
     | Some ifc \<Rightarrow>
         if ifc = EXTCAP_INTERFACE_LOW_SPEED
         then p\<lparr>o_linktype := LINKTYPE_USBLL_LOW_SPEED, o_speed := OV_LOW_SPEED\<rparr>
         else if ifc = EXTCAP_INTERFACE_FULL_SPEED
         then p\<lparr>o_linktype := LINKTYPE_USBLL_FULL_SPEED, o_speed := OV_FULL_SPEED\<rparr>
         else if ifc = EXTCAP_INTERFACE_HIGH_SPEED
         then p\<lparr>o_linktype := LINKTYPE_USBLL_HIGH_SPEED, o_speed := OV_HIGH_SPEED\<rparr>
         else p)"

text \<open>The end of \<open>main\<close>: an exit code, or the arguments of \<open>start_capture\<close>.\<close>

datatype outcome =
    Exit int
  | Start_capture ov_usb_speed u32 bool bool string ofile

text \<open>A null \<open>FILE*\<close>.\<close>

definition no_file :: ofile where
  "no_file = \<lparr>f_open = False, f_content = [], f_fwrite_ok = \<lambda>_ _. False, f_fflush_ok = \<lambda>_. False\<rparr>"

text \<open>\<open>open_debug\<close> creates the debug file: it is given the name and whether an existing file may be overwritten.\<close>

definition main_capture :: "(string \<Rightarrow> bool \<Rightarrow> ofile option) \<Rightarrow> options \<Rightarrow> string list \<times> outcome" where
  "main_capture open_debug p =
     (if \<not> o_capture p then ([], Exit 0)
      else case (o_fifo p, o_interface p) of
          (Some fifo, Some _) \<Rightarrow>
            (let start = Start_capture (o_speed p) (o_linktype p) (o_filter_naks p) (o_filter_sofs p) fifo
             in case o_debug_pcap p of
                  None \<Rightarrow> ([], start no_file)
                | Some name \<Rightarrow> (case open_debug name (o_overwrite p) of
                      None \<Rightarrow> ([''Cannot create debug pcap file!''], Exit (- 1))
                    | Some f \<Rightarrow> ([], start f)))
        | _ \<Rightarrow> ([], Exit (- 1)))"

definition extcap_main ::
    "(string \<Rightarrow> bool \<Rightarrow> ofile option) \<Rightarrow> opt list \<Rightarrow> string list \<times> string list \<times> outcome" where
  "extcap_main open_debug opts =
     (case read_opts opts default_options of
        Inl m \<Rightarrow> ([], [m], Exit (- 1))
      | Inr p \<Rightarrow> (main_output p, main_capture open_debug (select_interface p)))"

end
