(* ===== verification/Resources.thy ===== *)
theory Resources imports
  Bit_Spec
  Cha_Rules
  Fwpkg_Spec
begin

text \<open>
  What a program holds: memory, archives, members of archives, libftdi contexts, transfers.  A
  program is described by what it takes when it succeeds and by what it takes when it returns -1;
  the rules follow the control flow, the cleanup code behind \<open>goto fail\<close> included.
\<close>

section \<open>Resources\<close>

datatype resource = Memory | Archive | Zip_member | Context channel | Transfer

text \<open>What a call takes (1) or gives back (-1), and what is held after a history.\<close>

fun change :: "resource \<Rightarrow> call \<times> reply \<Rightarrow> int" where
  "change k (Malloc n, r) = (if k = Memory \<and> r_ret r \<noteq> 0 then 1 else 0)"
| "change k (Free, r) = (if k = Memory then - 1 else 0)"
| "change k (Zip_open n, r) = (if k = Archive \<and> r_ret r \<noteq> 0 then 1 else 0)"
| "change k (Zip_open_from_source, r) = (if k = Archive \<and> r_ret r \<noteq> 0 then 1 else 0)"
| "change k (Zip_discard, r) = (if k = Archive then - 1 else 0)"
| "change k (Zip_fopen_index i, r) = (if k = Zip_member \<and> r_ret r \<noteq> 0 then 1 else 0)"
| "change k (Zip_fclose, r) = (if k = Zip_member then - 1 else 0)"
| "change k (Ftdi_init ch, r) = (if k = Context ch \<and> 0 \<le> r_ret r then 1 else 0)"
| "change k (Ftdi_deinit ch, r) = (if k = Context ch then - 1 else 0)"
| "change k (Libusb_alloc_transfer, r) = (if k = Transfer \<and> r_ret r \<noteq> 0 then 1 else 0)"
| "change k (Libusb_free_transfer i, r) = (if k = Transfer then - 1 else 0)"
| "change k _ = 0"

definition held :: "resource \<Rightarrow> history \<Rightarrow> int" where
  "held k h = sum_list (map (change k) h)"

lemma held_simps [simp]:
  "held k [] = 0" "held k (h @ h') = held k h + held k h'" "held k (e # h) = change k e + held k h"
  by (simp_all add: held_def)

lemma device_io_change: "device_io c \<Longrightarrow> change k (c, r) = 0"
  by (cases c) simp_all

lemma talks_held: "talks h h' \<Longrightarrow> held k h' = held k h"
proof -
  have "held k es = 0" if "list_all (\<lambda>e. device_io (fst e)) es" for es
    using that by (induction es) (auto simp: device_io_change)
  then show "talks h h' \<Longrightarrow> held k h' = held k h"
    by (auto simp: talks_def)
qed

section \<open>Rules\<close>

text \<open>\<open>spends f g m\<close>: \<open>m\<close> takes \<open>f\<close> if it succeeds and \<open>g\<close> if it returns -1.\<close>

definition spends :: "(resource \<Rightarrow> int) \<Rightarrow> (resource \<Rightarrow> int) \<Rightarrow> ('c st, 'a) prog \<Rightarrow> bool" where
  "spends f g m \<longleftrightarrow> always (\<lambda>s r s'. case r of
       Inr _ \<Rightarrow> (\<forall>k. held k (hist s') = held k (hist s) + f k)
     | Inl e \<Rightarrow> e = Failed \<longrightarrow> (\<forall>k. held k (hist s') = held k (hist s) + g k)) m"

lemma spendsI:
  assumes "\<And>s x s' k. m s = Some (Inr x, s') \<Longrightarrow> held k (hist s') = held k (hist s) + f k"
    and "\<And>s s' k. m s = Some (Inl Failed, s') \<Longrightarrow> held k (hist s') = held k (hist s) + g k"
  shows "spends f g m"
  unfolding spends_def always_def using assms by (auto split: sum.split)

lemma spendsD:
  assumes "spends f g m"
  shows "m s = Some (Inr x, s') \<Longrightarrow> held k (hist s') = held k (hist s) + f k"
    and "m s = Some (Inl Failed, s') \<Longrightarrow> held k (hist s') = held k (hist s) + g k"
  using assms unfolding spends_def always_def by fastforce+

lemma spends_bindE:
  assumes "spends f1 g m" and "\<And>x. spends f2 g2 (k x)"
    and "\<And>i. f i = f1 i + f2 i" and "\<And>i. g i = f1 i + g2 i"
  shows "spends f g (bindE m k)"
  using assms(3,4) by (intro spendsI) (auto simp: bindE_Some spendsD [OF assms(1)] spendsD [OF assms(2)])

lemma spends_thenE:
  "spends f1 g m \<Longrightarrow> spends f2 g2 k \<Longrightarrow> (\<And>i. f i = f1 i + f2 i) \<Longrightarrow> (\<And>i. g i = f1 i + g2 i) \<Longrightarrow>
   spends f g (thenE m k)"
  unfolding thenE_def by (rule spends_bindE)

lemma spends_onfail:
  assumes "spends f g1 m" and "spends h h m2" and "\<And>i. g i = g1 i + h i"
  shows "spends f g (onfail m m2)"
  using assms(3)
  by (intro spendsI) (auto simp: onfail_def spendsD [OF assms(1)] spendsD [OF assms(2)]
      split: option.splits sum.splits error.splits)

lemma spends_zoom:
  assumes "spends f g m"
  shows "spends f g (zoom a b m)"
  by (rule spendsI) (auto simp: zoom_def split: option.splits dest!: spendsD [OF assms])

lemma spends_throw: "spends f (\<lambda>_. 0) (throw e)"
  by (rule spendsI) auto

lemma spends_modify: "spends (\<lambda>_. 0) g (modify_obj h)"
  by (rule spendsI) auto

lemma spends_release: "(\<And>r k. change k (c, r) = f k) \<Longrightarrow> spends f g (call_void env c)"
  by (rule spendsI) auto

text \<open>A call whose result tells whether it took something.\<close>

lemma spends_acquire:
  assumes "\<And>r k. change k (c, r) = (if r_ret r \<noteq> 0 then a k else 0)"
    and "\<And>r. spends f g (fl r)" and "\<And>r. spends f2 g2 (ok r)"
    and "\<And>i. f i = a i + f2 i" and "\<And>i. g i = a i + g2 i"
  shows "spends f g (bindE (perform env c) (\<lambda>r. if r_ret r = 0 then fl r else ok r))"
  using assms(1,4,5)
  by (intro spendsI) (auto simp: bindE_def spendsD [OF assms(2)] spendsD [OF assms(3)] split: if_splits)

lemma spends_do_checked:
  assumes "\<And>r k. change k (c, r) = (if 0 \<le> r_ret r then a k else 0)"
  shows "spends a (\<lambda>_. 0) (do_checked env se c)"
  using assms by (intro spendsI) (auto simp: do_checked_run after_def Let_def split: if_splits)

section \<open>Programs that hold nothing\<close>

abbreviation harmless :: "('c st, 'a) prog \<Rightarrow> bool" where
  "harmless \<equiv> spends (\<lambda>_. 0) (\<lambda>_. 0)"

named_theorems harmless_rules \<open>programs that give back what they take\<close>

lemma reports_harmless: "reporting.keeps err m \<Longrightarrow> harmless m"
  by (intro spendsI) (auto simp: reported_def talks_held dest: reporting.keepsD(1))

lemma harmless_bindE: "harmless m \<Longrightarrow> (\<And>x. harmless (k x)) \<Longrightarrow> harmless (bindE m k)"
  by (rule spends_bindE) auto

lemma harmless_thenE: "harmless m \<Longrightarrow> harmless k \<Longrightarrow> harmless (thenE m k)"
  by (rule spends_thenE) auto

lemma harmless_onfail: "harmless m \<Longrightarrow> harmless k \<Longrightarrow> harmless (onfail m k)"
  by (rule spends_onfail) auto

lemma harmless_ignore:
  assumes "harmless m"
  shows "harmless (ignore m)"
  by (rule spendsI)
    (auto simp: ignore_def spendsD [OF assms] split: option.splits sum.splits error.splits)

lemma harmless_pure:
  "harmless (ret x)" "harmless (throw e)" "harmless (modify_obj h)" "harmless (gets_obj v)"
  "harmless (fail_lib env se)" "harmless (fail_str se msg)" "harmless (run_pure q)"
  by (rule spendsI; auto simp: run_pure_def split: prod.splits)+

lemma harmless_perform: "(\<And>r k. change k (c, r) = 0) \<Longrightarrow> harmless (perform env c)"
  by (rule spendsI) auto

lemma harmless_call_void: "(\<And>r k. change k (c, r) = 0) \<Longrightarrow> harmless (call_void env c)"
  by (rule spendsI) auto

lemma harmless_do_checked: "(\<And>r k. change k (c, r) = 0) \<Longrightarrow> harmless (do_checked env se c)"
  by (rule spendsI) (auto simp: do_checked_run after_def Let_def split: if_splits)

lemma harmless_if: "harmless m \<Longrightarrow> harmless k \<Longrightarrow> harmless (if b then m else k)"
  by simp

lemma harmless_seqE: "list_all harmless ms \<Longrightarrow> harmless (seqE ms)"
  by (induction ms) (simp_all add: harmless_pure harmless_thenE)

lemmas harmless_intros = harmless_pure harmless_bindE harmless_thenE harmless_onfail harmless_ignore
  harmless_if harmless_seqE spends_zoom harmless_perform harmless_call_void harmless_do_checked

section \<open>The firmware package\<close>

definition one :: "resource \<Rightarrow> resource \<Rightarrow> int" where
  "one k i = (if i = k then 1 else 0)"

lemma fwpkg_read_file_harmless: "harmless (fwpkg_read_file env sz i)"
  by (rule spendsI) (auto simp: fwpkg_read_file_run Let_def after_def split: if_splits)

lemma fwpkg_file_size_harmless: "harmless (fwpkg_file_size env i)"
  by (rule spendsI)
    (auto simp: fwpkg_file_size_run Let_def after_def split: if_splits option.splits)

lemma fwpkg_access_harmless [harmless_rules]:
  "harmless (fwpkg_read_map env sz)" "harmless (fwpkg_read_bitstream env sz)"
  "harmless (fwpkg_map_size env)" "harmless (fwpkg_bitstream_size env)"
  unfolding fwpkg_read_map_def fwpkg_read_bitstream_def fwpkg_map_size_def fwpkg_bitstream_size_def
  by (intro harmless_intros fwpkg_read_file_harmless fwpkg_file_size_harmless)+

lemma fwpkg_init_spends: "spends (one Archive) (\<lambda>_. 0) (fwpkg_init env name)"
  by (rule spendsI)
    (auto simp: fwpkg_init_def fwpkg_init_from_file_def fwpkg_init_from_preload_def one_def after_def
      fwpkg_init_from_buffer_def fwpkg_locate_files_def thenE_def bindE_def
      split: option.splits if_splits)

lemma fwpkg_destroy_spends: "spends (\<lambda>i. - one Archive i) g (fwpkg_destroy env)"
  unfolding fwpkg_destroy_def by (rule spends_release) (simp add: one_def)

text \<open>A buffer that is allocated, used and freed on both paths.\<close>

lemma free_spends: "spends (\<lambda>i. - one Memory i) g (call_void env Free)"
  by (rule spends_release) (simp add: one_def)

lemma buffer_harmless:
  assumes "\<And>r. harmless (fl r)" and "harmless m" and "\<And>g. spends (\<lambda>i. - one Memory i) (\<lambda>i. - one Memory i) k"
  shows "harmless (bindE (perform env (Malloc n)) (\<lambda>r. if r_ret r = 0 then fl r
     else thenE (onfail m (call_void env Free)) k))"
proof (rule spends_acquire [where a = "one Memory" and ?f2.0 = "\<lambda>i. - one Memory i"
      and ?g2.0 = "\<lambda>i. - one Memory i"])
  show "spends (\<lambda>i. - one Memory i) (\<lambda>i. - one Memory i) (thenE (onfail m (call_void env Free)) k)" for r
    by (rule spends_thenE [OF spends_onfail [OF assms(2) free_spends] assms(3)]) simp_all
qed (simp_all add: one_def assms(1))

lemma reg_init_from_fwpkg_harmless [harmless_rules]: "harmless (reg_init_from_fwpkg env iws)"
  unfolding reg_init_from_fwpkg_def Let_def in_fwpkg_def in_reg_def
  by (rule harmless_bindE [OF spends_zoom], rule harmless_rules, rule buffer_harmless)
    (intro harmless_intros harmless_rules free_spends)+

section \<open>Interfaces and bitstream\<close>

lemma interface_spends:
  "spends (one (Context ch)) (\<lambda>_. 0)
     (thenE (do_checked env se (Ftdi_init ch))
        (onfail (do_checked env se (Ftdi_set_interface ch ch)) (call_void env (Ftdi_deinit ch))))"
proof (rule spends_thenE [OF spends_do_checked])
  show "spends (\<lambda>_. 0) (\<lambda>i. - one (Context ch) i)
      (onfail (do_checked env se (Ftdi_set_interface ch ch)) (call_void env (Ftdi_deinit ch)))"
    by (rule spends_onfail [OF harmless_do_checked spends_release [where f = "\<lambda>i. - one (Context ch) i"]])
      (simp_all add: one_def)
qed (simp_all add: one_def)

lemma deinit_spends: "spends (\<lambda>i. - one (Context ch) i) g (call_void env (Ftdi_deinit ch))"
  by (rule spends_release) (simp add: one_def)

lemma cha_init_spends: "spends (one (Context INTERFACE_A)) (\<lambda>_. 0) (cha_init env iws)"
  unfolding cha_init_def
  by (rule spends_thenE [OF harmless_pure(3)], rule spends_thenE [OF _ spends_zoom [OF interface_spends]])
    (auto intro!: harmless_intros harmless_rules)

lemma chb_init_spends: "spends (one (Context INTERFACE_B)) (\<lambda>_. 0) (chb_init env)"
  unfolding chb_init_def by (rule spends_thenE [OF harmless_pure(3) interface_spends]) auto

lemma cha_set_reg_harmless [harmless_rules]: "harmless (cha_set_reg r)"
  unfolding cha_set_reg_def by (intro harmless_intros)

lemma transfer_harmless:
  "harmless (transfer_done env bufs tc)" "harmless (transfer_submit env bs)"
  unfolding transfer_done_def transfer_submit_def by (intro harmless_intros, simp)+

lemma send_chunks_harmless: "harmless (send_chunks env i bufs tc dat)"
proof (induction env i bufs tc dat rule: send_chunks.induct)
  case (1 env i bufs tc dat)
  show ?case
  proof (cases "dat = []")
    case True
    then show ?thesis
      by (subst send_chunks.simps, simp only: if_True) (rule harmless_pure)
  next
    case False
    obtain j buf rest where fill: "fill_buffer 0 (bufs ! i) dat = (j, buf, rest)"
      using prod_cases3 by blast
    have "harmless (send_chunks env ((i + 1) mod 2) (bufs[i := buf]) (Some (i, j)) rest)"
      using 1 [OF False fill [symmetric] refl refl] by simp
    then show ?thesis
      using False fill
      by (subst send_chunks.simps)
        (auto simp: Let_def split: option.split intro!: harmless_intros transfer_harmless)
  qed
qed

lemma wait_done_harmless: "harmless (wait_done env n status)"
proof (induction n arbitrary: status)
  case (Suc n)
  show ?case
    unfolding wait_done.simps
    by (intro harmless_intros Suc reports_harmless [OF chb_get_high_reports]) simp
qed (simp add: harmless_pure)

lemma bit_load_firmware_harmless [harmless_rules]: "harmless (bit_load_firmware env bufs)"
  unfolding bit_load_firmware_def Let_def split_def
  by (intro harmless_intros send_chunks_harmless wait_done_harmless)
    (auto split: option.split intro: harmless_pure transfer_harmless)

lemmas device_harmless = cha_reports [THEN reports_harmless] chb_reports [THEN reports_harmless]

end
