(* ===== verification/Ov_Rules.thy ===== *)
theory Ov_Rules imports
  Ov
  Resources
  Cha_Loop_Rules
begin

text \<open>
  Rules for the operations of \<open>Ov\<close>: parts of a device, and what the operations take and give back.
\<close>

section \<open>Steps of a device\<close>

lemma or_error_run:
  "or_error err se m s = (case m s of
       Some (Inl Failed, s') \<Rightarrow> Some (Inl Failed, s'\<lparr>obj := se (obj s') (err (obj s'))\<rparr>)
     | r \<Rightarrow> r)"
  by (auto simp: or_error_def onfail_def split: option.split sum.split error.split)

lemma or_error_Inr [simp]: "or_error err se m s = Some (Inr x, s') \<longleftrightarrow> m s = Some (Inr x, s')"
  by (auto simp: or_error_run split: option.splits sum.splits error.splits)

lemma onfail_Inr [simp]: "onfail m k s = Some (Inr x, s') \<longleftrightarrow> m s = Some (Inr x, s')"
  by (auto simp: onfail_def split: option.splits sum.splits error.splits)

lemma thenE_Inr: "thenE m k s = Some (Inr y, s') \<longleftrightarrow> (\<exists>x s1. m s = Some (Inr x, s1) \<and> k s1 = Some (Inr y, s'))"
  by (auto simp: thenE_def bindE_Some)

lemma bindE_Inr: "bindE m f s = Some (Inr y, s') \<longleftrightarrow> (\<exists>x s1. m s = Some (Inr x, s1) \<and> f x s1 = Some (Inr y, s'))"
  by (auto simp: bindE_Some)

lemma zoom_Some:
  "zoom g p m s = Some (r, s') \<longleftrightarrow> (\<exists>t. m \<lparr>obj = g (obj s), hist = hist s\<rparr> = Some (r, t) \<and>
     s' = \<lparr>obj = p (obj t) (obj s), hist = hist t\<rparr>)"
  by (auto simp: zoom_def split: option.splits)

text \<open>What the sequence of calls of a part is, is what the sequence of calls of the device is.\<close>

lemma cha_part_Inr:
  "cha_part m s = Some (Inr x, s') \<longleftrightarrow> (\<exists>t. m \<lparr>obj = ov_cha (obj s), hist = hist s\<rparr> = Some (Inr x, t) \<and>
     s' = \<lparr>obj = (obj s)\<lparr>ov_cha := obj t\<rparr>, hist = hist t\<rparr>)"
  by (simp add: cha_part_def in_cha_def zoom_Some)

lemma chb_part_Inr:
  "chb_part m s = Some (Inr x, s') \<longleftrightarrow> (\<exists>t. m \<lparr>obj = ov_chb (obj s), hist = hist s\<rparr> = Some (Inr x, t) \<and>
     s' = \<lparr>obj = (obj s)\<lparr>ov_chb := obj t\<rparr>, hist = hist t\<rparr>)"
  by (simp add: chb_part_def in_chb_def zoom_Some)

section \<open>Resources\<close>

lemma or_error_spends: "spends f g m \<Longrightarrow> spends f g (or_error err se m)"
  unfolding or_error_def by (rule spends_onfail [OF _ harmless_pure(3)]) auto

lemma part_spends:
  "spends f g m \<Longrightarrow> spends f g (in_cha m)" "spends f g k \<Longrightarrow> spends f g (in_chb k)"
  "spends f g q \<Longrightarrow> spends f g (in_package q)" "spends f g m \<Longrightarrow> spends f g (cha_part m)"
  "spends f g k \<Longrightarrow> spends f g (chb_part k)" "spends f g n \<Longrightarrow> spends f g (on_device n)"
  "spends f g q \<Longrightarrow> spends f g (on_package q)" "spends f g l \<Longrightarrow> spends f g (on_loader l)"
  "spends f g q \<Longrightarrow> spends f g (on_new_package q)"
  unfolding in_cha_def in_chb_def in_package_def cha_part_def chb_part_def on_device_def on_package_def
    on_loader_def on_new_package_def
  by (intro spends_zoom or_error_spends; assumption)+

lemma on_bit_harmless: "harmless (on_bit m)"
  by (rule spendsI) (auto simp: on_bit_def split: prod.splits option.splits)

lemma program_fpga_harmless: "harmless (program_fpga env bufs)"
  unfolding program_fpga_def
  by (intro harmless_intros part_spends or_error_spends harmless_rules device_harmless)

lemma read_bitstream_harmless: "harmless (read_bitstream env sz)"
  unfolding read_bitstream_def
  by (intro harmless_intros part_spends or_error_spends harmless_rules on_bit_harmless)

lemma ov_load_firmware_from_fwpkg_harmless [harmless_rules]:
  "harmless (ov_load_firmware_from_fwpkg env bufs)"
  unfolding ov_load_firmware_from_fwpkg_def
proof (rule harmless_bindE [OF part_spends(7)], rule harmless_rules, rule buffer_harmless)
  have fifo: "harmless (onfail (on_device (cha_part (cha_switch_fifo_mode env)))
      (ignore (on_device (in_cha (cha_switch_fifo_mode env)))))" for env
    by (intro harmless_intros part_spends device_harmless)
  show "spends (\<lambda>i. - one Memory i) (\<lambda>i. - one Memory i) (thenE (call_void env Free)
      (onfail (on_device (cha_part (cha_switch_fifo_mode env)))
        (ignore (on_device (in_cha (cha_switch_fifo_mode env))))))"
    by (rule spends_thenE [OF free_spends fifo]) simp_all
qed (intro harmless_intros part_spends program_fpga_harmless read_bitstream_harmless device_harmless)+

text \<open>What a device holds.\<close>

definition device_holds :: "resource \<Rightarrow> int" where
  "device_holds k = one Memory k + one Archive k + one (Context INTERFACE_A) k + one (Context INTERFACE_B) k"

lemma ov_new_spends: "spends device_holds (\<lambda>_. 0) (ov_new env iws n null name)"
  unfolding ov_new_def
proof (rule spends_acquire [where a = "one Memory" and ?f2.0 = "\<lambda>k. device_holds k - one Memory k"
      and ?g2.0 = "\<lambda>k. - one Memory k"])
  let ?chb = "onfail (chb_part (chb_init env)) (in_cha (cha_destroy env)) :: ('a ov_device st, unit) prog"
  let ?cha = "or_error (\<lambda>d. cha_error (ov_cha d)) set_ov_error
    (zoom (\<lambda>d. (ov_cha d, ov_fwpkg d)) (\<lambda>(c, f) d. d\<lparr>ov_cha := c, ov_fwpkg := f\<rparr>) (cha_init env iws))
    :: ('a ov_device st, unit) prog"
  let ?pkg = "or_error (\<lambda>d. fw_error (ov_fwpkg d)) set_ov_error (in_package (fwpkg_init env name))
    :: ('a ov_device st, unit) prog"
  have chb: "spends (one (Context INTERFACE_B)) (\<lambda>k. - one (Context INTERFACE_A) k) ?chb"
    unfolding cha_destroy_def
    by (rule spends_onfail [OF part_spends(5) [OF chb_init_spends] part_spends(1) [OF deinit_spends]]) simp
  have cha: "spends (\<lambda>k. one (Context INTERFACE_A) k + one (Context INTERFACE_B) k) (\<lambda>_. 0) (thenE ?cha ?chb)"
    by (rule spends_thenE [OF or_error_spends [OF spends_zoom [OF cha_init_spends]] chb]) simp_all
  have pkg: "spends (\<lambda>k. device_holds k - one Memory k) (\<lambda>_. 0)
      (thenE ?pkg (onfail (thenE ?cha ?chb) (in_package (fwpkg_destroy env))))"
    by (rule spends_thenE [OF or_error_spends [OF part_spends(3) [OF fwpkg_init_spends]]
          spends_onfail [OF cha part_spends(3) [OF fwpkg_destroy_spends]]])
      (simp add: device_holds_def | linarith)+
  show "spends (\<lambda>k. device_holds k - one Memory k) (\<lambda>k. - one Memory k)
      (thenE (modify_obj (\<lambda>_. ov_zero null))
        (onfail (thenE ?pkg (onfail (thenE ?cha ?chb) (in_package (fwpkg_destroy env)))) (call_void env Free)))"
    by (rule spends_thenE [OF spends_modify spends_onfail [OF pkg free_spends]]) simp_all
qed (simp_all add: one_def device_holds_def spends_throw)

lemma ov_free_run:
  "\<exists>s'. ov_free env s = Some (Inr (), s') \<and> (\<forall>k. held k (hist s') = held k (hist s) - device_holds k)"
  by (simp add: ov_free_def thenE_def bindE_def in_chb_def in_cha_def in_package_def zoom_def chb_destroy_def
      cha_destroy_def fwpkg_destroy_def after_def device_holds_def one_def)

lemma ov_open_harmless [harmless_rules]: "harmless (ov_open env bufs bf)"
  unfolding ov_open_def
  by (rule harmless_seqE) (simp add: part_spends spends_zoom harmless_rules device_harmless)

lemma ov_load_firmware_harmless [harmless_rules]:
  "harmless (ov_load_firmware env iws bufs bf reg fwpkg name)"
  unfolding ov_load_firmware_def
proof (rule spends_zoom, rule spends_thenE [OF or_error_spends [OF part_spends(9) [OF fwpkg_init_spends]]])
  have "harmless (reload env iws bufs bf)" for bf
    unfolding reload_def
    by (rule harmless_seqE)
      (auto intro!: harmless_intros or_error_spends part_spends harmless_rules)
  then show "spends (\<lambda>i. - one Archive i) (\<lambda>i. - one Archive i)
      (thenE (onfail (reload env iws bufs bf) (on_new_package (fwpkg_destroy env)))
        (on_new_package (fwpkg_destroy env)))"
    by (intro spends_thenE [OF spends_onfail [OF _ part_spends(9) [OF fwpkg_destroy_spends]]
          part_spends(9) [OF fwpkg_destroy_spends]]) auto
qed simp_all

lemma ov_speed_harmless [harmless_rules]:
  "harmless (ov_get_usb_speed env)" "harmless (ov_set_usb_speed env speed)"
  unfolding ov_get_usb_speed_def ov_set_usb_speed_def by (intro part_spends device_harmless)+

end
