(* ===== verification/Ov_Spec.thy ===== *)
theory Ov_Spec imports
  Ov_Rules
begin

text \<open>
  Properties of the library's interface: a device gives back all it takes, whether or not it could be
  created, opened, reloaded or set up.
\<close>

unbundle bit_operations_syntax

section \<open>Programs that return\<close>

definition ends :: "('s, 'a) prog \<Rightarrow> bool" where
  "ends m \<longleftrightarrow> (\<forall>s. m s \<noteq> None)"

lemma ends_bindE: "ends m \<Longrightarrow> (\<And>x. ends (f x)) \<Longrightarrow> ends (bindE m f)"
  by (auto simp: ends_def bindE_def split: option.splits sum.splits)

lemma ends_thenE: "ends m \<Longrightarrow> ends k \<Longrightarrow> ends (thenE m k)"
  by (simp add: thenE_def ends_bindE)

lemma ends_onfail:
  assumes "ends m" and "ends k"
  shows "ends (onfail m k)"
  unfolding ends_def
proof
  fix s
  obtain r s1 where "m s = Some (r, s1)"
    using assms(1) unfolding ends_def by (metis option.exhaust surj_pair)
  moreover obtain rk s2 where "k s1 = Some (rk, s2)"
    using assms(2) unfolding ends_def by (metis option.exhaust surj_pair)
  ultimately show "onfail m k s \<noteq> None"
    by (simp add: onfail_def split: sum.split error.split)
qed

lemma ends_zoom: "ends m \<Longrightarrow> ends (zoom g p m)"
  by (auto simp: ends_def zoom_def split: option.splits)

lemma ends_or_error: "ends m \<Longrightarrow> ends (or_error err se m)"
  by (simp add: or_error_def ends_onfail) (simp add: ends_def onfail_def split: option.splits sum.splits error.splits)

lemma ends_calls: "ends (perform env c)" "ends (call_void env c)" "ends (do_checked env se c)" "ends (modify_obj h)"
    "ends (throw e)"
  by (simp_all add: ends_def do_checked_run Let_def)

lemmas ends_intros = ends_bindE ends_thenE ends_onfail ends_zoom ends_or_error ends_calls

lemma fwpkg_init_ends: "ends (fwpkg_init env name)"
  by (auto simp: ends_def fwpkg_init_def fwpkg_init_from_file_def fwpkg_init_from_preload_def
      fwpkg_init_from_buffer_def fwpkg_locate_files_def thenE_def bindE_def split: option.splits)

lemma cha_init_ends: "ends (cha_init env iws)"
proof -
  have "ends (reg_init_from_fwpkg env iws)"
    using reg_init_from_fwpkg_ends [of env iws] unfolding ends_def by (metis option.distinct(1))
  then show ?thesis
    unfolding cha_init_def by (intro ends_intros)
qed

lemma ov_new_ends: "ends (ov_new env iws n null name)"
proof -
  have "ends (chb_init env)"
    unfolding chb_init_def by (intro ends_intros)
  then show ?thesis
    unfolding ov_new_def in_package_def in_cha_def chb_part_def in_chb_def cha_destroy_def fwpkg_destroy_def
    by (intro ends_intros fwpkg_init_ends cha_init_ends, simp)
      (intro conjI impI ends_intros fwpkg_init_ends cha_init_ends)
qed

section \<open>Using a device\<close>

text \<open>A function that came back to its caller, with success or with -1.\<close>

definition returned :: "error + 'a \<Rightarrow> bool" where
  "returned r = (case r of Inl e \<Rightarrow> e = Failed | Inr _ \<Rightarrow> True)"

text \<open>A client between \<open>ov_new\<close> and \<open>ov_free\<close>, not capturing.\<close>

inductive configures ::
    "env \<Rightarrow> (string \<Rightarrow> reg_name option) \<Rightarrow> 'u ov_device st \<Rightarrow> 'u ov_device st \<Rightarrow> bool" for env iws where
  nothing: "configures env iws s s"
| open_device: "configures env iws s s1 \<Longrightarrow> ov_open env bufs bf s1 = Some (r, s2) \<Longrightarrow> returned r \<Longrightarrow>
    configures env iws s s2"
| load_firmware: "configures env iws s s1 \<Longrightarrow> ov_load_firmware env iws bufs bf reg fwpkg name s1 = Some (r, s2) \<Longrightarrow>
    returned r \<Longrightarrow> configures env iws s s2"
| get_speed: "configures env iws s s1 \<Longrightarrow> ov_get_usb_speed env s1 = Some (q, s2) \<Longrightarrow> returned q \<Longrightarrow>
    configures env iws s s2"
| set_speed: "configures env iws s s1 \<Longrightarrow> ov_set_usb_speed env speed s1 = Some (r, s2) \<Longrightarrow> returned r \<Longrightarrow>
    configures env iws s s2"

lemma returned_held:
  "harmless m \<Longrightarrow> m s = Some (r, s') \<Longrightarrow> returned r \<Longrightarrow> held k (hist s') = held k (hist s)"
  by (cases r) (auto simp: returned_def dest: spendsD)

lemmas api_held = returned_held [OF ov_open_harmless] returned_held [OF ov_load_firmware_harmless]
  returned_held [OF ov_speed_harmless(1)] returned_held [OF ov_speed_harmless(2)]

lemma configures_held: "configures env iws s s' \<Longrightarrow> held k (hist s') = held k (hist s)"
  by (induction rule: configures.induct) (simp_all add: api_held)

section \<open>Properties\<close>


text \<open>
  The archive of the test map, on a machine without the device: creating the device succeeds, opening
  it fails.
\<close>

definition no_device_env :: env where
  "no_device_env = (package_env (text_bytes (print_map test_map)))
     \<lparr>respond := \<lambda>h c. (case c of
          Ftdi_usb_open ch v p \<Rightarrow> \<lparr>r_ret = -1, r_bytes = [], r_size = None\<rparr>
        | _ \<Rightarrow> respond (package_env (text_bytes (print_map test_map))) h c)\<rparr>"

definition no_state :: "nat ov_device st" where
  "no_state = \<lparr>obj = ov_zero 0, hist = []\<rparr>"

definition succeeds :: "('s, 'a) prog \<Rightarrow> bool" where
  "succeeds m \<longleftrightarrow> (\<forall>s. \<exists>x s'. m s = Some (Inr x, s'))"

lemma succeeds_thenE: "succeeds m \<Longrightarrow> succeeds k \<Longrightarrow> succeeds (thenE m k)"
  unfolding succeeds_def thenE_def bindE_def by (metis (no_types, lifting) option.case(2) prod.case sum.case(2))

lemma succeeds_onfail: "succeeds m \<Longrightarrow> succeeds (onfail m k)"
  unfolding succeeds_def onfail_def by (metis (no_types, lifting) option.case(2) prod.case sum.case(2))

lemma succeeds_zoom: "succeeds m \<Longrightarrow> succeeds (zoom g p m)"
  unfolding succeeds_def zoom_Some by blast

lemma succeeds_modify: "succeeds (modify_obj h)"
  by (simp add: succeeds_def)

lemma succeeds_do_checked: "(\<And>h. 0 \<le> r_ret (respond env h c)) \<Longrightarrow> succeeds (do_checked env se c)"
  by (simp add: succeeds_def do_checked_run Let_def not_less)

lemmas succeeds_intros = succeeds_thenE succeeds_onfail succeeds_zoom succeeds_modify succeeds_do_checked

lemma no_device_new:
  "\<exists>s1. ov_new no_device_env (map_of reg_gperf) 1000 null filename s = Some (Inr (), s1)"
proof -
  have "\<exists>r'. reg_init_from_fwpkg no_device_env (map_of reg_gperf) s = Some (Inr (), r')" for s
  proof -
    have "delivers_file no_device_env (map_index (snd (obj s))) (text_bytes (print_map test_map))"
      by (simp add: delivers_file_def package_env_def no_device_env_def)
    then show ?thesis
      using reg_init_from_fwpkg_loads [of no_device_env s test_map "map_of reg_gperf"] test_map_ok by auto
  qed
  then have "succeeds (reg_init_from_fwpkg no_device_env (map_of reg_gperf))"
    by (auto simp: succeeds_def)
  then have cha: "succeeds (cha_init no_device_env (map_of reg_gperf))"
    unfolding cha_init_def
    by (intro succeeds_intros) (simp_all add: no_device_env_def package_env_def)
  have chb: "succeeds (chb_init no_device_env)"
    unfolding chb_init_def
    by (intro succeeds_intros) (simp_all add: no_device_env_def package_env_def)
  have pkg: "succeeds (fwpkg_init no_device_env filename)"
    by (cases filename) (simp_all add: succeeds_def fwpkg_init_def fwpkg_init_from_file_def fwpkg_init_from_preload_def
        fwpkg_init_from_buffer_def fwpkg_locate_files_def thenE_def bindE_def no_device_env_def package_env_def)
  have "0 \<noteq> r_ret (respond no_device_env (hist s) (Malloc 1000))"
    by (simp add: no_device_env_def package_env_def)
  moreover have "succeeds (thenE (modify_obj (\<lambda>_. ov_zero null))
      (onfail
        (thenE (or_error (\<lambda>d. fw_error (ov_fwpkg d)) set_ov_error
            (in_package (fwpkg_init no_device_env filename)))
          (onfail
            (thenE
              (or_error (\<lambda>d. cha_error (ov_cha d)) set_ov_error
                (zoom (\<lambda>d. (ov_cha d, ov_fwpkg d)) (\<lambda>(c, f) d. d\<lparr>ov_cha := c, ov_fwpkg := f\<rparr>)
                  (cha_init no_device_env (map_of reg_gperf))))
              (onfail (chb_part (chb_init no_device_env)) (in_cha (cha_destroy no_device_env))))
            (in_package (fwpkg_destroy no_device_env))))
        (call_void no_device_env Free)))"
    unfolding chb_part_def in_chb_def in_package_def or_error_def
    by (intro succeeds_intros cha chb pkg)
  ultimately show ?thesis
    unfolding ov_new_def succeeds_def by (simp add: bindE_def)
qed


end
