(* ===== verification/Ov_Firmware.thy ===== *)
theory Ov_Firmware imports
  Ov_Spec
  Cha_Spec
begin

text \<open>
  From the firmware package to the FPGA: what a device has seen when \<open>ov_open\<close> succeeds.
\<close>

unbundle bit_operations_syntax

section \<open>Parts of the history\<close>

lemma talks_transfers:
  assumes "talks h h'"
  shows "\<exists>es. h' = h @ es \<and> transfers es = []"
proof -
  have "transfers es = []" if "list_all (\<lambda>e. device_io (fst e)) es" for es
    using that
  proof (induction es)
    case (Cons e es)
    then have "\<not> is_transfer (fst e)"
      by (cases "fst e") (simp_all add: is_transfer_def)
    then show ?case
      using Cons by (simp add: transfers_def)
  qed simp
  then show ?thesis
    using assms by (auto simp: talks_def)
qed

lemma reported_transfers: "reported err s s' \<Longrightarrow> \<exists>es. hist s' = hist s @ es \<and> transfers es = []"
  by (simp add: reported_def talks_transfers)

lemma keeps_transfers:
  "reporting.keeps err m \<Longrightarrow> m s = Some (r, s') \<Longrightarrow> \<exists>es. hist s' = hist s @ es \<and> transfers es = []"
  using reporting.keepsD(1) reported_transfers by blast

lemma part_transfers:
  assumes "reporting.keeps err m" and "m \<lparr>obj = x, hist = hist t\<rparr> = Some (r, u)"
  shows "\<exists>es. hist u = hist t @ es \<and> transfers es = []"
  using keeps_transfers [OF assms] by simp

lemma cha_part_transfers:
  "cha_part m t = Some (Inr x, t') \<Longrightarrow> reporting.keeps cha_error m \<Longrightarrow>
   \<exists>es. hist t' = hist t @ es \<and> transfers es = []"
  by (auto simp: cha_part_Inr intro: part_transfers)

lemma chb_part_transfers:
  "chb_part m t = Some (Inr x, t') \<Longrightarrow> reporting.keeps chb_error m \<Longrightarrow>
   \<exists>es. hist t' = hist t @ es \<and> transfers es = []"
  by (auto simp: chb_part_Inr intro: part_transfers)

lemma switch_mode_seen:
  assumes "cha_switch_mode env mode s = Some (Inr (), s')"
  shows "\<exists>es. hist s' = hist s @ es \<and> transfers es = [] \<and> Ftdi_set_bitmode INTERFACE_A 0xFF mode \<in> fst ` set es"
proof -
  obtain cs where cs: "cs = [Ftdi_set_bitmode INTERFACE_A 0 BITMODE_RESET,
      Ftdi_set_bitmode INTERFACE_A 0xFF mode, Ftdi_set_baudrate INTERFACE_A 315000, Ftdi_tcioflush INTERFACE_A]"
    by simp
  have "seqE (map (do_checked env set_cha_error) cs) s = Some (Inr (), s')"
    using assms by (simp add: cha_switch_mode_def cs)
  then have "script env cs (hist s) = (True, hist s')"
    unfolding seqE_script by (auto split: prod.splits bool.splits)
  then obtain es where es: "hist s' = hist s @ es" "map fst es = cs"
    using script_prefix by fastforce
  then have "fst ` set es = set cs"
    using image_set [of fst es] by simp
  then show ?thesis
    using es by (intro exI [of _ es]) (simp add: transfers_def is_transfer_def cs)
qed

lemma config_mode_seen:
  "cha_switch_config_mode env s = Some (Inr (), s') \<Longrightarrow>
   \<exists>es. hist s' = hist s @ es \<and> transfers es = [] \<and>
     Ftdi_set_bitmode INTERFACE_A 0xFF BITMODE_BITBANG \<in> fst ` set es"
  unfolding cha_switch_config_mode_def by (rule switch_mode_seen)

lemma fifo_mode_seen:
  assumes "cha_switch_fifo_mode env s = Some (Inr (), s')"
  shows "\<exists>es. hist s' = hist s @ es \<and> transfers es = [] \<and>
    Ftdi_set_bitmode INTERFACE_A 0xFF BITMODE_SYNCFF \<in> fst ` set es"
proof -
  let ?m = "thenE (do_checked env set_cha_error (Ftdi_write_data INTERFACE_A (replicate 512 0)))
     (bindE (gets_obj (\<lambda>c. addr (cha_reg c) SDRAM_HOST_READ_GO)) (\<lambda>a. cha_sync_stream env (0x8000 OR a)))"
  obtain s1 where s1: "cha_switch_mode env BITMODE_SYNCFF s = Some (Inr (), s1)" "?m s1 = Some (Inr (), s')"
    using assms by (auto simp: cha_switch_fifo_mode_def thenE_def bindE_Some)
  have "reporting.keeps cha_error ?m"
    by (intro cha_rules cha_reports gets_obj_reports)
  then obtain es2 where "hist s' = hist s1 @ es2" "transfers es2 = []"
    using keeps_transfers [where m = ?m] s1(2) by blast
  moreover obtain es1 where "hist s1 = hist s @ es1" "transfers es1 = []"
      "Ftdi_set_bitmode INTERFACE_A 0xFF BITMODE_SYNCFF \<in> fst ` set es1"
    using switch_mode_seen [OF s1(1)] by blast
  ultimately show ?thesis
    by (intro exI [of _ "es1 @ es2"]) auto
qed

lemma program_mode_seen:
  assumes "chb_switch_program_mode env s = Some (Inr (), s')"
  shows "\<exists>es. hist s' = hist s @ es \<and> transfers es = [] \<and> prefix (program_pulse env) (map fst es)"
proof -
  obtain r1 s1 es1 where p: "seqE (program_steps env) s = Some (r1, s1)" "hist s1 = hist s @ es1"
      "r1 = Inr () \<Longrightarrow> map fst es1 = program_pulse env" "\<And>e. r1 = Inl e \<Longrightarrow> e = Failed"
    using seqE_makes [OF program_steps_make, of env s] by blast
  obtain k where k: "k = bindE (chb_wait_program env 3 0) (\<lambda>(try, status).
        if try = 0 \<and> status AND PORTB_DONE_BIT \<noteq> 0
        then fail_str set_chb_error ''done bit stuck high after going into programming mode''
        else ret ())"
    by simp
  have "thenE (seqE (program_steps env)) k s = Some (Inr (), s')"
    using assms by (simp only: chb_switch_program_mode_def program_steps_def k)
  then have r1: "r1 = Inr ()" and ks: "k s1 = Some (Inr (), s')"
    using p(1) by (auto simp: thenE_def bindE_Some)
  have "reporting.keeps chb_error k"
    unfolding k by (intro chb_rules chb_reports) (auto intro!: chb_rules split: prod.split)
  then obtain es2 where "hist s' = hist s1 @ es2" "transfers es2 = []"
    using keeps_transfers ks by blast
  moreover have "transfers es1 = []"
    using p(3) [OF r1] by (simp add: transfers_def program_pulse_def is_transfer_def)
  ultimately show ?thesis
    using p(2,3) r1 by (intro exI [of _ "es1 @ es2"]) auto
qed

section \<open>Programming the FPGA\<close>

text \<open>
  What the device and libzip have seen between two points: a file in the bitstream format was read out
  of the archive; the chip was put into configuration mode and the FPGA reset; all of the file's data
  was transferred with the bits reversed, in order, and the last answer showed the DONE bit (or no
  clock cycle could be written); then the chip was put into FIFO mode.
\<close>

definition fpga_programmed :: "env \<Rightarrow> history \<Rightarrow> history \<Rightarrow> bool" where
  "fpga_programmed env h h' \<longleftrightarrow> (\<exists>pre load post n rep a b c d len payload.
     h' = h @ pre @ load @ post \<and> transfers pre = [] \<and> transfers post = [] \<and>
     (Zip_fread n, rep) \<in> set pre \<and> take n (r_bytes rep) = bit_encode a b c d len payload \<and> payload \<noteq> [] \<and>
     Ftdi_set_bitmode INTERFACE_A 0xFF BITMODE_BITBANG \<in> fst ` set pre \<and>
     sublist (program_pulse env) (map fst pre) \<and>
     transfers load = transfer_plan payload \<and> (reads_done load \<or> writes_nothing load) \<and>
     Ftdi_set_bitmode INTERFACE_A 0xFF BITMODE_SYNCFF \<in> fst ` set post)"

lemma fpga_programmedI:
  assumes "h' = h @ pre @ load @ post" and "transfers pre = []" and "transfers post = []"
    and "(Zip_fread n, rep) \<in> set pre" and "take n (r_bytes rep) = bit_encode a b c d len payload"
    and "payload \<noteq> []" and "Ftdi_set_bitmode INTERFACE_A 0xFF BITMODE_BITBANG \<in> fst ` set pre"
    and "sublist (program_pulse env) (map fst pre)" and "transfers load = transfer_plan payload"
    and "reads_done load \<or> writes_nothing load"
    and "Ftdi_set_bitmode INTERFACE_A 0xFF BITMODE_SYNCFF \<in> fst ` set post"
  shows "fpga_programmed env h h'"
  unfolding fpga_programmed_def
  by (rule exI [of _ pre], rule exI [of _ load], rule exI [of _ post], rule exI [of _ n], rule exI [of _ rep],
      rule exI [of _ a], rule exI [of _ b], rule exI [of _ c], rule exI [of _ d], rule exI [of _ len],
      rule exI [of _ payload]) (intro conjI assms)

lemma fpga_programmed_extend:
  assumes "fpga_programmed env h1 h2" and "h1 = h @ es" and "transfers es = []" and "h3 = h2 @ fs"
    and "transfers fs = []"
  shows "fpga_programmed env h h3"
proof -
  obtain pre load post n rep a b c d len payload where p: "h2 = h1 @ pre @ load @ post"
      "transfers pre = []" "transfers post = []"
      "(Zip_fread n, rep) \<in> set pre" "take n (r_bytes rep) = bit_encode a b c d len payload" "payload \<noteq> []"
      "Ftdi_set_bitmode INTERFACE_A 0xFF BITMODE_BITBANG \<in> fst ` set pre"
      "sublist (program_pulse env) (map fst pre)"
      "transfers load = transfer_plan payload" "reads_done load \<or> writes_nothing load"
      "Ftdi_set_bitmode INTERFACE_A 0xFF BITMODE_SYNCFF \<in> fst ` set post"
    using assms(1) unfolding fpga_programmed_def by (elim exE conjE) (rule that)
  have pulse: "sublist (program_pulse env) (map fst (es @ pre))"
    using p(8) unfolding sublist_def by (metis append.assoc map_append)
  show ?thesis
  proof (rule fpga_programmedI [OF _ _ _ _ p(5,6) _ pulse p(9,10)])
    show "h3 = h @ (es @ pre) @ load @ (post @ fs)"
      by (simp only: assms(2,4) p(1) append_assoc)
    show "transfers (es @ pre) = []" "transfers (post @ fs) = []"
      using p(2,3) assms(3,5) by simp_all
    show "(Zip_fread n, rep) \<in> set (es @ pre)"
      using p(4) by simp
    show "Ftdi_set_bitmode INTERFACE_A 0xFF BITMODE_BITBANG \<in> fst ` set (es @ pre)"
      using p(7) by (simp add: image_Un)
    show "Ftdi_set_bitmode INTERFACE_A 0xFF BITMODE_SYNCFF \<in> fst ` set (post @ fs)"
      using p(11) by (simp add: image_Un)
  qed
qed

text \<open>The file that is read, and what \<open>bit_init\<close> makes of it.\<close>

lemma read_bitstream_seen:
  assumes "read_bitstream env sz s = Some (Inr (), s')" and "obj s = (dev, f, bf)"
  shows "\<exists>es rep a b c d len payload bf'. hist s' = hist s @ es \<and> transfers es = [] \<and>
    (Zip_fread sz, rep) \<in> set es \<and> take sz (r_bytes rep) = bit_encode a b c d len payload \<and>
    obj s' = (dev, f, bf') \<and> wf_bit bf' \<and> unread bf' = payload"
proof -
  obtain bs s1 where s1: "on_package (fwpkg_read_bitstream env sz) s = Some (Inr bs, s1)"
      "on_bit (bit_init bs (length bs)) s1 = Some (Inr (), s')"
    using assms(1) by (auto simp: read_bitstream_def bindE_Inr)
  obtain es rep where es: "hist s1 = hist s @ es" "transfers es = []" "(Zip_fread sz, rep) \<in> set es"
      "bs = take sz (r_bytes rep)" "obj s1 = (dev, f, bf)"
    using s1(1) assms(2)
    by (auto simp: on_package_def zoom_Some fwpkg_read_bitstream_def bindE_def fwpkg_read_file_run Let_def after_def
        transfers_def is_transfer_def split: if_splits)
  obtain bf' where bf': "bit_init bs (length bs) bf = Some (Inr (), bf')" "obj s' = (dev, f, bf')" "hist s' = hist s1"
    using s1(2) es(5) by (auto simp: on_bit_def split: option.splits)
  obtain a b c d len payload where "bs = bit_encode a b c d len payload" "bf' = parsed bf a b c d len payload"
    using bit_init_cases [of bs bf] bf'(1) by auto
  then show ?thesis
    using es bf' parsed_unread [of bf a b c d len payload] parsed_wf [of bf a b c d len payload]
    by (intro exI [of _ es] exI [of _ rep] exI [of _ a] exI [of _ b] exI [of _ c] exI [of _ d] exI [of _ len]
        exI [of _ payload] exI [of _ bf']) simp
qed

text \<open>An empty payload is not a success.\<close>

lemma bit_load_firmware_nonempty:
  assumes "bit_load_firmware env bufs s = Some (Inr (), s')"
  shows "bit_size (fst (obj s)) \<noteq> 0"
proof
  assume "bit_size (fst (obj s)) = 0"
  then have "bit_load_firmware env bufs s = Some (Inl (Null_pointer ''tc''), s)"
    by (simp add: bit_load_firmware_def send_chunks.simps thenE_def bindE_def)
  then show False
    using assms by simp
qed

lemma firmware_loaded:
  assumes "ov_load_firmware_from_fwpkg env bufs s = Some (Inr (), s')"
    and "length bufs = 2" and "list_all (\<lambda>b. length b = chunk) bufs"
  shows "fpga_programmed env (hist s) (hist s')"
proof -
  obtain sz s1 m s2 s3 s4 s5 s6 s7 s8 where
      size: "on_package (fwpkg_bitstream_size env) s = Some (Inr sz, s1)"
    and malloc: "s2 = s1\<lparr>hist := hist s1 @ [(Malloc sz, m)]\<rparr>"
    and read: "read_bitstream env sz s2 = Some (Inr (), s3)"
    and config: "on_device (cha_part (cha_switch_config_mode env)) s3 = Some (Inr (), s4)"
    and reset: "on_device (chb_part (chb_switch_program_mode env)) s4 = Some (Inr (), s5)"
    and load: "on_loader (bit_load_firmware env bufs) s5 = Some (Inr (), s6)"
    and free: "call_void env Free s6 = Some (Inr (), s7)"
    and fifo: "on_device (cha_part (cha_switch_fifo_mode env)) s7 = Some (Inr (), s')"
    using assms(1)
    by (auto simp: ov_load_firmware_from_fwpkg_def program_fpga_def bindE_Inr thenE_Inr split: if_splits)
  obtain dev f bf where s: "obj s = (dev, f, bf)"
    by (cases "obj s")
  obtain es1 f1 where s1: "hist s1 = hist s @ es1" "transfers es1 = []" "obj s1 = (dev, f1, bf)"
    using size s
    by (auto simp: on_package_def zoom_Some fwpkg_bitstream_size_def bindE_def fwpkg_file_size_run Let_def after_def
        transfers_def is_transfer_def split: if_splits option.splits)
  have s2: "hist s2 = hist s @ es1 @ [(Malloc sz, m)]" "obj s2 = (dev, f1, bf)"
    using malloc s1 by simp_all
  obtain es3 rep a b c d len payload bf' where es3: "hist s3 = hist s2 @ es3" "transfers es3 = []"
      "(Zip_fread sz, rep) \<in> set es3" "take sz (r_bytes rep) = bit_encode a b c d len payload"
    and s3: "obj s3 = (dev, f1, bf')" "wf_bit bf'" "unread bf' = payload"
    using read_bitstream_seen [OF read s2(2)] by blast
  obtain dev4 es4 where s4: "hist s4 = hist s3 @ es4" "transfers es4 = []" "obj s4 = (dev4, f1, bf')"
      "Ftdi_set_bitmode INTERFACE_A 0xFF BITMODE_BITBANG \<in> fst ` set es4"
  proof -
    obtain t where "cha_switch_config_mode env \<lparr>obj = ov_cha dev, hist = hist s3\<rparr> = Some (Inr (), t)"
        "hist s4 = hist t" "obj s4 = (dev\<lparr>ov_cha := obj t\<rparr>, f1, bf')"
      using config s3(1) by (auto simp: on_device_def zoom_Some cha_part_Inr)
    then show ?thesis
      using config_mode_seen [of env "\<lparr>obj = ov_cha dev, hist = hist s3\<rparr>" t] that by auto
  qed
  obtain dev5 es5 where s5: "hist s5 = hist s4 @ es5" "transfers es5 = []" "obj s5 = (dev5, f1, bf')"
      "prefix (program_pulse env) (map fst es5)"
  proof -
    obtain t where "chb_switch_program_mode env \<lparr>obj = ov_chb dev4, hist = hist s4\<rparr> = Some (Inr (), t)"
        "hist s5 = hist t" "obj s5 = (dev4\<lparr>ov_chb := obj t\<rparr>, f1, bf')"
      using reset s4(3) by (auto simp: on_device_def zoom_Some chb_part_Inr)
    then show ?thesis
      using program_mode_seen [of env "\<lparr>obj = ov_chb dev4, hist = hist s4\<rparr>" t] that by auto
  qed
  obtain t where t: "bit_load_firmware env bufs \<lparr>obj = (bf', ov_chb dev5), hist = hist s5\<rparr> = Some (Inr (), t)"
      "hist s6 = hist t"
    using load s5(3) by (auto simp: on_loader_def zoom_Some)
  have size: "bit_size bf' \<noteq> 0"
    using bit_load_firmware_nonempty [OF t(1)] by simp
  then have nonempty: "payload \<noteq> []"
    using s3(2,3) by (auto simp: wf_bit_def)
  obtain es6 where s6: "hist s6 = hist s5 @ es6" "transfers es6 = transfer_plan payload"
      "reads_done es6 \<or> writes_nothing es6"
    using bit_load_firmware_run [of "\<lparr>obj = (bf', ov_chb dev5), hist = hist s5\<rparr>" bufs env] t s3(2,3) size assms(2,3)
    by auto
  obtain r where s7: "hist s7 = hist s6 @ [(Free, r)]"
    using free by auto
  obtain es8 where s8: "hist s' = hist s7 @ es8" "transfers es8 = []"
      "Ftdi_set_bitmode INTERFACE_A 0xFF BITMODE_SYNCFF \<in> fst ` set es8"
  proof -
    obtain t x where "cha_switch_fifo_mode env \<lparr>obj = x, hist = hist s7\<rparr> = Some (Inr (), t)" "hist s' = hist t"
      using fifo by (auto simp: on_device_def zoom_Some cha_part_Inr)
    then show ?thesis
      using fifo_mode_seen [of env "\<lparr>obj = x, hist = hist s7\<rparr>" t] that by auto
  qed
  let ?pre = "es1 @ [(Malloc sz, m)] @ es3 @ es4 @ es5"
  have pulse: "sublist (program_pulse env) (map fst ?pre)"
    using s5(4) unfolding sublist_def prefix_def by (metis append.assoc map_append)
  show ?thesis
  proof (rule fpga_programmedI [OF _ _ _ _ es3(4) nonempty _ pulse s6(2,3)])
    show "hist s' = hist s @ ?pre @ es6 @ ((Free, r) # es8)"
      by (simp only: s8(1) s7 s6(1) s5(1) s4(1) es3(1) s2(1) append_assoc append.simps)
    show "transfers ?pre = []" "transfers ((Free, r) # es8) = []"
      using s1(2) es3(2) s4(2) s5(2) s8(2) by (simp_all add: transfers_def is_transfer_def)
    show "(Zip_fread sz, rep) \<in> set ?pre"
      using es3(3) by simp
    show "Ftdi_set_bitmode INTERFACE_A 0xFF BITMODE_BITBANG \<in> fst ` set ?pre"
      using s4(4) by (simp add: image_Un)
    show "Ftdi_set_bitmode INTERFACE_A 0xFF BITMODE_SYNCFF \<in> fst ` set ((Free, r) # es8)"
      using s8(3) by simp
  qed
qed

section \<open>Properties\<close>


text \<open>
  A device that echoes every register message, with an archive that holds the register map as its member 7
  and a bitstream of two bytes as member 1; its DONE pin goes high when a transfer has been submitted.
\<close>

fun last_frame :: "history \<Rightarrow> u8 list" where
  "last_frame [] = []"
| "last_frame ((Ftdi_write_data INTERFACE_A bs, r) # h) = (if length bs = 5 then bs else last_frame h)"
| "last_frame (e # h) = last_frame h"

definition fpga_file :: "u8 list" where
  "fpga_file = bit_encode [] [] [] [] 2 [0x80, 0x01]"

definition fpga_map :: "u8 list" where
  "fpga_map = text_bytes (print_map test_map)"

definition opened :: "history \<Rightarrow> u64" where
  "opened h = (if h = [] then 0 else case fst (last h) of Zip_fopen_index i \<Rightarrow> i | _ \<Rightarrow> 0)"

lemma opened_after [simp]: "opened (after env (Zip_fopen_index i) h) = i"
  by (simp add: opened_def after_def)

definition fpga_env :: env where
  "fpga_env = \<lparr>respond = \<lambda>h c. (case c of
         Zip_name_locate n \<Rightarrow> \<lparr>r_ret = (if n = ''map.txt'' then 7 else 1), r_bytes = [], r_size = None\<rparr>
       | Zip_stat_index i \<Rightarrow> \<lparr>r_ret = 0, r_bytes = [], r_size = Some (if i = 7 then of_nat (length fpga_map) else 32)\<rparr>
       | Zip_fread n \<Rightarrow>
           (let bs = (if opened h = 7 then fpga_map else fpga_file)
            in \<lparr>r_ret = int (length bs), r_bytes = bs, r_size = None\<rparr>)
       | Ftdi_read_data ch n \<Rightarrow>
           \<lparr>r_ret = 1, r_bytes = (if ch = INTERFACE_A then last_frame (rev h)
              else [if transfers h = [] then 0 else 4]), r_size = None\<rparr>
       | _ \<Rightarrow> \<lparr>r_ret = 1, r_bytes = [], r_size = None\<rparr>),
     errtext = \<lambda>h. [], opcode = \<lambda>_. 0, out_packet_size = 512\<rparr>"

lemma fpga_answers [simp]:
  "r_ret (respond fpga_env h c) = (case c of
       Zip_name_locate n \<Rightarrow> if n = ''map.txt'' then 7 else 1
     | Zip_stat_index i \<Rightarrow> 0
     | Zip_fread n \<Rightarrow> int (length (if opened h = 7 then fpga_map else fpga_file))
     | _ \<Rightarrow> 1)"
  "r_size (respond fpga_env h (Zip_stat_index i)) = Some (if i = 7 then of_nat (length fpga_map) else 32)"
  "r_bytes (respond fpga_env h (Zip_fread n)) = (if opened h = 7 then fpga_map else fpga_file)"
  "r_bytes (respond fpga_env h (Ftdi_read_data INTERFACE_A n)) = last_frame (rev h)"
  "r_bytes (respond fpga_env h (Ftdi_read_data INTERFACE_B n)) = [if transfers h = [] then 0 else 4]"
  by (simp_all add: fpga_env_def Let_def split: call.split)

lemma fpga_exchange: "\<exists>h'. exchange fpga_env h (reg_frame a v) (reg_frame a v) h'"
proof -
  have "answered fpga_env 0 (after fpga_env (sends_msg (reg_frame a v)) h) (reg_frame a v)
      (after fpga_env reads_msg (after fpga_env (sends_msg (reg_frame a v)) h))"
    by (simp add: after_def reg_frame_simps)
  moreover have "0 \<le> r_ret (respond fpga_env h (sends_msg (reg_frame a v)))"
    by simp
  ultimately show ?thesis
    unfolding exchange_def by blast
qed

lemma fpga_write: "succeeds (cha_write_reg fpga_env a v)"
proof -
  have "\<exists>s'. cha_transaction fpga_env a v s = Some (Inr v, s')" for a s
    using fpga_exchange [of "hist s" a v] cha_transaction_exchange [of fpga_env s a v v] by blast
  then show ?thesis
    unfolding succeeds_def cha_write_reg_def bindE_Inr by (meson ret_run)
qed

lemma fpga_write_reg: "succeeds (cha_write_reg_by_name fpga_env name v)"
  using fpga_write by (simp add: succeeds_def cha_write_reg_by_name_def at_reg_def bindE_def)

lemma fpga_switch_mode: "succeeds (cha_switch_mode fpga_env mode)"
  by (simp add: succeeds_def cha_switch_mode_def thenE_def bindE_def do_checked_run Let_def)

lemma fpga_sync:
  assumes "last_frame (rev (hist s)) = reg_frame a 0"
  shows "\<exists>s'. sync_loop fpga_env (reg_frame a 0) 0 s = Some (Inr (), s')"
  using assms sync_scan_frame(1) [of "reg_frame a 0"]
  by (subst sync_loop.simps) (simp add: read_data_run Let_def reg_frame_simps)

lemma fpga_fifo: "succeeds (cha_switch_fifo_mode fpga_env)"
proof -
  have "\<exists>s'. cha_sync_stream fpga_env a s = Some (Inr (), s')" for a s
  proof -
    let ?s1 = "s\<lparr>hist := after fpga_env (Ftdi_write_data INTERFACE_A (reg_frame a 0))
        (after fpga_env (Ftdi_tcioflush INTERFACE_A) (hist s))\<rparr>"
    obtain s2 where "sync_loop fpga_env (reg_frame a 0) 0 ?s1 = Some (Inr (), s2)"
      using fpga_sync [of ?s1 a] by (auto simp: after_def reg_frame_simps)
    then show ?thesis
      by (simp add: cha_sync_stream_def thenE_def bindE_def do_checked_run Let_def)
  qed
  then have "succeeds (bindE (gets_obj (\<lambda>c. addr (cha_reg c) SDRAM_HOST_READ_GO))
      (\<lambda>a. cha_sync_stream fpga_env (0x8000 OR a)))"
    by (simp add: succeeds_def bindE_def)
  moreover have "succeeds (do_checked fpga_env set_cha_error (Ftdi_write_data INTERFACE_A (replicate 512 0)))"
    by (rule succeeds_do_checked) simp
  ultimately show ?thesis
    unfolding cha_switch_fifo_mode_def by (intro succeeds_thenE fpga_switch_mode)
qed

lemma fpga_stop: "succeeds (cha_stop_stream fpga_env)"
proof -
  have "succeeds (ret ())"
    by (simp add: succeeds_def)
  then show ?thesis
    unfolding cha_stop_stream_def seqE.simps by (intro succeeds_thenE fpga_write_reg)
qed

lemma fpga_open: "succeeds (cha_open fpga_env)" "succeeds (chb_open fpga_env)"
proof -
  show "succeeds (cha_open fpga_env)"
    unfolding cha_open_def cha_switch_config_mode_def by (intro succeeds_intros fpga_switch_mode) simp_all
  show "succeeds (chb_open fpga_env)"
    by (simp add: succeeds_def chb_open_def chb_tck_divisor_def chb_set_low_def chb_set_def thenE_def bindE_def
        onfail_def do_checked_run Let_def)
qed

lemma fpga_reset:
  assumes "transfers (hist s) = []"
  shows "\<exists>s'. chb_switch_program_mode fpga_env s = Some (Inr (), s')"
  using assms
  by (simp add: chb_switch_program_mode_def thenE_def bindE_def chb_set_high_def chb_set_def do_checked_run Let_def
      msleep_def after_def numeral_3_eq_3 chb_get_high_def chb_get_def read_data_run transfers_def is_transfer_def)

lemma fpga_wait:
  assumes "transfers (hist s) \<noteq> []"
  shows "\<exists>s'. wait_done fpga_env 3 0 s = Some (Inr (3, 4), s')"
  using assms
  by (simp add: numeral_3_eq_3 bindE_def thenE_def zoom_def chb_get_high_def chb_get_def do_checked_run read_data_run
      Let_def after_def transfers_def is_transfer_def PORTB_DONE_BIT_def)

lemma fpga_fill: "fill_buffer 0 buf [x, y] = (2, buf[0 := bitreverse8 x, 1 := bitreverse8 y], [])"
  by (subst fill_buffer.simps, subst fill_buffer.simps, subst fill_buffer.simps)
    (simp add: chunk_def numeral_2_eq_2)

lemma fpga_load:
  assumes "unread b = [x, y]" and "bit_size b = 2"
  shows "\<exists>s'. bit_load_firmware fpga_env bufs \<lparr>obj = (b, c), hist = h\<rparr> = Some (Inr (), s')"
proof -
  obtain buf where buf: "fill_buffer 0 (bufs ! 0) [x, y] = (2, buf, [])"
    using fpga_fill by blast
  have last: "send_chunks fpga_env i bs (Some t) [] s = Some (Inr (bs, Some t), s)" for i bs t s
    by (simp add: send_chunks.simps)
  let ?c = "Ftdi_write_data_submit INTERFACE_A (take 2 (bufs[0 := buf] ! 0))"
  let ?h1 = "h @ [(?c, respond fpga_env h ?c)]"
  have send: "send_chunks fpga_env 0 bufs None [x, y] \<lparr>obj = (b, c), hist = h\<rparr> =
      Some (Inr (bufs[0 := buf], Some (0, 2)), \<lparr>obj = (b, c), hist = ?h1\<rparr>)"
    by (subst send_chunks.simps) (simp add: buf last Let_def thenE_def bindE_def transfer_submit_def)
  let ?d = "Ftdi_transfer_data_done INTERFACE_A (take 2 (bufs[0 := buf] ! 0))"
  let ?h2 = "?h1 @ [(?d, respond fpga_env ?h1 ?d)]"
  have fin: "transfer_done fpga_env (bufs[0 := buf]) (0, 2) \<lparr>obj = (b, c), hist = ?h1\<rparr> =
      Some (Inr (), \<lparr>obj = (b, c), hist = ?h2\<rparr>)"
    by (simp add: transfer_done_def do_checked_run Let_def after_def)
  obtain s' where "wait_done fpga_env 3 0 \<lparr>obj = (b, c), hist = ?h2\<rparr> = Some (Inr (3, 4), s')"
    using fpga_wait [of "\<lparr>obj = (b, c), hist = ?h2\<rparr>"] by (auto simp: transfers_def is_transfer_def)
  moreover have "length (bit_image b) - pos b = 2"
    using arg_cong [OF assms(1), of length] by simp
  ultimately show ?thesis
    using assms send fin by (simp add: bit_load_firmware_def bindE_def thenE_def)
qed

lemma fpga_read:
  assumes "obj s = (dev, f, bf)" and "bitstream_index f \<noteq> 7"
  shows "\<exists>s' bf'. read_bitstream fpga_env 32 s = Some (Inr (), s') \<and> obj s' = (dev, f, bf') \<and>
    unread bf' = [0x80, 0x01] \<and> bit_size bf' = 2"
proof -
  let ?b0 = "bf\<lparr>bit_image := fpga_file, pos := 0, bit_size := length fpga_file\<rparr>"
  let ?bf' = "parsed ?b0 [] [] [] [] 2 [0x80, 0x01]"
  have "bit_do_parse ?b0 = Some (Inr (), ?bf')"
    by (rule bit_do_parse_ok) (simp_all add: wf_bit_def str_ok_def fpga_file_def)
  then have init: "bit_init fpga_file (length fpga_file) bf = Some (Inr (), ?bf')"
    by (simp add: bit_init_def thenE_def bindE_def modify_def)
  have len: "take 32 fpga_file = fpga_file"
    by (simp add: fpga_file_def bit_encode_def bit_header_def)
  have "\<exists>s1. on_package (fwpkg_read_bitstream fpga_env 32) s = Some (Inr fpga_file, s1) \<and> obj s1 = (dev, f, bf)"
    using assms len by (simp add: on_package_def zoom_def fwpkg_read_bitstream_def bindE_def fwpkg_read_file_run Let_def)
  then obtain s1 where s1: "on_package (fwpkg_read_bitstream fpga_env 32) s = Some (Inr fpga_file, s1)"
      "obj s1 = (dev, f, bf)"
    by blast
  have "on_bit (bit_init fpga_file (length fpga_file)) s1 = Some (Inr (), s1\<lparr>obj := (dev, f, ?bf')\<rparr>)"
    using s1(2) init by (simp add: on_bit_def)
  then have "read_bitstream fpga_env 32 s = Some (Inr (), s1\<lparr>obj := (dev, f, ?bf')\<rparr>)"
    unfolding read_bitstream_def bindE_Inr using s1(1) by (intro exI [of _ fpga_file] exI [of _ s1]) simp
  then show ?thesis
    using parsed_unread [of ?b0 "[]" "[]" "[]" "[]" 2 "[0x80, 0x01]"]
    by (intro exI [of _ "s1\<lparr>obj := (dev, f, ?bf')\<rparr>"] exI [of _ ?bf']) (simp add: parsed_def Let_def)
qed

lemma cha_part_succeeds: "succeeds m \<Longrightarrow> \<exists>x s'. cha_part m s = Some (Inr x, s')"
  by (auto simp: succeeds_def cha_part_Inr)

lemma chb_part_succeeds: "succeeds m \<Longrightarrow> \<exists>x s'. chb_part m s = Some (Inr x, s')"
  by (auto simp: succeeds_def chb_part_Inr)

lemma fpga_firmware:
  assumes "transfers (hist s) = []" and "bitstream_index (fst (snd (obj s))) \<noteq> 7"
  shows "\<exists>s'. ov_load_firmware_from_fwpkg fpga_env bufs s = Some (Inr (), s')"
proof -
  obtain dev f bf where s: "obj s = (dev, f, bf)"
    by (cases "obj s")
  let ?s1 = "s\<lparr>hist := after fpga_env (Zip_stat_index (bitstream_index f)) (hist s)\<rparr>"
  let ?s2 = "?s1\<lparr>hist := after fpga_env (Malloc 32) (hist ?s1)\<rparr>"
  have index: "bitstream_index f \<noteq> 7"
    using assms(2) s by simp
  have size: "on_package (fwpkg_bitstream_size fpga_env) s = Some (Inr 32, ?s1)"
    using s index by (simp add: on_package_def zoom_def fwpkg_bitstream_size_def bindE_def fwpkg_file_size_run Let_def)
  obtain s3 bf' where read: "read_bitstream fpga_env 32 ?s2 = Some (Inr (), s3)" "obj s3 = (dev, f, bf')"
      "unread bf' = [0x80, 0x01]" "bit_size bf' = 2"
    using fpga_read [OF _ index, of ?s2 dev bf] s by auto
  obtain es3 where es3: "hist s3 = hist ?s2 @ es3" "transfers es3 = []"
    using read_bitstream_seen [OF read(1), of dev f bf] s by auto
  have none3: "transfers (hist s3) = []"
    using assms(1) es3 by (simp add: after_def transfers_def is_transfer_def)
  obtain s4 where config: "on_device (cha_part (cha_switch_config_mode fpga_env)) s3 = Some (Inr (), s4)"
    "snd (obj s4) = (f, bf')" "transfers (hist s4) = []"
  proof -
    obtain t where t: "cha_switch_config_mode fpga_env \<lparr>obj = ov_cha dev, hist = hist s3\<rparr> = Some (Inr (), t)"
      using fpga_switch_mode [of BITMODE_BITBANG] unfolding succeeds_def cha_switch_config_mode_def by auto
    then have "transfers (hist t) = []"
      using part_transfers [OF cha_switch_config_mode_reports t] none3 by auto
    then show ?thesis
      using that t read(2) by (auto simp: on_device_def zoom_Some cha_part_Inr)
  qed
  obtain s5 dev5 where reset: "on_device (chb_part (chb_switch_program_mode fpga_env)) s4 = Some (Inr (), s5)"
    "obj s5 = (dev5, f, bf')"
  proof -
    obtain t where t: "chb_switch_program_mode fpga_env \<lparr>obj = ov_chb (fst (obj s4)), hist = hist s4\<rparr> = Some (Inr (), t)"
      using fpga_reset [of "\<lparr>obj = ov_chb (fst (obj s4)), hist = hist s4\<rparr>"] config(3) by auto
    then show ?thesis
      using that config(2) by (cases "obj s4") (auto simp: on_device_def zoom_Some chb_part_Inr)
  qed
  obtain s6 where load: "on_loader (bit_load_firmware fpga_env bufs) s5 = Some (Inr (), s6)"
    using fpga_load [OF read(3,4), of bufs "ov_chb dev5" "hist s5"] reset(2)
    by (auto simp: on_loader_def zoom_Some)
  obtain s8 where fifo: "on_device (cha_part (cha_switch_fifo_mode fpga_env))
      (s6\<lparr>hist := hist s6 @ [(Free, respond fpga_env (hist s6) Free)]\<rparr>) = Some (Inr (), s8)"
    using fpga_fifo unfolding succeeds_def on_device_def zoom_Some cha_part_Inr by fastforce
  show ?thesis
    using size read(1) config(1) reset(1) load fifo
    by (simp add: ov_load_firmware_from_fwpkg_def program_fpga_def bindE_Inr thenE_Inr after_def)
qed

lemma fpga_opens:
  assumes "transfers (hist s) = []" and "bitstream_index (ov_fwpkg (obj s)) \<noteq> 7"
  shows "\<exists>s'. ov_open fpga_env bufs bf s = Some (Inr (), s')"
proof -
  obtain s1 where s1: "cha_part (cha_open fpga_env) s = Some (Inr (), s1)"
    using cha_part_succeeds [OF fpga_open(1)] by auto
  obtain s2 where s2: "chb_part (chb_open fpga_env) s1 = Some (Inr (), s2)"
    using chb_part_succeeds [OF fpga_open(2)] by auto
  have "transfers (hist s2) = []"
    using cha_part_transfers [OF s1 cha_open_reports] chb_part_transfers [OF s2 chb_open_reports] assms(1) by auto
  moreover have "ov_fwpkg (obj s2) = ov_fwpkg (obj s)"
    using s1 s2 by (auto simp: cha_part_Inr chb_part_Inr)
  ultimately obtain t where "ov_load_firmware_from_fwpkg fpga_env bufs
      \<lparr>obj = (obj s2, ov_fwpkg (obj s2), bf), hist = hist s2\<rparr> = Some (Inr (), t)"
    using fpga_firmware [of "\<lparr>obj = (obj s2, ov_fwpkg (obj s2), bf), hist = hist s2\<rparr>" bufs] assms(2) by auto
  then obtain s3 where s3: "zoom (\<lambda>d. (d, ov_fwpkg d, bf)) (\<lambda>(d, f, _) _. d\<lparr>ov_fwpkg := f\<rparr>)
      (ov_load_firmware_from_fwpkg fpga_env bufs) s2 = Some (Inr (), s3)"
    by (auto simp: zoom_Some)
  obtain s4 where s4: "cha_part (cha_switch_fifo_mode fpga_env) s3 = Some (Inr (), s4)"
    using cha_part_succeeds [OF fpga_fifo] by auto
  obtain s5 where s5: "cha_part (cha_stop_stream fpga_env) s4 = Some (Inr (), s5)"
    using cha_part_succeeds [OF fpga_stop] by auto
  have "ov_open fpga_env bufs bf s = Some (Inr (), s5)"
    unfolding ov_open_def seqE.simps thenE_Inr using s1 s2 s3 s4 s5 by auto
  then show ?thesis
    by blast
qed


section \<open>A device that can be created, too\<close>

lemma fpga_package:
  "\<exists>s'. fwpkg_init fpga_env filename s = Some (Inr (), s') \<and>
     obj s' = \<lparr>pkg = True, map_index = 7, bitstream_index = 1, fw_error = None\<rparr> \<and>
     transfers (hist s') = transfers (hist s)"
  by (cases filename) (simp_all add: fwpkg_init_def fwpkg_init_from_file_def fwpkg_init_from_preload_def
      fwpkg_init_from_buffer_def fwpkg_locate_files_def thenE_def bindE_def fwpkg_zero_def transfers_def is_transfer_def)

lemma fpga_cha_init:
  assumes "map_index (snd (obj s)) = 7"
  shows "\<exists>s'. cha_init fpga_env (map_of reg_gperf) s = Some (Inr (), s') \<and> snd (obj s') = snd (obj s) \<and>
    transfers (hist s') = transfers (hist s)"
proof -
  let ?s = "\<lparr>obj = (\<lparr>reg_error = None, addr = \<lambda>_. 0\<rparr>, snd (obj s)), hist = hist s\<rparr>"
  have "length fpga_map < 2 ^ 64"
    using test_map_ok(4) by (simp add: fpga_map_def text_bytes_def)
  then have "delivers_file fpga_env (map_index (snd (obj ?s))) (text_bytes (print_map test_map))"
    using assms by (simp add: delivers_file_def fpga_map_def [symmetric] opened_def)
  then obtain t es i n where t: "reg_init_from_fwpkg fpga_env (map_of reg_gperf) ?s = Some (Inr (), t)"
      "snd (obj t) = snd (obj s)" "hist t = hist s @ es"
      "map fst es = [Zip_stat_index i, Malloc n, Zip_fopen_index i, Zip_fread n, Zip_fclose, Free]"
    using reg_init_from_fwpkg_loads [of fpga_env ?s test_map "map_of reg_gperf"] test_map_ok by auto
  have "transfers es = []"
    using t(4) by (simp add: transfers_def is_transfer_def)
  then show ?thesis
    using t(1-3) by (cases "obj t") (simp add: cha_init_def thenE_def bindE_def onfail_def zoom_def do_checked_run
        Let_def after_def transfers_def is_transfer_def split_def)
qed

lemma fpga_new:
  "\<exists>s'. ov_new fpga_env (map_of reg_gperf) n null filename s = Some (Inr (), s') \<and>
     bitstream_index (ov_fwpkg (obj s')) = 1 \<and> transfers (hist s') = transfers (hist s)"
proof -
  let ?h = "hist s @ [(Malloc n, respond fpga_env (hist s) (Malloc n))]"
  let ?d = "ov_zero null"
  obtain p where p: "fwpkg_init fpga_env filename \<lparr>obj = ov_fwpkg ?d, hist = ?h\<rparr> = Some (Inr (), p)"
      "obj p = \<lparr>pkg = True, map_index = 7, bitstream_index = 1, fw_error = None\<rparr>"
      "transfers (hist p) = transfers (hist s)"
    using fpga_package [of filename "\<lparr>obj = ov_fwpkg ?d, hist = ?h\<rparr>"]
    by (auto simp: transfers_def is_transfer_def)
  obtain c where c: "cha_init fpga_env (map_of reg_gperf) \<lparr>obj = (ov_cha ?d, obj p), hist = hist p\<rparr> = Some (Inr (), c)"
      "snd (obj c) = obj p" "transfers (hist c) = transfers (hist s)"
    using fpga_cha_init [of "\<lparr>obj = (ov_cha ?d, obj p), hist = hist p\<rparr>"] p(2,3) by auto
  show ?thesis
    using p c
    by (cases "obj c") (simp add: ov_new_def bindE_def thenE_def onfail_def or_error_def in_package_def zoom_def chb_part_def
        in_chb_def chb_init_def do_checked_run Let_def after_def transfers_def is_transfer_def split_def)
qed

end
