(* ===== verification/Ov_Capture.thy ===== *)
theory Ov_Capture imports
  Ov_Firmware
  Cha_Loop_Spec
begin

text \<open>
  Properties of a capture session, from \<open>ov_capture_start\<close> to \<open>ov_capture_stop\<close>, whatever the client
  does in between.
\<close>

unbundle bit_operations_syntax

section \<open>Starting\<close>

lemma free_transfers_run:
  "\<exists>s'. free_transfers env n s = Some (Inr (), s') \<and> held k (hist s') = held k (hist s) - one Transfer k * int n \<and>
     obj s' = obj s"
  by (induction n arbitrary: s) (simp_all add: thenE_def bindE_def after_def one_def, fastforce)

lemma alloc_transfers_Suc_run:
  fixes env :: env and s :: "cha st"
  assumes "Suc n \<le> transfers_count"
  defines "s1 \<equiv> s\<lparr>hist := after env Libusb_alloc_transfer (hist s)\<rparr>"
  defines "s2 \<equiv> s1\<lparr>hist := after env (Malloc 4096) (hist s1)\<rparr>"
  shows "alloc_transfers env (Suc n) s =
    (if r_ret (respond env (hist s) Libusb_alloc_transfer) = 0
     then onfail (fail_str set_cha_error ''Can not allocate libusb_transfer'')
       (free_transfers env (transfers_count - Suc n)) s1
     else if r_ret (respond env (hist s1) (Malloc 4096)) = 0
     then onfail (fail_str set_cha_error ''Can not allocate transfer buffer'')
       (free_transfers env (transfers_count - n)) s2
     else alloc_transfers env n s2)"
  using assms(1) by (simp add: s1_def s2_def bindE_def Let_def after_def Suc_diff_Suc)

lemma alloc_failed:
  assumes "onfail (fail_str set_cha_error msg) (free_transfers env m) t = Some (r, s')"
  shows "r = Inl Failed" and "held k (hist s') = held k (hist t) - one Transfer k * int m"
  using assms free_transfers_run [of env m "t\<lparr>obj := set_cha_error msg (obj t)\<rparr>" k]
  by (auto simp: onfail_def fail_str_def thenE_def bindE_def)

lemma alloc_transfers_held:
  assumes "n \<le> transfers_count" and "alloc_transfers env n s = Some (r, s')" and "k \<noteq> Memory"
  shows "case r of
      Inl e \<Rightarrow> e = Failed \<and> held k (hist s') = held k (hist s) - one Transfer k * int (transfers_count - n)
    | Inr _ \<Rightarrow> obj s' = obj s \<and> held k (hist s') = held k (hist s) + one Transfer k * int n"
  using assms
proof (induction n arbitrary: s)
  case (Suc n)
  let ?s1 = "s\<lparr>hist := after env Libusb_alloc_transfer (hist s)\<rparr>"
  let ?s2 = "?s1\<lparr>hist := after env (Malloc 4096) (hist ?s1)\<rparr>"
  note run = Suc.prems(2) [unfolded alloc_transfers_Suc_run [OF Suc.prems(1)]]
  show ?case
  proof (cases "r_ret (respond env (hist s) Libusb_alloc_transfer) = 0")
    case True
    then have "held k (hist ?s1) = held k (hist s)"
      by (simp add: after_def)
    then show ?thesis
      using run alloc_failed(1) [where t = ?s1] alloc_failed(2) [where t = ?s1 and k = k] True by fastforce
  next
    case allocated: False
    then have one: "held k (hist ?s2) = held k (hist s) + one Transfer k"
      using Suc.prems(3) by (simp add: after_def one_def)
    show ?thesis
    proof (cases "r_ret (respond env (hist ?s1) (Malloc 4096)) = 0")
      case True
      then show ?thesis
        using run allocated one alloc_failed(1) [where t = ?s2] alloc_failed(2) [where t = ?s2 and k = k and m = "transfers_count - n"] Suc.prems(1)
        by (fastforce simp: of_nat_diff one_def)
    next
      case False
      then have "alloc_transfers env n ?s2 = Some (r, s')"
        using run allocated by simp
      note Suc.IH [OF _ this Suc.prems(3)]
      then show ?thesis
        using Suc.prems(1) one by (cases r) (simp_all add: of_nat_diff one_def)
    qed
  qed
qed auto

lemma cha_loop_init_run:
  assumes "cha_loop_init env p n f u s = Some (r, s')" and "k \<noteq> Memory"
  shows "case r of
      Inl e \<Rightarrow> e = Failed \<and> held k (hist s') = held k (hist s)
    | Inr _ \<Rightarrow> obj s' = (fst (obj s), frame_decoder_init (snd (obj s)) p n loop_ops
          (init_data (fst (obj s)) f u (loop_data (snd (obj s))))) \<and>
        held k (hist s') = held k (hist s) + 3 * one Transfer k"
proof -
  obtain c l where s: "obj s = (c, l)"
    by fastforce
  obtain t where "alloc_transfers env transfers_count \<lparr>obj = c, hist = hist s\<rparr> = Some (r, t)"
    "s' = \<lparr>obj = (obj t, frame_decoder_init l p n loop_ops (init_data c f u (loop_data l))), hist = hist t\<rparr>"
    using assms s by (auto simp: cha_loop_init_def thenE_def bindE_def zoom_Some)
  then show ?thesis
    using alloc_transfers_held [OF le_refl, of env "\<lparr>obj = c, hist = hist s\<rparr>" r t, OF _ assms(2)] s
    by (auto simp: transfers_count_def split: sum.splits)
qed

section \<open>A device that is capturing\<close>

definition capturing :: "'u ov_device \<Rightarrow> bool" where
  "capturing d \<longleftrightarrow> loop_ready (loop_of d)"

lemma loop_data_of [simp]: "loop_data (loop_of d) = (loop_data (ov_loop d))\<lparr>lp_cha := ov_cha d\<rparr>"
  by (simp add: loop_of_def)

lemma capturing_loop: "capturing d \<longleftrightarrow> loop_ready (ov_loop d)"
  by (simp add: capturing_def loop_ready_def sound_def) (simp add: loop_of_def)

lemma put_loop_fields [simp]:
  "ov_loop (put_loop l d) = l" "ov_cha (put_loop l d) = lp_cha (loop_data l)" "ov_error (put_loop l d) = ov_error d"
  by (simp_all add: put_loop_def)

lemma set_ov_error_fields [simp]:
  "ov_loop (set_ov_error d msg) = ov_loop d" "ov_cha (set_ov_error d msg) = ov_cha d"
  "ov_error (set_ov_error d msg) = msg"
  by (simp_all add: set_ov_error_def)

lemma loop_of_safe [simp]: "frame_decoder_safe (loop_of d) = frame_decoder_safe (ov_loop d)"
  by (simp add: loop_of_def)

lemma ready_on_loop:
  assumes "loop_ready l" and "lp_abort (f (loop_data l)) = None"
    and "lp_transfer (f (loop_data l)) = replicate transfers_count Idle"
  shows "loop_ready (on_loop f l)"
  using assms by (simp add: loop_ready_def sound_def)

lemma cha_part_loop: "cha_part m s = Some (r, s') \<Longrightarrow> ov_loop (obj s') = ov_loop (obj s)"
  by (auto simp: cha_part_def or_error_run in_cha_def zoom_def set_ov_error_def
      split: option.splits sum.splits error.splits)

lemma ov_capture_start_run:
  assumes "ov_capture_start env p n f u s = Some (Inr (), s1)"
  shows "capturing (obj s1)" and "k \<noteq> Memory \<Longrightarrow> held k (hist s1) = held k (hist s) + 3 * one Transfer k"
    and "ov_loop (obj s1) = frame_decoder_init (ov_loop (obj s)) p n loop_ops
      (init_data (ov_cha (obj s)) f u (loop_data (ov_loop (obj s))))"
    and "addr (cha_reg (ov_cha (obj s1))) = addr (cha_reg (ov_cha (obj s)))"
    and "8191 \<le> length (pk_data p) \<Longrightarrow> 0 < n \<Longrightarrow> frame_decoder_safe (ov_loop (obj s1))"
proof -
  let ?l = "frame_decoder_init (ov_loop (obj s)) p n loop_ops
      (init_data (ov_cha (obj s)) f u (loop_data (ov_loop (obj s))))"
  obtain t where t: "cha_loop_init env p n f u \<lparr>obj = (ov_cha (obj s), ov_loop (obj s)), hist = hist s\<rparr> = Some (Inr (), t)"
    and cont: "cha_part (cha_start_stream env)
      \<lparr>obj = (case obj t of (c, l) \<Rightarrow> \<lambda>d. d\<lparr>ov_cha := c, ov_loop := l\<rparr>) (obj s), hist = hist t\<rparr> = Some (Inr (), s1)"
    using assms unfolding ov_capture_start_def thenE_Inr or_error_Inr zoom_Some by auto
  obtain c l where cl: "obj t = (c, l)"
    by fastforce
  have stream: "cha_part (cha_start_stream env)
      \<lparr>obj = (obj s)\<lparr>ov_cha := c, ov_loop := l\<rparr>, hist = hist t\<rparr> = Some (Inr (), s1)"
    using cont by (simp add: cl)
  note init = cha_loop_init_run [OF t, where k = Transfer, simplified]
  have "loop_ready ?l"
    by (simp add: loop_ready_def sound_def frame_decoder_init_def packet_decoder_init_def
        loop_data_def init_data_def)
  then show "capturing (obj s1)"
    using init cl cha_part_loop [OF stream] by (simp add: capturing_loop)
  show "held k (hist s1) = held k (hist s) + 3 * one Transfer k" if "k \<noteq> Memory"
    using cha_loop_init_run [OF t that] spendsD(1) [OF part_spends(4) [OF reports_harmless [OF cha_stream_reports(1)]] stream] by simp
  show loop: "ov_loop (obj s1) = ?l"
    using init cl cha_part_loop [OF stream] by simp
  show "frame_decoder_safe (ov_loop (obj s1))" if "8191 \<le> length (pk_data p)" "0 < n"
    unfolding loop by (rule frame_decoder_init_safe [OF that(2,1)])
  show "addr (cha_reg (ov_cha (obj s1))) = addr (cha_reg (ov_cha (obj s)))"
  proof -
    obtain t1 where "cha_start_stream env \<lparr>obj = c, hist = hist t\<rparr> = Some (Inr (), t1)" "ov_cha (obj s1) = obj t1"
      using stream unfolding cha_part_Inr by auto
    moreover have "c = ov_cha (obj s)"
      using init cl by simp
    ultimately show ?thesis
      using start_stream_writes [unfolded writes_def, rule_format, of "\<lparr>obj = c, hist = hist t\<rparr>"
          "addr (cha_reg (ov_cha (obj s)))" env "()" t1] by simp
  qed
qed

section \<open>A session\<close>

text \<open>What a client may do between \<open>ov_capture_start\<close> and \<open>ov_capture_stop\<close>.\<close>

inductive session_of :: "env \<Rightarrow> usb \<Rightarrow> 'u ov_device st \<Rightarrow> 'u ov_device st \<Rightarrow> bool" for env usb where
  begun: "session_of env usb s s"
| dispatches: "session_of env usb s s1 \<Longrightarrow> ov_capture_dispatch usb answer cnt (obj s1) r d \<Longrightarrow>
    session_of env usb s (s1\<lparr>obj := d\<rparr>)"
| sets_callback: "session_of env usb s s1 \<Longrightarrow>
    session_of env usb s (s1\<lparr>obj := fst (ov_capture_set_callback f u (obj s1))\<rparr>)"
| breaks_loop: "session_of env usb s s1 \<Longrightarrow> session_of env usb s (s1\<lparr>obj := ov_capture_breakloop (obj s1)\<rparr>)"
| gets_speed: "session_of env usb s s1 \<Longrightarrow> ov_get_usb_speed env s1 = Some (q, s2) \<Longrightarrow> returned q \<Longrightarrow>
    session_of env usb s s2"
| sets_speed: "session_of env usb s s1 \<Longrightarrow> ov_set_usb_speed env speed s1 = Some (r, s2) \<Longrightarrow> returned r \<Longrightarrow>
    session_of env usb s s2"

text \<open>What \<open>ov_capture_dispatch\<close> returns: the count of a run that reached its limit, or the code of the reason.\<close>

definition dispatch_result :: "error + int \<Rightarrow> 'u ov_device \<Rightarrow> bool" where
  "dispatch_result r d \<longleftrightarrow>
     (let l = loop_data (ov_loop d)
      in r = Inr (lp_count l) \<and> lp_state l = COUNT_LIMIT \<or>
         r = Inr (- 1) \<and> ov_error d = cha_error (ov_cha d) \<or> r \<in> {Inr (- 2), Inr (- 4), Inr (- 5)})"

inductive_cases dispatchE: "ov_capture_dispatch usb answer cnt d r d'"
inductive_cases stopE: "ov_capture_stop env usb answer null s r s'"

lemma dispatch_capturing:
  assumes "capturing d" and "ov_capture_dispatch usb answer cnt d r d'"
  shows "capturing d'" and "dispatch_result r d'" and "frame_decoder_safe (ov_loop d) \<Longrightarrow> frame_decoder_safe (ov_loop d')"
    and "lp_callback (loop_data (ov_loop d)) = Some f \<Longrightarrow> moves_by f R \<Longrightarrow>
      R (lp_user (loop_data (ov_loop d))) (lp_user (loop_data (ov_loop d')))"
proof -
  obtain l where run: "cha_loop_run usb answer cnt (loop_of d) r l"
    and d': "d' = (if r = Inr (- 1) then set_ov_error (put_loop l d) (cha_error (lp_cha (loop_data l))) else put_loop l d)"
    using assms(2) by (rule dispatchE)
  note o = cha_loop_run_outcome [OF assms(1) [unfolded capturing_def] run]
  show "capturing d'"
    using o d' by (simp add: capturing_loop)
  show "dispatch_result r d'"
    using o d' by (auto simp: dispatch_result_def Let_def)
  show "frame_decoder_safe (ov_loop d) \<Longrightarrow> frame_decoder_safe (ov_loop d')"
    using o d' by simp
  show "R (lp_user (loop_data (ov_loop d))) (lp_user (loop_data (ov_loop d')))"
    if "lp_callback (loop_data (ov_loop d)) = Some f" "moves_by f R"
    using cha_loop_run_moves(1) [OF assms(1) [unfolded capturing_def] run, of f R] that d' by simp
qed

lemma set_callback_capturing: "capturing d \<Longrightarrow> capturing (fst (ov_capture_set_callback f u d))"
  unfolding ov_capture_set_callback_def capturing_loop cha_loop_set_callback_def
  by (auto intro!: ready_on_loop simp: loop_ready_def sound_def)

lemma client_safe:
  "frame_decoder_safe (ov_loop (fst (ov_capture_set_callback f u d))) = frame_decoder_safe (ov_loop d)"
  "frame_decoder_safe (ov_loop (ov_capture_breakloop d)) = frame_decoder_safe (ov_loop d)"
  by (simp_all add: ov_capture_set_callback_def ov_capture_breakloop_def split: prod.split)

lemma breakloop_capturing: "capturing d \<Longrightarrow> capturing (ov_capture_breakloop d)"
  unfolding ov_capture_breakloop_def capturing_loop
  by (auto intro!: ready_on_loop simp: loop_ready_def sound_def cha_loop_break_def request_cancel_def)

lemma speed_capturing:
  "ov_get_usb_speed env s = Some (q, s') \<Longrightarrow> ov_loop (obj s') = ov_loop (obj s) \<and> capturing (obj s') = capturing (obj s)"
  "ov_set_usb_speed env speed s = Some (r, s') \<Longrightarrow> ov_loop (obj s') = ov_loop (obj s) \<and> capturing (obj s') = capturing (obj s)"
  by (simp_all add: ov_get_usb_speed_def ov_set_usb_speed_def capturing_loop cha_part_loop)

lemma session_keeps:
  assumes "session_of env usb s s'"
  shows "capturing (obj s) \<Longrightarrow> capturing (obj s')" and "held k (hist s') = held k (hist s)"
    and "capturing (obj s) \<Longrightarrow> frame_decoder_safe (ov_loop (obj s)) \<Longrightarrow> frame_decoder_safe (ov_loop (obj s'))"
proof -
  have "(capturing (obj s) \<longrightarrow> capturing (obj s') \<and>
      (frame_decoder_safe (ov_loop (obj s)) \<longrightarrow> frame_decoder_safe (ov_loop (obj s')))) \<and>
      held k (hist s') = held k (hist s)"
    using assms
    by (induction rule: session_of.induct)
      (auto simp: dispatch_capturing set_callback_capturing breakloop_capturing speed_capturing client_safe api_held(3,4))
  then show "capturing (obj s) \<Longrightarrow> capturing (obj s')" and "held k (hist s') = held k (hist s)"
    and "capturing (obj s) \<Longrightarrow> frame_decoder_safe (ov_loop (obj s)) \<Longrightarrow> frame_decoder_safe (ov_loop (obj s'))"
    by simp_all
qed

section \<open>Stopping\<close>

lemma stop_begin_run:
  assumes "stop_begin env null s = Some (Inr (), s1)" and "capturing (obj s)"
  shows "capturing (obj s1)" and "held k (hist s1) = held k (hist s)"
    and "lp_state (loop_data (ov_loop (obj s1))) = RUNNING" and "lp_callback (loop_data (ov_loop (obj s1))) = None"
    and "lp_user (loop_data (ov_loop (obj s1))) = null"
proof -
  obtain r t where t: "cha_part (cha_halt_stream env) s = Some (r, t)" "r = Inr () \<or> r = Inl Failed"
    and s1: "s1 = t\<lparr>obj := case ov_capture_set_callback None null (obj t) of
        (d', _) \<Rightarrow> d'\<lparr>ov_loop := on_loop (\<lambda>l. l\<lparr>lp_state := RUNNING\<rparr>) (ov_loop d')\<rparr>\<rparr>"
    using assms(1) unfolding stop_begin_def thenE_Inr
    by (auto simp: ignore_def split: option.splits sum.splits error.splits)
  have "capturing (obj t)"
    using assms(2) cha_part_loop [OF t(1)] by (simp add: capturing_loop)
  note set_callback_capturing [OF this, of None null]
  then show "capturing (obj s1)"
    unfolding s1 capturing_loop ov_capture_set_callback_def cha_loop_set_callback_def
    by (auto intro!: ready_on_loop simp: loop_ready_def sound_def)
  show "held k (hist s1) = held k (hist s)"
    using returned_held [OF part_spends(4) [OF reports_harmless [OF cha_stream_reports(2)]] t(1)] t(2) s1
    by (auto simp: returned_def)
qed (use assms(1) in \<open>auto simp: stop_begin_def thenE_Inr ov_capture_set_callback_def cha_loop_set_callback_def\<close>)

lemma loop_destroy_run:
  assumes "active_transfers (loop_data l) = 0"
  shows "\<exists>s'. in_cha (cha_loop_destroy env l) s = Some (Inr (), s') \<and> obj s' = obj s \<and>
    held k (hist s') = held k (hist s) - 3 * one Transfer k"
proof -
  have "[0..<transfers_count] = [0, 1, 2]"
    by (simp add: transfers_count_def numeral_3_eq_3 numeral_2_eq_2)
  then show ?thesis
    using assms by (simp add: cha_loop_destroy_def in_cha_def zoom_def thenE_def bindE_def after_def one_def)
qed

lemma cha_part_failed:
  assumes "reporting.keeps cha_error m" and "cha_part m s = Some (Inl e, s')"
  shows "e = Failed" and "ov_error (obj s') \<noteq> None"
proof -
  obtain t where t: "m \<lparr>obj = ov_cha (obj s), hist = hist s\<rparr> = Some (Inl e, t)"
    and s': "e = Failed \<Longrightarrow> ov_error (obj s') = cha_error (obj t)"
    using assms(2) by (auto simp: cha_part_def or_error_run in_cha_def zoom_def
        split: option.splits sum.splits error.splits)
  show "e = Failed" "ov_error (obj s') \<noteq> None"
    using reporting.keepsD(2) [OF assms(1) t refl] s' by (auto simp: reports_def)
qed

lemma stop_end_run:
  assumes "stop_end env (Inr n) s = Some (r, s')" and "active_transfers (loop_data (ov_loop (obj s))) = 0"
    and "n < 0"
  shows "r = Inr 0 \<and> n = - 5 \<or> r = Inr (- 1) \<and> (n \<noteq> - 5 \<or> ov_error (obj s') \<noteq> None)"
    and "ov_loop (obj s') = ov_loop (obj s)" and "held k (hist s') = held k (hist s) - 3 * one Transfer k"
proof -
  let ?m = "if n = - 5 then 0 else - 1 :: int"
  obtain s1 where s1: "s1 = (if n = - 5 then s else s\<lparr>obj := set_ov_error (obj s) (cha_error (ov_cha (obj s)))\<rparr>)"
    by simp
  then have same: "ov_loop (obj s1) = ov_loop (obj s)" "hist s1 = hist s"
    by simp_all
  obtain s2 where s2: "in_cha (cha_loop_destroy env (ov_loop (obj s))) s1 = Some (Inr (), s2)"
      "obj s2 = obj s1" "held k (hist s2) = held k (hist s) - 3 * one Transfer k"
    using loop_destroy_run [OF assms(2), of env s1 k] same by auto
  then have "(case cha_part (cha_stop_stream env) s2 of
      None \<Rightarrow> None
    | Some (Inl e, s') \<Rightarrow> if e = Failed then Some (Inr (- 1), s') else Some (Inl e, s')
    | Some (Inr _, s') \<Rightarrow> Some (Inr ?m, s')) = Some (r, s')"
    using assms(1,3) s1 by (auto simp: stop_end_def bindE_def thenE_def split: if_splits)
  then obtain q where q: "cha_part (cha_stop_stream env) s2 = Some (q, s')"
    and r: "r = (case q of Inl e \<Rightarrow> if e = Failed then Inr (- 1) else Inl e | Inr _ \<Rightarrow> Inr ?m)"
    by (auto split: option.splits sum.splits if_splits)
  note failed = cha_part_failed [OF cha_stream_reports(3), of env s2 _ s']
  have "returned q"
    using failed q by (cases q) (simp_all add: returned_def)
  then have h: "held k (hist s') = held k (hist s2)"
    using returned_held [OF part_spends(4) [OF reports_harmless [OF cha_stream_reports(3)]] q] by simp
  show "r = Inr 0 \<and> n = - 5 \<or> r = Inr (- 1) \<and> (n \<noteq> - 5 \<or> ov_error (obj s') \<noteq> None)"
    using failed q r by (cases q) auto
  show "ov_loop (obj s') = ov_loop (obj s)"
    using cha_part_loop [OF q] s2(2) same by simp
  show "held k (hist s') = held k (hist s) - 3 * one Transfer k"
    using h s2(3) by simp
qed

text \<open>A run of the loop without a limit ends for one of four reasons; without a callback, the user data stays.\<close>

lemma unlimited_run:
  assumes "loop_ready l" and "lp_state (loop_data l) = RUNNING" and "cnt \<le> 0"
    and "cha_loop_run usb answer cnt l r l'"
  shows "r = Inr (- state_code (lp_state (loop_data l')))"
    and "lp_state (loop_data l') \<in> {FATAL_ERROR, BREAK_LOOP, END_OF_STREAM, HOST_READ_OFF}"
    and "loop_ready l'" and "active_transfers (loop_data l') = 0" and "advances (loop_reset cnt (loop_data l)) (loop_data l')"
proof -
  let ?d = "loop_reset cnt (loop_data l)"
  have o: "r = loop_result (loop_data l')" "lp_state (loop_data l') \<noteq> RUNNING" "active_transfers (loop_data l') = 0"
      "loop_ready l'" "advances ?d (loop_data l')"
    using assms(1,4) by (rule cha_loop_run_ends; use assms(2) in simp)+
  have "in_limit ?d" "max_count ?d = cnt"
    using assms(2,3) by (simp_all add: in_limit_def loop_reset_def)
  then have "lp_state (loop_data l') \<noteq> COUNT_LIMIT"
    using o(5) assms(3) by (auto simp: advances_def in_limit_def)
  then show "r = Inr (- state_code (lp_state (loop_data l')))"
      "lp_state (loop_data l') \<in> {FATAL_ERROR, BREAK_LOOP, END_OF_STREAM, HOST_READ_OFF}"
    using o(1-3) by (simp_all add: loop_result_def) (cases "lp_state (loop_data l')"; simp)
  show "loop_ready l'" "active_transfers (loop_data l') = 0" "advances ?d (loop_data l')"
    using o by simp_all
qed

lemma draining_run:
  assumes "loop_ready l" and "lp_state (loop_data l) = RUNNING" and "lp_callback (loop_data l) = None"
    and "cha_loop_run usb answer (- 1) l r l'"
  shows "loop_ready l'" and "active_transfers (loop_data l') = 0" and "lp_user (loop_data l') = lp_user (loop_data l)"
    and "lp_callback (loop_data l') = None" and "r = Inr (- state_code (lp_state (loop_data l')))"
    and "lp_state (loop_data l') \<in> {FATAL_ERROR, BREAK_LOOP, END_OF_STREAM, HOST_READ_OFF}"
  using unlimited_run [OF assms(1,2) _ assms(4)] assms(3) by (simp_all add: advances_def loop_reset_def)

lemma ov_capture_stop_run:
  assumes "capturing (obj s)" and "ov_capture_stop env usb answer null s r s'"
  defines "l \<equiv> loop_data (ov_loop (obj s'))"
  shows "r = Inr 0 \<and> lp_state l = HOST_READ_OFF \<or>
      r = Inr (- 1) \<and> (lp_state l \<in> {FATAL_ERROR, BREAK_LOOP, END_OF_STREAM} \<or> ov_error (obj s') \<noteq> None)"
    and "lp_callback l = None" and "lp_user l = null" and "capturing (obj s')"
    and "held k (hist s') = held k (hist s) - 3 * one Transfer k"
proof -
  obtain s1 q m where begin_: "stop_begin env null s = Some (Inr (), s1)"
    and run: "cha_loop_run usb answer (- 1) (loop_of (obj s1)) q m"
    and end_: "stop_end env q (s1\<lparr>obj := put_loop m (obj s1)\<rparr>) = Some (r, s')"
    using assms(2) by (rule stopE)
  note b = stop_begin_run [OF begin_ assms(1)]
  note d = draining_run [OF b(1) [unfolded capturing_def] _ _ run, simplified, OF b(3,4)]
  have neg: "- state_code (lp_state (loop_data m)) < 0"
    using d(6) by auto
  note e = stop_end_run [OF end_ [unfolded d(5)] _ neg, simplified, OF d(2)]
  have l: "l = loop_data m"
    using e(2) by (simp add: l_def)
  show "r = Inr 0 \<and> lp_state l = HOST_READ_OFF \<or>
      r = Inr (- 1) \<and> (lp_state l \<in> {FATAL_ERROR, BREAK_LOOP, END_OF_STREAM} \<or> ov_error (obj s') \<noteq> None)"
    using e(1) d(6) l by auto
  show "lp_callback l = None"
    using d(4) l by simp
  show "lp_user l = null"
    using d(3) b(5) l by simp
  show "capturing (obj s')"
    using d(1) e(2) by (simp add: capturing_loop)
  show "held k (hist s') = held k (hist s) - 3 * one Transfer k"
    using e(3) [of k] b(2) [of k] by simp
qed

text \<open>A failing \<open>ov_capture_start\<close>: if it is the stream that cannot be started, the transfers are not freed.\<close>

lemma ov_capture_start_failed:
  assumes "ov_capture_start env p n f u s = Some (Inl e, s1)"
  shows "e = Failed" and "k \<noteq> Memory \<Longrightarrow> held k (hist s1) \<in> {held k (hist s), held k (hist s) + 3 * one Transfer k}"
proof -
  let ?init = "zoom (\<lambda>d. (ov_cha d, ov_loop d)) (\<lambda>(c, l) d. d\<lparr>ov_cha := c, ov_loop := l\<rparr>) (cha_loop_init env p n f u)"
  obtain r t where t: "or_error (\<lambda>d. cha_error (ov_cha d)) set_ov_error ?init s = Some (r, t)"
    and cont: "(case r of Inl e' \<Rightarrow> Some (Inl e', t) | Inr _ \<Rightarrow> cha_part (cha_start_stream env) t) = Some (Inl e, s1)"
    using assms by (auto simp: ov_capture_start_def thenE_def bindE_def split: option.splits sum.splits)
  have init: "case r of Inl e \<Rightarrow> e = Failed \<and> held k (hist t) = held k (hist s)
      | Inr _ \<Rightarrow> held k (hist t) = held k (hist s) + 3 * one Transfer k" if "k \<noteq> Memory" for k
    using that t cha_loop_init_run [of env p n f u "\<lparr>obj = (ov_cha (obj s), ov_loop (obj s)), hist = hist s\<rparr>" _ _ k]
    by (fastforce simp: or_error_run zoom_def split: option.splits sum.splits error.splits)
  show "e = Failed"
    using init [of Transfer] cont cha_part_failed(1) [OF cha_stream_reports(1)] by (cases r) auto
  then show "k \<noteq> Memory \<Longrightarrow> held k (hist s1) \<in> {held k (hist s), held k (hist s) + 3 * one Transfer k}"
    using init cont returned_held [OF part_spends(4) [OF reports_harmless [OF cha_stream_reports(1)]], of env t]
    by (cases r) (auto simp: returned_def)
qed

section \<open>Properties\<close>

text \<open>
  C5: A capture session is well formed.  After \<open>ov_capture_start\<close>, whatever the client dispatches,
  sets or breaks, in any order and whatever libusb reports, the loop can run again: its three
  transfers are allocated and not in flight, and each \<open>ov_capture_dispatch\<close> that returns, returns the
  count of a run that reached its limit or one of -1, -2, -4 and -5, with the error string of the
  channel for -1.  If the packet has room for any packet, the decoder stays in its invariant, also
  after a decoding error.
\<close>

theorem ov_capture_session:
  assumes "ov_capture_start env p n f u s = Some (Inr (), s1)" and "session_of env usb s1 s2"
  shows "capturing (obj s2) \<and> held Transfer (hist s2) = held Transfer (hist s) + 3 \<and>
    (8191 \<le> length (pk_data p) \<and> 0 < n \<longrightarrow> frame_decoder_safe (ov_loop (obj s2))) \<and>
    (\<forall>answer cnt r d. ov_capture_dispatch usb answer cnt (obj s2) r d \<longrightarrow> capturing d \<and> dispatch_result r d)"
proof -
  note start = ov_capture_start_run [OF assms(1)]
  note keeps = session_keeps [OF assms(2)]
  have "held Transfer (hist s2) = held Transfer (hist s) + 3"
    using start(2) [of Transfer] keeps(2) [of Transfer] by (simp add: one_def)
  then show ?thesis
    using start(1,5) keeps(1,3) dispatch_capturing(1,2) by blast
qed

text \<open>
  C4: The end of a session.  When \<open>ov_capture_stop\<close> returns, after any such session, no transfer is
  in flight and the three are freed, no assertion failed, the client's callback and user data are
  gone; the result is 0 only if the device has reported that it stopped sending, and -1 with an error
  string, or after the drain ended for another reason.
\<close>

theorem ov_capture_stop_ends:
  assumes "ov_capture_start env p n f u s = Some (Inr (), s1)"
    and "session_of env usb s1 s2" and "ov_capture_stop env usb answer null s2 r s3"
  shows "(r = Inr 0 \<and> lp_state (loop_data (ov_loop (obj s3))) = HOST_READ_OFF \<or>
      r = Inr (- 1) \<and> (ov_error (obj s3) \<noteq> None \<or>
        lp_state (loop_data (ov_loop (obj s3))) \<in> {FATAL_ERROR, BREAK_LOOP, END_OF_STREAM})) \<and>
    (\<forall>k. k \<noteq> Memory \<longrightarrow> held k (hist s3) = held k (hist s)) \<and>
    lp_transfer (loop_data (ov_loop (obj s3))) = replicate 3 Idle \<and>
    lp_callback (loop_data (ov_loop (obj s3))) = None \<and> lp_user (loop_data (ov_loop (obj s3))) = null"
proof -
  have c: "capturing (obj s2)" "\<And>k. k \<noteq> Memory \<Longrightarrow> held k (hist s2) = held k (hist s) + 3 * one Transfer k"
    using ov_capture_start_run [OF assms(1)] session_keeps [OF assms(2)] by simp_all
  note stop = ov_capture_stop_run [OF c(1) assms(3)]
  have "lp_transfer (loop_data (ov_loop (obj s3))) = replicate 3 Idle"
    using stop(4) by (simp add: capturing_loop loop_ready_def transfers_count_def)
  then show ?thesis
    using stop c(2) by auto
qed

section \<open>A session for the examples\<close>

lemma fpga_alloc: "succeeds (alloc_transfers fpga_env n)"
proof (induction n)
  case (Suc n)
  have "alloc_transfers fpga_env (Suc n) s = alloc_transfers fpga_env n
      (s\<lparr>hist := after fpga_env (Malloc 4096) (after fpga_env Libusb_alloc_transfer (hist s))\<rparr>)" for s
    by (simp add: bindE_def Let_def after_def)
  then show ?case
    using Suc unfolding succeeds_def by metis
qed (simp add: succeeds_def)

lemma fpga_write32: "succeeds (cha_write_reg32_by_name fpga_env name v)"
proof -
  have "succeeds (write_reg32_loop (cha_write_reg fpga_env) a i v)" for a i v
  proof (induction "cha_write_reg fpga_env" a i v rule: write_reg32_loop.induct)
    case (1 a i v)
    show ?case
    proof (cases "i = a")
      case True
      then show ?thesis
        by (subst write_reg32_loop.simps) (simp add: succeeds_def)
    next
      case False
      then show ?thesis
        using 1 by (subst write_reg32_loop.simps) (simp add: succeeds_thenE fpga_write)
    qed
  qed
  then show ?thesis
    by (simp add: succeeds_def cha_write_reg32_by_name_def cha_write_reg32_def at_reg_def bindE_def)
qed

lemma fpga_cast: "succeeds (cha_cast_reg_by_name fpga_env name v)"
proof -
  have "succeeds (do_checked fpga_env set_cha_error (sends_msg (cast_frame a v)))" for a
    by (rule succeeds_do_checked) simp
  then show ?thesis
    by (simp add: succeeds_def cha_cast_reg_by_name_def cha_cast_reg_def at_reg_def bindE_def)
qed

lemma fpga_start: "succeeds (cha_start_stream fpga_env)" "succeeds (cha_halt_stream fpga_env)"
proof -
  have "succeeds (ret ())"
    by (simp add: succeeds_def)
  then show "succeeds (cha_start_stream fpga_env)"
    unfolding cha_start_stream_def seqE.simps by (intro succeeds_thenE fpga_write32 fpga_write_reg fpga_cast)
  show "succeeds (cha_halt_stream fpga_env)"
    unfolding cha_halt_stream_def by (rule fpga_cast)
qed

lemma fpga_capture_start: "succeeds (ov_capture_start fpga_env p n f u)"
proof -
  have "succeeds (cha_loop_init fpga_env p n f u)"
    unfolding cha_loop_init_def by (intro succeeds_intros fpga_alloc)
  then show ?thesis
    unfolding ov_capture_start_def or_error_def cha_part_def in_cha_def
    by (intro succeeds_intros fpga_start)
qed

text \<open>The device reports that it has stopped: one bus frame in one transfer.\<close>

lemma read_off_step:
  assumes "fd_state l = NEED_FRAME_MAGIC" and "ops (fd_pd l) = loop_ops" and "lp_abort (loop_data l) = None"
    and "lp_state (loop_data l) = RUNNING" and "addr (cha_reg (lp_cha (loop_data l))) SDRAM_HOST_READ_GO = 0"
    and "lp_transfer (loop_data l) = [In_flight, In_flight, In_flight]" and "active_transfers (loop_data l) = 3"
  shows "\<exists>l'. loop_step example_usb l l' \<and> lp_state (loop_data l') = HOST_READ_OFF \<and>
    lp_transfer (loop_data l') = [Idle, Cancelling, Cancelling] \<and> active_transfers (loop_data l') = 2"
proof -
  let ?l0 = "take_out 0 l"
  let ?l1 = "snd (frame_decoder_proc ?l0 [0x55, 0x80, 0, 0, 0])"
  have l0: "ops (fd_pd ?l0) = loop_ops" "fd_state ?l0 = NEED_FRAME_MAGIC" "lp_abort (loop_data ?l0) = None"
    "lp_state (loop_data ?l0) = RUNNING" "addr (cha_reg (lp_cha (loop_data ?l0))) SDRAM_HOST_READ_GO = 0"
    "lp_transfer (loop_data ?l0) = [Idle, In_flight, In_flight]" "active_transfers (loop_data ?l0) = 3"
    using assms by (simp_all add: take_out_def)
  have proc: "fst (frame_decoder_proc ?l0 [0x55, 0x80, 0, 0, 0]) = Inr 5"
    "loop_data ?l1 = (loop_data ?l0)\<lparr>lp_state := HOST_READ_OFF\<rparr>"
    using l0(1-5) unfolding loop_data_def
    by (simp_all add: frame_decoder_proc_def frame_decoder_step.simps call_bus_frame_def loop_ops_def
        cha_loop_bus_frame_callback_def)
  have "transfer_packets 512 [0, 0, 0x55, 0x80, 0, 0, 0] ?l0 = Some (Inr (), ?l1)"
    using proc l0 by (subst transfer_packets.simps, subst transfer_packets.simps) (simp add: Let_def)
  then have "cha_loop_transfer_callback example_usb 0 LIBUSB_TRANSFER_COMPLETED [0, 0, 0x55, 0x80, 0, 0, 0] [] l =
      Some (Inr (), on_loop (\<lambda>_. transfer_ended (cha_loop_cancel_transfer (loop_data ?l1))) ?l1)"
    using proc by (simp add: cha_loop_transfer_callback_def example_usb_def take_out_def resubmit_def)
  then have "loop_step example_usb l (on_loop (\<lambda>_. transfer_ended (cha_loop_cancel_transfer (loop_data ?l1))) ?l1)"
    using assms(6) by (intro loop_step.transfer_step [where i = 0 and status = LIBUSB_TRANSFER_COMPLETED])
      (simp_all add: may_end_def)
  then show ?thesis
    using proc(2) l0 by (intro exI [of _ "on_loop (\<lambda>_. transfer_ended (cha_loop_cancel_transfer (loop_data ?l1))) ?l1"])
      (simp add: request_cancel_def transfer_ended_def Let_def)
qed

text \<open>The last run of the loop on a device that reports it, and that then gives back the other transfers.\<close>

lemma read_off_run:
  assumes "loop_ready l" and "fd_state l = NEED_FRAME_MAGIC" and "lp_state (loop_data l) = RUNNING"
    and "addr (cha_reg (lp_cha (loop_data l))) SDRAM_HOST_READ_GO = 0"
  shows "\<exists>l'. cha_loop_run example_usb (\<lambda>_. 0) (- 1) l (Inr (- 5)) l' \<and> active_transfers (loop_data l') = 0"
proof -
  let ?b = "loop_begun example_usb (\<lambda>_. 0) (- 1) l"
  have b: "fd_state ?b = NEED_FRAME_MAGIC" "ops (fd_pd ?b) = loop_ops" "lp_abort (loop_data ?b) = None"
    "lp_state (loop_data ?b) = RUNNING" "addr (cha_reg (lp_cha (loop_data ?b))) SDRAM_HOST_READ_GO = 0"
    "lp_transfer (loop_data ?b) = [In_flight, In_flight, In_flight]" "active_transfers (loop_data ?b) = 3"
    using assms by (simp_all add: loop_begun_def loop_start_def submit_all.simps transfers_count_def loop_reset_def
        loop_ready_def sound_def numeral_3_eq_3 Let_def)
  obtain l1 where l1: "loop_step example_usb ?b l1" "lp_state (loop_data l1) = HOST_READ_OFF"
      "lp_transfer (loop_data l1) = [Idle, Cancelling, Cancelling]" "active_transfers (loop_data l1) = 2"
    using read_off_step [OF b] by blast
  have s2: "loop_step example_usb l1 (cancelled 1 l1)"
    by (rule cancelled_step) (simp_all add: l1)
  have s3: "loop_step example_usb (cancelled 1 l1) (cancelled 2 (cancelled 1 l1))"
    by (rule cancelled_step) (simp_all add: l1 cancelled_def)
  have reach: "loop_reaches example_usb ?b (cancelled 2 (cancelled 1 l1))"
    by (rule reaches_step [OF reaches_step [OF reaches_step [OF reaches_here l1(1)] s2] s3])
  have fin: "lp_complete (loop_data (cancelled 2 (cancelled 1 l1)))"
    "loop_result (loop_data (cancelled 2 (cancelled 1 l1))) = Inr (- 5)"
    "active_transfers (loop_data (cancelled 2 (cancelled 1 l1))) = 0"
    by (simp_all add: l1 cancelled_def transfer_ended_def loop_result_def Let_def)
  then show ?thesis
    using cha_loop_run.run_loop [of l example_usb "\<lambda>_. 0" "- 1" "cancelled 2 (cancelled 1 l1)"] reach assms(3)
    by (intro exI [of _ "cancelled 2 (cancelled 1 l1)"]) (simp add: loop_begun_def)
qed

text \<open>The session: start, break the loop, stop.\<close>

definition example_session :: "nat ov_device st \<Rightarrow> nat ov_device st \<Rightarrow> nat ov_device st \<Rightarrow> bool" where
  "example_session s1 s2 s3 \<longleftrightarrow>
     ov_capture_start fpga_env example_packet 8203 (Some (\<lambda>p n. Inr (n + 1, False))) 7 no_state = Some (Inr (), s1) \<and>
     s2 = s1\<lparr>obj := ov_capture_breakloop (obj s1)\<rparr> \<and>
     ov_capture_stop fpga_env example_usb (\<lambda>_. 0) 0 s2 (Inr 0) s3"

lemma stop_end_succeeds:
  assumes "active_transfers (loop_data (ov_loop (obj s))) = 0"
  shows "\<exists>s'. stop_end fpga_env (Inr (- 5)) s = Some (Inr 0, s')"
proof -
  obtain s1 where "in_cha (cha_loop_destroy fpga_env (ov_loop (obj s))) s = Some (Inr (), s1)"
    using loop_destroy_run [OF assms, of fpga_env s] by blast
  moreover obtain s2 where "cha_part (cha_stop_stream fpga_env) s1 = Some (Inr (), s2)"
    using cha_part_succeeds [OF fpga_stop] by auto
  ultimately show ?thesis
    by (simp add: stop_end_def bindE_def thenE_def)
qed

lemma example_session_exists: "\<exists>s1 s2 s3. example_session s1 s2 s3"
proof -
  obtain s1 where s1: "ov_capture_start fpga_env example_packet 8203 (Some (\<lambda>p n. Inr (n + 1, False))) 7 no_state =
      Some (Inr (), s1)"
    using fpga_capture_start unfolding succeeds_def by fastforce
  have nos: "8191 \<le> length (pk_data example_packet)" "(0 :: nat) < 8203"
      "addr (cha_reg (ov_cha (obj no_state))) = (\<lambda>_. 0)"
    by (simp_all add: example_packet_def no_state_def ov_zero_def loop_data_def Let_def)
  note start = ov_capture_start_run [OF s1]
  let ?s2 = "s1\<lparr>obj := ov_capture_breakloop (obj s1)\<rparr>"
  have c2: "capturing (obj ?s2)"
    using breakloop_capturing [OF start(1)] by simp
  have two: "fd_state (ov_loop (obj ?s2)) = NEED_FRAME_MAGIC" "addr (cha_reg (ov_cha (obj ?s2))) = (\<lambda>_. 0)"
    using start(3,4) nos(3) by (simp_all add: ov_capture_breakloop_def frame_decoder_init_def)
  obtain t where t: "cha_halt_stream fpga_env \<lparr>obj = ov_cha (obj ?s2), hist = hist ?s2\<rparr> = Some (Inr (), t)"
    using fpga_start(2) [unfolded succeeds_def, rule_format, of "\<lparr>obj = ov_cha (obj ?s2), hist = hist ?s2\<rparr>"] by auto
  have reg: "addr (cha_reg (obj t)) = (\<lambda>_. 0)"
    using t two(2) by (auto simp: cha_halt_stream_def cha_cast_reg_by_name_def cha_cast_reg_def at_reg_def bindE_def
        do_checked_run Let_def split: if_splits)
  obtain s3 where s3: "stop_begin fpga_env 0 ?s2 = Some (Inr (), s3)"
    and o3: "fd_state (ov_loop (obj s3)) = NEED_FRAME_MAGIC" "addr (cha_reg (ov_cha (obj s3))) = (\<lambda>_. 0)"
    using t two(1) reg by (simp add: stop_begin_def thenE_def bindE_def ignore_def cha_part_def or_error_run in_cha_def
        zoom_def ov_capture_set_callback_def cha_loop_set_callback_def)
  note b = stop_begin_run [OF s3 c2]
  obtain l' where l': "cha_loop_run example_usb (\<lambda>_. 0) (- 1) (loop_of (obj s3)) (Inr (- 5)) l'"
      "active_transfers (loop_data l') = 0"
    using read_off_run [OF b(1) [unfolded capturing_def]] b(3) o3 by (auto simp: loop_of_def)
  obtain s4 where "stop_end fpga_env (Inr (- 5)) (s3\<lparr>obj := put_loop l' (obj s3)\<rparr>) = Some (Inr 0, s4)"
    using stop_end_succeeds [of "s3\<lparr>obj := put_loop l' (obj s3)\<rparr>"] l'(2) by auto
  then have "ov_capture_stop fpga_env example_usb (\<lambda>_. 0) 0 ?s2 (Inr 0) s4"
    by (rule ov_capture_stop.stop [OF s3 l'(1)])
  then show ?thesis
    using s1 unfolding example_session_def by blast
qed

lemma example_sessionD:
  assumes "example_session s1 s2 s3"
  shows "ov_capture_start fpga_env example_packet 8203 (Some (\<lambda>p n. Inr (n + 1, False))) 7 no_state = Some (Inr (), s1)"
    and "session_of fpga_env example_usb s1 s2" and "ov_capture_stop fpga_env example_usb (\<lambda>_. 0) 0 s2 (Inr 0) s3"
    and "8191 \<le> length (pk_data example_packet)" and "(0 :: nat) < 8203"
  using assms session_of.breaks_loop [OF session_of.begun]
  by (auto simp: example_session_def example_packet_def no_state_def ov_zero_def loop_data_def Let_def)

theorem ov_capture_session_witness:
  "\<exists>s1 s2 s3. example_session s1 s2 s3 \<and> capturing (obj s2) \<and> held Transfer (hist s2) = 3 \<and>
     frame_decoder_safe (ov_loop (obj s2))"
proof -
  obtain s1 s2 s3 where e: "example_session s1 s2 s3"
    using example_session_exists by blast
  note d = example_sessionD [OF e]
  show ?thesis
    using ov_capture_session [OF d(1,2)] d(4,5) e by (auto simp: no_state_def)
qed

theorem ov_capture_stop_ends_witness:
  "\<exists>s1 s2 s3. example_session s1 s2 s3 \<and> held Transfer (hist s3) = 0 \<and>
     lp_state (loop_data (ov_loop (obj s3))) = HOST_READ_OFF \<and> lp_user (loop_data (ov_loop (obj s3))) = 0"
proof -
  obtain s1 s2 s3 where e: "example_session s1 s2 s3"
    using example_session_exists by blast
  note d = example_sessionD [OF e]
  show ?thesis
    using ov_capture_stop_ends [OF d(1,2,3)] e by (auto simp: no_state_def)
qed

end
