(* ===== verification/Tools_Example.thy ===== *)
theory Tools_Example imports
  Tools
  Ov_Capture
begin

text \<open>
  A run of a tool on the device of \<open>fpga_env\<close>: it is created, opened, programmed and started; libusb
  then accepts one transfer only, so both runs of the loop end with an error.
\<close>

lemma fpga_read_reg:
  "\<exists>s'. cha_read_reg_by_name fpga_env name s = Some (Inr 0, s')"
proof -
  have "\<exists>s'. cha_transaction fpga_env a 0 s = Some (Inr 0, s')" for a
    using fpga_exchange [of "hist s" a 0] cha_transaction_exchange [of fpga_env s a 0 0] by blast
  then show ?thesis
    by (simp add: cha_read_reg_by_name_def cha_read_reg_def at_reg_def bindE_def)
qed

lemma fpga_speed: "succeeds (cha_set_usb_speed fpga_env speed)"
proof -
  have "succeeds (poll_go (cha_read_reg_by_name fpga_env UCFG_WCMD))"
    unfolding succeeds_def
  proof
    fix s
    obtain s' where "cha_read_reg_by_name fpga_env UCFG_WCMD s = Some (Inr 0, s')"
      using fpga_read_reg by blast
    then show "\<exists>x s'. poll_go (cha_read_reg_by_name fpga_env UCFG_WCMD) s = Some (Inr x, s')"
      by (subst poll_go.simps) simp
  qed
  moreover have "succeeds (ret ())"
    by (simp add: succeeds_def)
  ultimately show ?thesis
    unfolding cha_set_usb_speed_def cha_write_ulpi_def seqE.simps by (intro succeeds_thenE fpga_write_reg)
qed

lemma fpga_prepare:
  assumes "transfers (hist s) = []"
  shows "\<exists>s'. prepare fpga_env (map_of reg_gperf) n null bufs bf speed s = Some (Inr (), s')"
proof -
  obtain t where t: "ov_new fpga_env (map_of reg_gperf) n null None \<lparr>obj = tool_dev (obj s), hist = hist s\<rparr> = Some (Inr (), t)"
      "bitstream_index (ov_fwpkg (obj t)) = 1" "transfers (hist t) = []"
    using fpga_new [of n null None "\<lparr>obj = tool_dev (obj s), hist = hist s\<rparr>"] assms by auto
  obtain u where u: "ov_open fpga_env bufs bf t = Some (Inr (), u)"
    using fpga_opens [OF t(3), of bufs bf] t(2) by auto
  obtain v where v: "ov_set_usb_speed fpga_env speed u = Some (Inr (), v)"
    using cha_part_succeeds [OF fpga_speed, of speed u] by (auto simp: ov_set_usb_speed_def)
  show ?thesis
    using t(1) u v by (cases t; cases u)
      (simp add: prepare_def create_def or_quit_def in_dev_def thenE_def bindE_def onfail_def zoom_def)
qed

section \<open>The loop\<close>

definition one_submission :: "nat \<Rightarrow> int" where
  "one_submission i = (if i = 0 then 0 else - 1)"

lemma one_submission_run:
  assumes "loop_ready l" and "lp_state (loop_data l) = RUNNING"
  shows "\<exists>l'. cha_loop_run example_usb one_submission cnt l (Inr (- 1)) l' \<and> active_transfers (loop_data l') = 0"
proof -
  let ?b = "loop_begun example_usb one_submission cnt l"
  have b: "lp_state (loop_data ?b) = FATAL_ERROR" "lp_transfer (loop_data ?b) = [Cancelling, Idle, Idle]"
    "active_transfers (loop_data ?b) = 1"
    using assms by (simp_all add: loop_begun_def loop_start_def submit_all.simps transfers_count_def loop_reset_def
        loop_ready_def one_submission_def loop_error_def cha_loop_cancel_transfer_def request_cancel_def
        numeral_3_eq_3 Let_def)
  have step: "loop_step example_usb ?b (cancelled 0 ?b)"
    by (rule cancelled_step) (simp_all add: b)
  have reach: "loop_reaches example_usb ?b (cancelled 0 ?b)"
    by (rule reaches_step [OF reaches_here step])
  have fin: "lp_complete (loop_data (cancelled 0 ?b))" "loop_result (loop_data (cancelled 0 ?b)) = Inr (- 1)"
    "active_transfers (loop_data (cancelled 0 ?b)) = 0"
    by (simp_all add: b cancelled_def transfer_ended_def loop_result_def Let_def)
  then show ?thesis
    using cha_loop_run.run_loop [of l example_usb one_submission cnt "cancelled 0 ?b"] reach assms(2)
    by (intro exI [of _ "cancelled 0 ?b"]) (simp add: loop_begun_def)
qed

section \<open>The whole capture\<close>

lemma fpga_stop_begin: "\<exists>s'. stop_begin fpga_env null s = Some (Inr (), s')"
proof -
  obtain x t where "cha_part (cha_halt_stream fpga_env) s = Some (Inr x, t)"
    using cha_part_succeeds [OF fpga_start(2), of s] by blast
  then show ?thesis
    by (simp add: stop_begin_def thenE_def bindE_def ignore_def)
qed

lemma fpga_stop_end:
  assumes "active_transfers (loop_data (ov_loop (obj s))) = 0"
  shows "\<exists>s'. stop_end fpga_env (Inr (- 1)) s = Some (Inr (- 1), s')"
proof -
  let ?s = "s\<lparr>obj := set_ov_error (obj s) (cha_error (ov_cha (obj s)))\<rparr>"
  obtain s1 where "in_cha (cha_loop_destroy fpga_env (ov_loop (obj s))) ?s = Some (Inr (), s1)"
    using loop_destroy_run [OF assms, of fpga_env ?s] by blast
  moreover obtain s2 where "cha_part (cha_stop_stream fpga_env) s1 = Some (Inr (), s2)"
    using cha_part_succeeds [OF fpga_stop] by auto
  ultimately show ?thesis
    by (simp add: stop_end_def bindE_def thenE_def set_ov_error_def)
qed

lemma start_example:
  fixes s1 :: "'u tool st"
  obtains s2 d where "or_quit fpga_env what (ov_capture_start fpga_env p n (Some f) u) s1 = Some (Inr (), s2)"
    and "ov_capture_dispatch example_usb one_submission cnt (tool_dev (obj s2)) (Inr (- 1)) d" and "capturing d"
proof -
  obtain t where start: "ov_capture_start fpga_env p n (Some f) u (dev_st s1) = Some (Inr (), t)"
    using fpga_capture_start [where p = p and n = n and f = "Some f" and u = u] unfolding succeeds_def by auto
  let ?s2 = "put_dev t s1"
  have start': "or_quit fpga_env what (ov_capture_start fpga_env p n (Some f) u) s1 = Some (Inr (), ?s2)"
    using start by (simp add: or_quit_def in_dev_def zoom_Some dev_st_def put_dev_def)
  note run = ov_capture_start_run [OF start]
  have "lp_state (loop_data (ov_loop (obj t))) = RUNNING"
    using run(3) by (simp add: frame_decoder_init_def packet_decoder_init_def loop_data_def init_data_def)
  then obtain l where l: "cha_loop_run example_usb one_submission cnt (loop_of (obj t)) (Inr (- 1)) l"
    using one_submission_run [of "loop_of (obj t)" cnt] run(1) by (auto simp: capturing_def)
  let ?d = "set_ov_error (put_loop l (obj t)) (cha_error (lp_cha (loop_data l)))"
  have dispatch: "ov_capture_dispatch example_usb one_submission cnt (tool_dev (obj ?s2)) (Inr (- 1)) ?d"
    using ov_capture_dispatch.dispatch [OF l] by (simp add: put_dev_def)
  have "capturing ?d"
    using dispatch_capturing(1) [OF _ dispatch] run(1) by (simp add: put_dev_def)
  then show ?thesis
    using that start' dispatch by blast
qed

lemma stop_example:
  assumes "capturing (tool_dev (obj s))"
  obtains t s' where "ov_capture_stop fpga_env example_usb one_submission null (dev_st s) (Inr (- 1)) t"
    and "in_dev (ov_free fpga_env) (put_dev t s) = Some (Inr (), s')"
proof -
  obtain t1 where t1: "stop_begin fpga_env null (dev_st s) = Some (Inr (), t1)"
    using fpga_stop_begin [of null "dev_st s"] by auto
  note b = stop_begin_run [OF t1]
  obtain m where m: "cha_loop_run example_usb one_submission (- 1) (loop_of (obj t1)) (Inr (- 1)) m"
      "active_transfers (loop_data m) = 0"
    using one_submission_run [of "loop_of (obj t1)" "- 1"] b(1,3) assms by (auto simp: capturing_def dev_st_def)
  obtain t2 where t2: "stop_end fpga_env (Inr (- 1)) (t1\<lparr>obj := put_loop m (obj t1)\<rparr>) = Some (Inr (- 1), t2)"
    using fpga_stop_end [of "t1\<lparr>obj := put_loop m (obj t1)\<rparr>"] m(2) by (auto simp: put_loop_def)
  have stop: "ov_capture_stop fpga_env example_usb one_submission null (dev_st s) (Inr (- 1)) t2"
    by (rule ov_capture_stop.stop [OF t1 m(1) t2])
  obtain w where "ov_free fpga_env \<lparr>obj = tool_dev (obj (put_dev t2 s)), hist = hist (put_dev t2 s)\<rparr> = Some (Inr (), w)"
    using ov_free_run by blast
  then show ?thesis
    using that [OF stop] by (auto simp: in_dev_def zoom_Some)
qed

end
