(* ===== verification/Tools_Spec.thy ===== *)
theory Tools_Spec imports
  Tools_Example
begin

text \<open>
  Properties of the tools: what they hold when they return, what they print, and what the sample does
  with its limit.
\<close>

section \<open>What a tool holds\<close>

lemma in_dev_spends: "spends f g m \<Longrightarrow> spends f g (in_dev m)"
  unfolding in_dev_def by (rule spends_zoom)

lemma print_spends: "spends (\<lambda>_. 0) g (print_out l)" "spends (\<lambda>_. 0) g (print_err l)" "spends (\<lambda>_. 0) g (complain w)"
  unfolding print_out_def print_err_def complain_def by (rule spends_modify)+

lemma free_spends_device: "spends (\<lambda>k. - device_holds k) g (in_dev (ov_free env))"
proof (rule in_dev_spends, rule spendsI)
  fix s s' :: "'a ov_device st" and x k
  obtain t where t: "ov_free env s = Some (Inr (), t)" "held k (hist t) = held k (hist s) - device_holds k"
    using ov_free_run by blast
  show "ov_free env s = Some (Inr x, s') \<Longrightarrow> held k (hist s') = held k (hist s) + - device_holds k"
    and "ov_free env s = Some (Inl Failed, s') \<Longrightarrow> held k (hist s') = held k (hist s) + g k"
    using t by simp_all
qed

lemma ret_spends: "spends (\<lambda>_. 0) g (ret x)"
  by (rule spendsI) auto

lemma cleanup_spends: "spends (\<lambda>k. - device_holds k) g (thenE (complain what) (in_dev (ov_free env)))"
  by (rule spends_thenE [OF print_spends(3) free_spends_device [where g = g]]) simp_all

lemma cleanup_run:
  assumes "thenE (complain what) (in_dev (ov_free env)) s = Some (v, s')"
  shows "v = Inr ()"
proof -
  obtain t where "ov_free env \<lparr>obj = tool_dev (obj s), hist = hist s\<rparr> = Some (Inr (), t)"
    using ov_free_run by blast
  then show ?thesis
    using assms by (simp add: thenE_def bindE_def complain_def in_dev_def zoom_def)
qed

text \<open>A tool between \<open>create\<close> and \<open>ov_free\<close>: a step that fails has freed the device.\<close>

lemma create_then:
  assumes "spends f (\<lambda>k. - device_holds k) m"
  shows "spends (\<lambda>k. device_holds k + f k) (\<lambda>_. 0) (thenE (create env iws n null name) m)"
  unfolding create_def
  by (rule spends_thenE [OF spends_onfail [OF in_dev_spends [OF ov_new_spends] print_spends(2)] assms]) simp_all

lemma quit_then:
  assumes "harmless m" and "spends f (\<lambda>k. - device_holds k) m'"
  shows "spends f (\<lambda>k. - device_holds k) (thenE (or_quit env what m) m')"
  unfolding or_quit_def
  by (rule spends_thenE [OF spends_onfail [OF in_dev_spends [OF assms(1)] cleanup_spends] assms(2)]) simp_all

lemma print_then: "spends f g m \<Longrightarrow> spends f g (thenE (print_out l) m)"
  by (rule spends_thenE [OF print_spends(1)]) (assumption | simp)+

lemmas tool_steps = quit_then ov_open_harmless ov_speed_harmless(2) ov_load_firmware_harmless ret_spends print_then

lemma prepare_spends: "spends device_holds (\<lambda>_. 0) (prepare env iws n null bufs bf speed)"
proof -
  have "spends (\<lambda>k. device_holds k + 0) (\<lambda>_. 0) (prepare env iws n null bufs bf speed)"
    unfolding prepare_def seqE.simps by (intro create_then tool_steps)
  then show ?thesis
    by simp
qed

text \<open>The loader: whatever happens, it returns with nothing held.\<close>

lemma load_main_harmless: "harmless (load_main env iws n null bufs bf reg fwpkg argv)"
proof -
  have "spends (\<lambda>k. - device_holds k) (\<lambda>k. - device_holds k) (thenE (in_dev (ov_free env)) (ret ()))"
    by (rule spends_thenE [OF free_spends_device [where g = "\<lambda>k. - device_holds k"] ret_spends [where g = "\<lambda>_. 0"]])
      simp_all
  then have "spends (\<lambda>k. device_holds k + - device_holds k) (\<lambda>_. 0) (load_main env iws n null bufs bf reg fwpkg argv)"
    unfolding load_main_def Let_def seqE.simps by (intro create_then tool_steps)
  then show ?thesis
    by simp
qed

text \<open>The end of a capture, after the loop has returned.\<close>

lemma after_dispatch_run:
  assumes "thenE (modify_obj f) (after_dispatch r) s = Some (Inr (), s')"
    and "\<And>t. tool_dev (f t) = d"
  shows "hist s' = hist s" and "tool_dev (obj s') = d"
  using assms by (auto simp: after_dispatch_def thenE_def bindE_def complain_def split: if_splits)

lemma capture_ends:
  assumes "capturing d" and "tool_dev (obj s) = d"
    and "ov_capture_stop env usb answer null (dev_st s) q t" and "in_dev (ov_free env) (put_dev t s) = Some (Inr (), s')"
  shows "held k (hist s') = held k (hist s) - 3 * one Transfer k - device_holds k"
proof -
  have "held k (hist t) = held k (hist s) - 3 * one Transfer k"
    using ov_capture_stop_run(5) [OF _ assms(3), of k] assms(1,2) by (simp add: dev_st_def)
  then show ?thesis
    using spendsD(1) [OF free_spends_device assms(4), of k] by (simp add: put_dev_def)
qed

lemma capture_starts:
  assumes "or_quit env what (ov_capture_start env p n f u) s = Some (r, s')"
  shows "r = Inr () \<Longrightarrow> k \<noteq> Memory \<Longrightarrow> held k (hist s') = held k (hist s) + 3 * one Transfer k"
    and "r = Inr () \<Longrightarrow> capturing (tool_dev (obj s'))"
    and "r = Inr () \<Longrightarrow> lp_callback (loop_data (ov_loop (tool_dev (obj s')))) = f \<and>
      lp_user (loop_data (ov_loop (tool_dev (obj s')))) = u \<and>
      lp_state (loop_data (ov_loop (tool_dev (obj s')))) = RUNNING"
    and "r = Inl Failed \<Longrightarrow> k \<noteq> Memory \<Longrightarrow>
      held k (hist s') \<in> {held k (hist s) - device_holds k, held k (hist s) + 3 * one Transfer k - device_holds k}"
proof -
  have ok: "\<exists>t. ov_capture_start env p n f u (dev_st s) = Some (Inr (), t) \<and> s' = put_dev t s" if "r = Inr ()"
    using assms that by (auto simp: or_quit_def in_dev_def zoom_Some dev_st_def put_dev_def)
  show "held k (hist s') = held k (hist s) + 3 * one Transfer k" if "r = Inr ()" "k \<noteq> Memory"
    using ok [OF that(1)] ov_capture_start_run(2) that(2) by (fastforce simp: dev_st_def put_dev_def)
  show "capturing (tool_dev (obj s'))" if "r = Inr ()"
    using ok [OF that] ov_capture_start_run(1) by (auto simp: put_dev_def)
  show "lp_callback (loop_data (ov_loop (tool_dev (obj s')))) = f \<and>
      lp_user (loop_data (ov_loop (tool_dev (obj s')))) = u \<and>
      lp_state (loop_data (ov_loop (tool_dev (obj s')))) = RUNNING" if started: "r = Inr ()"
  proof -
    obtain t where t: "ov_capture_start env p n f u (dev_st s) = Some (Inr (), t)" "s' = put_dev t s"
      using ok [OF started] by blast
    show ?thesis
      using ov_capture_start_run(3) [OF t(1)] t(2)
      by (simp add: put_dev_def frame_decoder_init_def packet_decoder_init_def loop_data_def init_data_def)
  qed
  show "held k (hist s') \<in> {held k (hist s) - device_holds k, held k (hist s) + 3 * one Transfer k - device_holds k}"
    if failed: "r = Inl Failed" and k: "k \<noteq> Memory"
  proof -
    obtain t where t: "ov_capture_start env p n f u (dev_st s) = Some (Inl Failed, t)"
        "thenE (complain what) (in_dev (ov_free env)) (put_dev t s) = Some (Inr (), s')"
    proof -
      obtain q w where w: "in_dev (ov_capture_start env p n f u) s = Some (q, w)" "q = Inl Failed"
        using assms failed by (auto simp: or_quit_def onfail_def split: option.splits sum.splits error.splits)
      obtain v where "thenE (complain what) (in_dev (ov_free env)) w = Some (v, s')"
        using assms failed w by (auto simp: or_quit_def onfail_def split: option.splits sum.splits)
      moreover obtain t where "ov_capture_start env p n f u (dev_st s) = Some (Inl Failed, t)" "w = put_dev t s"
        using w by (auto simp: in_dev_def zoom_Some dev_st_def put_dev_def)
      moreover have "v = Inr ()"
        using cleanup_run [OF calculation(1)] .
      ultimately show ?thesis
        using that by blast
    qed
    show ?thesis
      using ov_capture_start_failed(2) [OF t(1) k]
        spendsD(1) [OF cleanup_spends t(2), of k]
      by (auto simp: put_dev_def dev_st_def)
  qed
qed

section \<open>What a tool prints\<close>

text \<open>The library prints nothing.\<close>

interpretation quiet: contract "\<lambda>s s'. tool_out (obj s') = tool_out (obj s)" "\<lambda>e s. True"
  by unfold_locales simp_all

lemma in_dev_quiet: "quiet.keeps (in_dev m)"
  by (rule quiet.keepsI) (auto simp: in_dev_def zoom_Some)

lemma complain_quiet: "quiet.keeps (complain what)" "quiet.keeps (print_err line)"
  by (rule quiet.keepsI, simp add: complain_def print_err_def)+

lemma or_quit_quiet: "quiet.keeps (or_quit env what m)"
  unfolding or_quit_def by (intro quiet.keeps_intros in_dev_quiet complain_quiet)

lemma prepare_quiet: "quiet.keeps (prepare env iws n null bufs bf speed)"
  unfolding prepare_def create_def seqE.simps
  by (intro quiet.keeps_intros in_dev_quiet complain_quiet or_quit_quiet)

section \<open>The callback of the sample\<close>

definition sample_prints :: "string list \<Rightarrow> string list \<Rightarrow> bool" where
  "sample_prints ls ls' \<longleftrightarrow> (\<exists>ps. ls' = ls @ map sample_line ps)"

lemma sample_handler_moves: "moves_by sample_handler sample_prints"
proof -
  have "sample_prints ls (ls @ map sample_line (ps @ qs))" for ls ps qs
    unfolding sample_prints_def by blast
  then have "transp sample_prints"
    by (auto simp: transp_def sample_prints_def)
  moreover have "sample_prints ls ls" for ls
    unfolding sample_prints_def by (intro exI [of _ "[]"]) simp
  moreover have "sample_prints ls (ls @ [sample_line p])" for ls p
    unfolding sample_prints_def by (intro exI [of _ "[p]"]) simp
  ultimately show ?thesis
    by (auto simp: moves_by_def reflp_def sample_handler_def)
qed

lemma sample_handler_counts: "counts_calls sample_handler (\<lambda>ls. int (length ls))"
  by (simp add: counts_calls_def sample_handler_def)

text \<open>The dispatch of the sample, with its limit of 100.\<close>

lemma sample_dispatch:
  assumes "capturing d" and "lp_callback (loop_data (ov_loop d)) = Some sample_handler"
    and "lp_user (loop_data (ov_loop d)) = []" and "lp_state (loop_data (ov_loop d)) = RUNNING"
    and "ov_capture_dispatch usb answer 100 d (Inr r) d'"
  obtains ps where "lp_user (loop_data (ov_loop d')) = map sample_line ps" and "length ps \<le> 101"
    and "0 < r \<Longrightarrow> r = 101 \<and> length ps = 101" and "capturing d'"
proof -
  obtain l where run: "cha_loop_run usb answer 100 (loop_of d) (Inr r) l"
    and d': "d' = (if Inr r = (Inr (- 1) :: error + int) then set_ov_error (put_loop l d) (cha_error (lp_cha (loop_data l)))
      else put_loop l d)"
    using assms(5) by (rule dispatchE)
  have user: "lp_user (loop_data (ov_loop d')) = lp_user (loop_data l)"
    by (simp add: d' put_loop_def set_ov_error_def)
  note c = dispatch_capturing [OF assms(1,5)]
  obtain ps where ps: "lp_user (loop_data (ov_loop d')) = map sample_line ps"
    using c(4) [OF assms(2) sample_handler_moves] assms(3) by (auto simp: sample_prints_def)
  note limit = loop_count_limit [OF assms(1) [unfolded capturing_def] _ _ _ sample_handler_counts run]
  have "int (length ps) \<le> 101" "lp_state (loop_data l) = COUNT_LIMIT \<longrightarrow> int (length ps) = 101 \<and> r = 101"
    using limit assms(2-4) ps user by simp_all
  moreover have "lp_state (loop_data l) = COUNT_LIMIT" if "0 < r"
    using cha_loop_run_outcome [OF assms(1) [unfolded capturing_def] run] that by auto
  ultimately show ?thesis
    using that [OF ps] c(1) by auto
qed

section \<open>Property\<close>


text \<open>A sample whose capture breaks off at once.\<close>

definition sample_start :: "string list tool st" where
  "sample_start = \<lparr>obj = \<lparr>tool_dev = ov_zero [], tool_out = [], tool_err = []\<rparr>, hist = []\<rparr>"

lemma sample_start_empty: "transfers (hist sample_start) = []"
  and sample_start_printed: "tool_out (obj sample_start) = []"
  by (simp_all add: sample_start_def)


end
