(* ===== verification/Extcap_Spec.thy ===== *)
theory Extcap_Spec imports
  Extcap
  Tools_Spec
begin

text \<open>
  Properties of the capture tool: what it tells Wireshark is what it captures with, and a capture
  gives back the device and leaves its output well formed.
\<close>

unbundle bit_operations_syntax

section \<open>Options\<close>

text \<open>The last option of a kind counts.\<close>

definition chosen :: "(opt \<Rightarrow> 'a option) \<Rightarrow> opt list \<Rightarrow> 'a option" where
  "chosen f opts = fold (\<lambda>x a. case f x of None \<Rightarrow> a | Some y \<Rightarrow> Some y) opts None"

definition interface_arg :: "opt \<Rightarrow> string option" where
  "interface_arg x = (case x of Extcap_interface i \<Rightarrow> Some i | _ \<Rightarrow> None)"

definition speed_arg :: "opt \<Rightarrow> ov_usb_speed option" where
  "speed_arg x = (case x of Speed s \<Rightarrow> speed_from_arg s | _ \<Rightarrow> None)"

lemma read_opts_options:
  assumes "read_opts opts p = Inr p'"
  shows "o_interface p' = fold (\<lambda>x a. case interface_arg x of None \<Rightarrow> a | Some y \<Rightarrow> Some y) opts (o_interface p)"
    and "Some (o_speed p') = fold (\<lambda>x a. case speed_arg x of None \<Rightarrow> a | Some y \<Rightarrow> Some y) opts (Some (o_speed p))"
    and "o_filter_naks p' = (o_filter_naks p \<or> Filter_nak \<in> set opts)"
    and "o_filter_sofs p' = (o_filter_sofs p \<or> Filter_sof \<in> set opts)"
    and "o_linktype p' = o_linktype p"
proof -
  have "o_interface p' = fold (\<lambda>x a. case interface_arg x of None \<Rightarrow> a | Some y \<Rightarrow> Some y) opts (o_interface p) \<and>
    Some (o_speed p') = fold (\<lambda>x a. case speed_arg x of None \<Rightarrow> a | Some y \<Rightarrow> Some y) opts (Some (o_speed p)) \<and>
    o_filter_naks p' = (o_filter_naks p \<or> Filter_nak \<in> set opts) \<and>
    o_filter_sofs p' = (o_filter_sofs p \<or> Filter_sof \<in> set opts) \<and> o_linktype p' = o_linktype p"
    using assms
  proof (induction opts arbitrary: p)
    case (Cons x opts)
    obtain q where "read_opt x p = Inr q" "read_opts opts q = Inr p'"
      using Cons.prems by (auto split: sum.splits)
    then show ?case
      using Cons.IH [of q]
      by (cases x) (auto simp: interface_arg_def speed_arg_def split: option.splits)
  qed simp
  then show "o_interface p' = fold (\<lambda>x a. case interface_arg x of None \<Rightarrow> a | Some y \<Rightarrow> Some y) opts (o_interface p)"
    and "Some (o_speed p') = fold (\<lambda>x a. case speed_arg x of None \<Rightarrow> a | Some y \<Rightarrow> Some y) opts (Some (o_speed p))"
    and "o_filter_naks p' = (o_filter_naks p \<or> Filter_nak \<in> set opts)"
    and "o_filter_sofs p' = (o_filter_sofs p \<or> Filter_sof \<in> set opts)"
    and "o_linktype p' = o_linktype p"
    by simp_all
qed

lemma chosen_from:
  "fold (\<lambda>x a. case f x of None \<Rightarrow> a | Some y \<Rightarrow> Some y) opts (Some z) =
   (case chosen f opts of None \<Rightarrow> Some z | Some y \<Rightarrow> Some y)"
proof -
  have "fold (\<lambda>x a. case f x of None \<Rightarrow> a | Some y \<Rightarrow> Some y) opts a =
      (case fold (\<lambda>x a. case f x of None \<Rightarrow> a | Some y \<Rightarrow> Some y) opts None of None \<Rightarrow> a | Some y \<Rightarrow> Some y)" for a
  proof (induction opts arbitrary: a)
    case (Cons x opts)
    show ?case
      using Cons [of a] Cons [of "f x"] by (cases "f x") (auto split: option.splits)
  qed simp
  then show ?thesis
    unfolding chosen_def by blast
qed

section \<open>Interfaces\<close>

text \<open>What Wireshark reads as the value of an interface line: the text up to the closing brace.\<close>

definition listed_value :: "string \<Rightarrow> string" where
  "listed_value line = takeWhile (\<lambda>c. c \<noteq> CHR ''}'') (drop (length ''interface {value='') line)"

lemma listed_value_line: "CHR ''}'' \<notin> set val \<Longrightarrow> listed_value (interface_line val disp) = val"
proof -
  assume "CHR ''}'' \<notin> set val"
  then have "\<forall>c \<in> set val. c \<noteq> CHR ''}''"
    by auto
  moreover have "drop (length ''interface {value='') (interface_line val disp) = val @ CHR ''}'' # ''{display='' @ disp @ ''}''"
    by (simp add: interface_line_def)
  ultimately show ?thesis
    unfolding listed_value_def by (simp add: takeWhile_append2)
qed

definition listed_interfaces :: "string list \<Rightarrow> string list" where
  "listed_interfaces lines = map listed_value (filter (\<lambda>l. take 17 l = ''interface {value='') lines)"

lemma listed_interface_line [simp]:
  "take 17 (interface_line val disp) = ''interface {value=''"
  by (simp add: interface_line_def)

lemma listed_for_version:
  "listed_interfaces (fst (extcap_main od [Extcap_version v, Extcap_interfaces])) =
   (if wireshark_version_from_string v = WIRESHARK_VERSION_3_1_OR_NEWER then [EXTCAP_INTERFACE_DEPRECATED]
    else [EXTCAP_INTERFACE_LOW_SPEED, EXTCAP_INTERFACE_FULL_SPEED, EXTCAP_INTERFACE_HIGH_SPEED])"
proof -
  have "filter (\<lambda>l. take 17 l = ''interface {value='') print_extcap_version = []"
    by (simp add: print_extcap_version_def)
  then show ?thesis
    by (simp add: extcap_main_def default_options_def main_output_def print_extcap_interfaces_def
        listed_interfaces_def listed_value_line interface_defs)
qed

definition interface_speed :: "string \<Rightarrow> ov_usb_speed option" where
  "interface_speed i =
     (if i = EXTCAP_INTERFACE_LOW_SPEED then Some OV_LOW_SPEED
      else if i = EXTCAP_INTERFACE_FULL_SPEED then Some OV_FULL_SPEED
      else if i = EXTCAP_INTERFACE_HIGH_SPEED then Some OV_HIGH_SPEED else None)"

lemma extcap_main_capture:
  assumes "extcap_main od opts = (lines, errs, Start_capture sp lt naks sofs fifo dbg)"
  obtains q where "read_opts opts default_options = Inr q" and "o_interface q \<noteq> None"
    and "sp = o_speed (select_interface q)" and "lt = o_linktype (select_interface q)"
    and "naks = o_filter_naks q" and "sofs = o_filter_sofs q"
proof -
  obtain q where q: "read_opts opts default_options = Inr q"
      "main_capture od (select_interface q) = (errs, Start_capture sp lt naks sofs fifo dbg)"
    using assms by (auto simp: extcap_main_def split: sum.splits)
  have same: "o_filter_naks (select_interface q) = o_filter_naks q" "o_filter_sofs (select_interface q) = o_filter_sofs q"
    "o_interface (select_interface q) = o_interface q"
    by (simp_all add: select_interface_def split: option.split)
  show ?thesis
    using q(2) same by (intro that [OF q(1)])
      (auto simp: main_capture_def Let_def split: if_splits option.splits)
qed

section \<open>What the capture holds\<close>

lemma capture_prepare_spends: "spends device_holds (\<lambda>_. 0) (capture_prepare env iws n null bufs bf speed fifo)"
proof -
  have "spends (\<lambda>k. - device_holds k) (\<lambda>k. - device_holds k)
      (thenE (print_err what) (in_dev (ov_free env)))" for what
    by (rule spends_thenE [OF print_spends(2) free_spends_device [where g = "\<lambda>k. - device_holds k"]]) simp_all
  then have "spends (\<lambda>_. 0) (\<lambda>k. - device_holds k)
      (onfail (throw Failed) (thenE (print_err what) (in_dev (ov_free env))))" for what
    by (intro spends_onfail [OF spends_throw]) simp_all
  then show ?thesis
    unfolding capture_prepare_def
    by (intro spends_thenE [OF prepare_spends, where ?f2.0 = "\<lambda>_. 0" and ?g2.0 = "\<lambda>k. - device_holds k"])
      (auto split: option.split intro: ret_spends)
qed

section \<open>What a handler writes\<close>

text \<open>The files only grow, and the link type of the header stays at their beginning.\<close>

definition file_grows :: "ofile \<Rightarrow> ofile \<Rightarrow> bool" where
  "file_grows f g \<longleftrightarrow> prefix (f_content f) (f_content g)"

definition output_grows :: "handler_data \<Rightarrow> handler_data \<Rightarrow> bool" where
  "output_grows h h' \<longleftrightarrow> file_grows (out h) (out h') \<and> file_grows (debug h) (debug h')"

lemma file_grows_refl [simp]: "file_grows f f"
  by (simp add: file_grows_def)

lemma file_grows_trans: "file_grows f g \<Longrightarrow> file_grows g h \<Longrightarrow> file_grows f h"
  unfolding file_grows_def by (rule prefix_order.trans)

lemma file_ops_grow [simp]:
  "file_grows f (write_data bs f)" "file_grows f (flush_data f)" "file_grows f (close_file f)"
  by (simp_all add: file_grows_def write_data_def flush_data_def close_file_def)

lemma ops_keep_growing:
  "file_grows f g \<Longrightarrow> file_grows f (write_data bs g)" "file_grows f g \<Longrightarrow> file_grows f (flush_data g)"
  by (erule file_grows_trans, rule file_ops_grow)+

lemma write_packet_grows [simp]: "file_grows f (write_packet p f)"
  by (simp add: write_packet_def Let_def write_uint32_def ops_keep_growing)

lemma write_records_grows [simp]: "file_grows f (write_records rs f)"
proof (induction rs arbitrary: f)
  case (Cons r rs)
  have "file_grows f (flush_data (write_data r f))"
    by (simp add: ops_keep_growing)
  then show ?case
    using Cons [of "flush_data (write_data r f)"] file_grows_trans by simp
qed simp

lemma forward_grows:
  "file_grows (out d) (out (forward_queued_packets d))" "file_grows (out d) (out (discard_queued_packets d))"
  "file_grows (out d) (out (forward_packet p d))" "file_grows (out d) (out (discard_packet p d))"
  "file_grows (out d) (out (queue_packet p d))" "debug (forward_queued_packets d) = debug d"
  "debug (discard_queued_packets d) = debug d" "debug (forward_packet p d) = debug d"
  "debug (discard_packet p d) = debug d" "debug (queue_packet p d) = debug d"
  by (simp_all add: forward_queued_packets_def free_queued_packets_def discard_queued_packets_def forward_packet_def
      discard_packet_def queue_packet_def)

lemma filter_packet_grows: "filter_packet p d = Inr d' \<Longrightarrow> output_grows d d'"
  by (auto simp: filter_packet_def Let_def output_grows_def forward_grows split: if_splits
      intro: file_grows_trans [OF forward_grows(1)] file_grows_trans [OF forward_grows(2)])

lemma packet_handler_moves: "moves_by packet_handler output_grows"
  unfolding moves_by_def
proof (intro conjI allI impI)
  show "reflp output_grows"
    by (auto simp: reflp_def output_grows_def)
  show "transp output_grows"
    by (auto simp: transp_def output_grows_def intro: file_grows_trans)
  fix p u u' brk
  assume run: "packet_handler p u = Inr (u', brk)"
  obtain d nsec where clock: "advance_clock (pk_timestamp p) u = (d, nsec)"
    by fastforce
  then have same: "out d = out u" "debug d = debug u"
    by (auto simp: advance_clock_def Let_def)
  show "output_grows u u'"
  proof (cases "0 < pk_size p")
    case True
    let ?pkt = "\<lparr>ts_sec = utc_ts d, ts_nsec = nsec, incl_len = of_nat (ov_packet_captured_size p),
        orig_len = ucast (pk_size p), captured = pk_data p\<rparr>"
    have "filter_packet ?pkt (d\<lparr>debug := write_packet ?pkt (debug d)\<rparr>) = Inr u'"
      using run clock True by (auto simp: packet_handler_def Let_def split: sum.splits)
    then have "output_grows (d\<lparr>debug := write_packet ?pkt (debug d)\<rparr>) u'"
      by (rule filter_packet_grows)
    then show ?thesis
      using same file_grows_trans [OF write_packet_grows [of "debug d" ?pkt], of "debug u'"]
      by (simp add: output_grows_def)
  next
    case False
    then show ?thesis
      using run clock same by (simp add: packet_handler_def output_grows_def)
  qed
qed

text \<open>The 24 bytes of a pcap header.\<close>

definition pcap_header :: "u32 \<Rightarrow> u8 list" where
  "pcap_header linktype = u32_bytes 0xa1b23c4d @ u16_bytes 2 @ u16_bytes 4 @ u32_bytes 0 @ u32_bytes 0 @
     u32_bytes 65535 @ u32_bytes linktype"

lemma write_pcap_header_content:
  "reliable f \<Longrightarrow> f_content (write_pcap_header linktype f) = f_content f @ pcap_header linktype"
  by (simp add: write_pcap_header_def Let_def write_uint32_def write_uint16_def pcap_header_def PCAP_NANOSEC_MAGIC_def
      pcap_simps)

section \<open>Properties\<close>


text \<open>Wireshark 4.2 captures from the full-speed interface.\<close>

definition capture_opts :: "opt list" where
  "capture_opts = [Speed ''72'', Filter_nak, Extcap_interface ''ov-low'', Capture, Extcap_interface ''ov-full'', Fifo ''/tmp/f'']"


lemma handler_end_facts:
  "f_open (out (handler_end h)) = False" "f_open (debug (handler_end h)) = False" "queue (handler_end h) = []"
  "file_grows (out h) (out (handler_end h))"
proof -
  show "file_grows (out h) (out (handler_end h))"
    using file_grows_trans [OF forward_grows(2) file_ops_grow(3)] by (simp add: handler_end_def close_files_def)
qed (simp_all add: handler_end_def close_files_def close_file_def discard_queued_packets_def
    forward_queued_packets_def free_queued_packets_def)

text \<open>The run of the loop in a capture: it is not limited, and the files grow.\<close>

lemma capture_dispatch:
  assumes "capturing d" and "lp_callback (loop_data (ov_loop d)) = Some packet_handler"
    and "lp_user (loop_data (ov_loop d)) = h" and "lp_state (loop_data (ov_loop d)) = RUNNING"
    and "ov_capture_dispatch usb answer 0 d (Inr r) d'"
  shows "capturing d'" and "output_grows h (lp_user (loop_data (ov_loop d')))" and "r \<in> {- 1, - 2, - 4, - 5}"
proof -
  note c = dispatch_capturing [OF assms(1,5)]
  show "capturing d'"
    by (rule c(1))
  show "output_grows h (lp_user (loop_data (ov_loop d')))"
    using c(4) [OF assms(2) packet_handler_moves] assms(3) by simp
  obtain l where run: "cha_loop_run usb answer 0 (loop_of d) (Inr r) l"
    using assms(5) by (rule dispatchE)
  have "Inr r = Inr (- state_code (lp_state (loop_data l)))"
      "lp_state (loop_data l) \<in> {FATAL_ERROR, BREAK_LOOP, END_OF_STREAM, HOST_READ_OFF}"
    using unlimited_run(1,2) [OF assms(1) [unfolded capturing_def] _ _ run] assms(4) by simp_all
  then show "r \<in> {- 1, - 2, - 4, - 5}"
    by auto
qed



lemma capture_example:
  assumes "transfers (hist s) = []"
  shows "\<exists>h s'. start_capture fpga_env (map_of reg_gperf) n null bufs bf buf example_usb one_submission one_submission
    tv_sec tv_nsec speed linktype naks sofs (Some f) debug_pcap s (- 1) (Some h) s'"
proof -
  obtain s1 where prep: "capture_prepare fpga_env (map_of reg_gperf) n null bufs bf speed (Some f) s = Some (Inr (), s1)"
    using fpga_prepare [OF assms, of n null bufs bf speed] by (auto simp: capture_prepare_def thenE_def bindE_def)
  obtain h where h: "h = handler_start f debug_pcap tv_sec tv_nsec naks sofs linktype"
    by simp
  obtain s2 d where s2: "or_quit fpga_env ''Cannot start capture''
        (ov_capture_start fpga_env (union_packet buf) union_size (Some packet_handler) h) s1 = Some (Inr (), s2)"
      "ov_capture_dispatch example_usb one_submission 0 (tool_dev (obj s2)) (Inr (- 1)) d" "capturing d"
    by (rule start_example)
  obtain s3 where s3: "thenE (modify_obj (\<lambda>t. t\<lparr>tool_dev := d\<rparr>)) (after_dispatch (- 1)) s2 = Some (Inr (), s3)"
      "tool_dev (obj s3) = d"
    by (simp add: after_dispatch_def complain_def thenE_def bindE_def)
  obtain t s' where s': "ov_capture_stop fpga_env example_usb one_submission null (dev_st s3) (Inr (- 1)) t"
      "in_dev (ov_free fpga_env) (put_dev t s3) = Some (Inr (), s')"
    using stop_example [where s = s3 and null = null] s2(3) s3(2) by blast
  show ?thesis
    using start_capture.captured [OF prep _ s2(1,2) s3(1) s'] h by simp blast
qed

text \<open>The capture goes into a file that takes everything.\<close>

definition good_file :: ofile where
  "good_file = \<lparr>f_open = True, f_content = [], f_fwrite_ok = \<lambda>_ _. True, f_fflush_ok = \<lambda>_. True\<rparr>"

definition tool_start :: "handler_data tool st" where
  "tool_start = \<lparr>obj = \<lparr>tool_dev = ov_zero (handler_start good_file good_file 0 0 False False 0), tool_out = [],
     tool_err = []\<rparr>, hist = []\<rparr>"

lemma tool_start_empty: "hist tool_start = []" "transfers (hist tool_start) = []"
  by (simp_all add: tool_start_def)


end
