(* ===== verification/Spec2Isabelle.thy ===== *)
theory Spec2Isabelle imports
  Bit_Spec
  Capture
  Fwpkg_Spec
  Reg_Spec
  Chb_Spec
  Cha_Spec
  Extcap_Spec
begin

text \<open>
  A verification of libopenvizsla, the library and the tools that capture USB traffic with an
  OpenVizsla, an FTDI chip with an FPGA behind it.

  \<^bold>\<open>The program.\<close>  \<open>src/ov.c\<close> is the library's interface.  \<open>ov_new\<close> opens a firmware package, a zip file
  with a register map and a bitstream (\<open>src/fwpkg.c\<close>), and loads the map (\<open>src/reg.c\<close>).  \<open>ov_open\<close> opens
  the two interfaces of the chip, B for the configuration pins of the FPGA (\<open>src/chb.c\<close>) and A for its
  registers and its data (\<open>src/cha.c\<close>); it parses the bitstream and sends it to the FPGA (\<open>src/bit.c\<close>).
  A capture starts streaming over registers, and \<open>cha_loop_run\<close> (\<open>src/cha.c\<close>) then keeps three USB
  transfers in flight; what they bring goes through two nested state machines (\<open>src/decoder.c\<close>), the
  frame decoder and the packet decoder, into the callback of the client.  The clients are \<open>tools/load\<close>,
  \<open>tools/sample\<close> and \<open>tools/ovextcap\<close>, which serves Wireshark: its callback filters packets with a
  look-ahead of a few packets and writes pcap records.

  \<^bold>\<open>How the code is modelled.\<close>  Structures are records, enumerations are datatypes, integers have their
  width (\<open>u8\<close> to \<open>u64\<close> are words; a \<open>size_t\<close> that may wrap is written with \<open>size_sub\<close> or \<open>mod 2 ^ 64\<close>).
  A function that returns -1 and sets an error string is a program \<open>('c st, 'a) prog\<close> (\<open>Prelude\<close>,
  \<open>Platform\<close>): from a state with the object and the history of all library calls to a result or an
  \<open>error\<close>.  \<open>Failed\<close> is -1; \<open>Assertion\<close>, \<open>Out_of_bounds\<close> and \<open>Null_pointer\<close> are the ends that C does not
  survive, as values, so that their absence is something to prove.  \<open>onfail\<close> is a \<open>goto fail\<close> with its
  clean-up code.  \<open>None\<close> is a loop that does not end.

  libftdi, libusb, libzip, the allocator and the clock are a parameter: an \<open>env\<close> answers every call,
  depending on all calls made before, and \<open>usb\<close> is what the capture loop uses of libusb.  Theorems hold for
  every \<open>env\<close>, or state as hypotheses what they need of the device (\<open>Cha_Device\<close>, \<open>Register_Bus\<close>) or
  of the package (\<open>Fwpkg_Spec.delivers_file\<close>).  Also a parameter: the hash function that gperf generates
  (\<open>iws\<close>; \<open>Reg.reg_gperf\<close> is the table it has to implement), the initial contents of buffers, what
  \<open>getopt_long\<close> reports, and how files answer to writes.

  \<^bold>\<open>The theories.\<close>  \<open>X\<close> holds the model of a part and its basic rules, \<open>X_Spec\<close> its properties.
  \<^item> \<open>Prelude\<close>, \<open>Platform\<close>, \<open>Resources\<close>: words, results and programs; library calls; what a program holds
    (memory, archives, files, contexts, transfers), with rules that follow the control flow.
  \<^item> \<open>Packet\<close>: \<open>include/openvizsla.h\<close>.
  \<^item> \<open>Packet_Decoder\<close>, \<open>Frame_Decoder\<close> (\<open>src/decoder.c\<close>), \<open>Decoder_Spec\<close>: each \<open>switch\<close> is a step function,
    the loops end by a measure.  With storage for any packet, no input makes an assertion fail or writes out of
    bounds; the decoder is the same for every way of cutting the stream; a stream of encoded packets comes
    back exactly.  \<open>Streaming\<close> and \<open>Decoder_Client\<close> are its interfaces.
  \<^item> \<open>Pcap\<close>, \<open>Nak_Filter\<close>, \<open>Filter_Spec\<close> (\<open>tools/ovextcap/main.c\<close>): files that may break at any write, the
    filter with its queue, the clock of the packet handler; the output against a specification that
    looks ahead in the list of packets.
  \<^item> \<open>Reg\<close>, \<open>Reg_Spec\<close> (\<open>src/reg.c\<close>, \<open>src/reg.gperf\<close>); \<open>Fwpkg\<close>, \<open>Fwpkg_Spec\<close> (\<open>src/fwpkg.c\<close>); \<open>Chb\<close>, \<open>Chb_Spec\<close>
    (\<open>src/chb.c\<close>); \<open>Bit\<close>, \<open>Bit_Spec\<close> (\<open>src/bit.c\<close>): parsers with round trips and all their outcomes, resources
    given back on every path, what exactly is sent to the device.
  \<^item> \<open>Cha\<close>, \<open>Cha_Rules\<close>, \<open>Cha_Device\<close>, \<open>Cha_Spec\<close> (\<open>src/cha.c\<close>, registers): transactions, synchronisation,
    32-bit registers and the phy behind them, on a device that follows the laws of \<open>Register_Bus\<close>; which
    messages a function sends; that every failure is reported.
  \<^item> \<open>Cha_Loop\<close>, \<open>Cha_Loop_Rules\<close>, \<open>Cha_Loop_Spec\<close> (\<open>src/cha.c\<close>, capture loop): \<open>loop_step\<close> is one thing that
    happens while libusb handles events: a transfer that ends, in any order and with any status, an
    error, another thread that breaks the loop.  The invariant \<open>loop_inv\<close> of all reachable states gives the
    assertions of the code, the draining of a stopped loop, the limit.
  \<^item> \<open>Capture\<close>: transfers in, pcap records out, through the loop, both decoders and the packet handler.  The
    theorem at the end of this theory puts it between \<open>ov_capture_start\<close> and the closed file.
  \<^item> \<open>Ov\<close>, \<open>Ov_Rules\<close>, \<open>Ov_Spec\<close>, \<open>Ov_Firmware\<close>, \<open>Ov_Capture\<close> (\<open>src/ov.c\<close>): all exported functions; a device
    gives back all it took, an opened one has been programmed with the bitstream of its package, and a
    capture session stays well formed until \<open>ov_capture_stop\<close> has ended it.
  \<^item> \<open>Tools\<close>, \<open>Tools_Spec\<close>, \<open>Extcap\<close>, \<open>Extcap_Spec\<close> (\<open>tools/\<close>): the programs, what they print, hold and write.
    \<open>Tools_Example\<close> is a run of them on a concrete device.

  \<^bold>\<open>Interfaces.\<close>  \<open>streaming_decoder\<close> (the frame decoder provides it, chunk independence rests on it),
  \<open>decoder_client\<close> and \<open>decoder_symmetry\<close> (what the two callbacks of a decoder may do; the capture loop
  provides them), \<open>record_queue\<close> (the queue of the filter), \<open>byte_bus\<close>, \<open>register_bus\<close> and \<open>ulpi_bus\<close> (the
  registers; the operations of \<open>Cha\<close> provide them on every device that echoes), \<open>contract\<close> (what every
  step of a program keeps; the error reporting of all objects and the silence of the library are
  instances).

  \<^bold>\<open>Loops and their ends.\<close>  There is no fuel.  Loops over data are functions with a measure.  Loops that wait
  for the device (\<open>read_nonempty\<close>, \<open>sync_loop\<close>, \<open>poll_go\<close>), \<open>read_reg32_loop\<close>, whose counter may wrap, and
  \<open>transfer_packets\<close>, which does not end for a packet size of 0, are partial functions; that they return is
  proved under the laws of the device (\<open>Cha_Spec.cha_usb_speed_roundtrip\<close>,
  \<open>Cha_Spec.cha_sync_stream_finds_echo\<close>).  \<open>cha_loop_run\<close> is a relation, as it depends on the order of
  events; that it ends is \<open>Cha_Loop_Spec.cha_loop_drains\<close>, and when it does not is
  \<open>Cha_Loop_Spec.cha_loop_run_hangs\<close>.  Numbers that bound something are the code's: three transfers, a limit
  of n that delivers n + 1, 15 calls at most for the program mode, three polls of DONE, two queued records.

  \<^bold>\<open>Not modelled.\<close>  The Windows and macOS variants of \<open>fwpkg_init_from_preload\<close>, which only find the address
  and the size of the same buffer (their resource calls are not libzip's); the signal handler of the
  sample, which prints; the functions that return a stored error string, which are record selectors here;
  the include guards and prototypes of the headers; the tests and the build files.  The buffers of the
  transfers are freed by libusb together with the transfer, so \<open>Memory\<close> is left out where \<open>held\<close> is
  stated across a capture.  Threads other than the one that breaks the loop are not considered.
\<close>

section \<open>From the start of a capture to the closed file\<close>

lemma started_loop:
  fixes usb :: usb
  assumes "ov_capture_start env p n (Some f) u s = Some (Inr (), s1)"
    and "8191 \<le> length (pk_data p)" and "0 < n" and "\<forall>i<3. 0 \<le> answer i"
  defines "l \<equiv> loop_begun usb answer 0 (loop_of (obj s1))"
  shows "fresh_loop l"
    and "lp_callback (loop_data l) = Some f" and "lp_user (loop_data l) = u" and "max_count (loop_data l) = 0"
    and "packet (fd_pd l) = p" and "cha_reg (lp_cha (loop_data l)) = cha_reg (ov_cha (obj s1))"
    and "lp_state (loop_data (ov_loop (obj s1))) = RUNNING"
proof -
  note run = ov_capture_start_run [OF assms(1)]
  have ready: "loop_ready (loop_of (obj s1))"
    using run(1) by (simp add: capturing_def)
  show "lp_state (loop_data (ov_loop (obj s1))) = RUNNING"
    using run(3) by (simp add: frame_decoder_init_def packet_decoder_init_def loop_data_def init_data_def)
  moreover have "lp_callback (loop_data (ov_loop (obj s1))) = Some f"
    "lp_user (loop_data (ov_loop (obj s1))) = u"
    using run(3) by (simp_all add: frame_decoder_init_def packet_decoder_init_def loop_data_def init_data_def)
  ultimately have data: "lp_state (loop_data (loop_of (obj s1))) = RUNNING" "lp_callback (loop_data (loop_of (obj s1))) = Some f"
    "lp_user (loop_data (loop_of (obj s1))) = u" "lp_cha (loop_data (loop_of (obj s1))) = ov_cha (obj s1)"
    by simp_all
  have decoder: "fd_state (loop_of (obj s1)) = NEED_FRAME_MAGIC" "cumulative_ts (fd_pd (loop_of (obj s1))) = 0"
    "pd_state (fd_pd (loop_of (obj s1))) = NEED_PACKET_MAGIC" "packet (fd_pd (loop_of (obj s1))) = p"
    using run(3) by (simp_all add: frame_decoder_init_def packet_decoder_init_def loop_of_def on_loop_def)
  have safe: "frame_decoder_safe (loop_of (obj s1))"
    using run(5) [OF assms(2,3)] by (simp add: loop_of_def)
  show "fresh_loop l"
    unfolding l_def by (rule loop_begun_fresh [OF ready safe data(1) decoder(1-3) assms(4)])
  show "lp_callback (loop_data l) = Some f" "max_count (loop_data l) = 0"
    "cha_reg (lp_cha (loop_data l)) = cha_reg (ov_cha (obj s1))"
    unfolding l_def using loop_begun_running(2-4) [OF ready data(1) assms(4), of usb 0] data(2,4) by simp_all
  show "lp_user (loop_data l) = u"
    unfolding l_def using loop_begun_facts(3) [OF ready] data(3) by simp
  show "packet (fd_pd l) = p"
    using decoder(4) by (simp add: l_def loop_begun_def on_loop_def)
qed

text \<open>
  C1: End to end.  A capture is started with the packet handler of \<open>ovextcap\<close> and storage for any packet.
  The device sends packets, encoded, cut into SDRAM frames in any way with harmless bus frames in
  between; the stream is cut into USB packets with two header bytes each, and these into transfers that
  complete in any order of the three.  Then the loop has processed all of them, is still running, and can
  be broken off by another thread, upon which \<open>ov_capture_dispatch\<close> returns -2; and the closed pcap file
  has exactly one record for every packet that the look-ahead specification of the filter keeps, in order,
  with the exact capture times.
\<close>

theorem session_end_to_end:
  assumes "ov_capture_start env p n (Some packet_handler) h s = Some (Inr (), s1)"
    and "8191 \<le> length (pk_data p)" and "0 < n" and "\<forall>i<3. 0 \<le> answer i"
    and "0 < max_packet_size usb" and "list_all accepted ts"
    and "concat (stream_chunks (max_packet_size usb) ts) = concat (map encode_frame fs)"
    and "list_all frame_ok fs" and "list_all (quiet (cha_reg (ov_cha (obj s1)))) fs"
    and "concat (map frame_payload fs) = concat (map encode_item items)"
    and "list_all item_ok items" and "ends_with_data items"
    and "ps = packets_of 0 (pk_data p) items" and "list_all not_last ps"
    and "st h = FILTER_STATE_DEFAULT" and "queue h = []"
    and "reliable (out h)" and "debug_ok h" and "clocked base h" and "in_order base (last_ov_ts h) ps"
  shows "\<exists>l d. run_transfers usb ts (loop_begun usb answer 0 (loop_of (obj s1))) = Some l \<and>
    lp_state (loop_data l) = RUNNING \<and>
    ov_capture_dispatch usb answer 0 (obj s1) (Inr (- 2)) d \<and>
    lp_user (loop_data (ov_loop d)) = lp_user (loop_data l) \<and>
    f_content (out (handler_end (lp_user (loop_data (ov_loop d))))) = f_content (out h) @
      records (kept (filter_naks h) (filter_sofs h) False (usb_packets base ps))"
proof -
  let ?l0 = "loop_begun usb answer 0 (loop_of (obj s1))"
  note start = started_loop(1-6) [OF assms(1-4), where usb = usb]
  obtain l where l: "run_transfers usb ts ?l0 = Some l" "lp_state (loop_data l) = RUNNING"
      "f_content (out (discard_queued_packets (lp_user (loop_data l)))) = f_content (out h) @
        records (kept (filter_naks h) (filter_sofs h) False (usb_packets base ps))"
    using transfers_to_records [OF start(1,2) _ assms(5-8) _ assms(10-12) _ assms(14) _ assms(15-20)]
      start(3-6) assms(9,13) by auto
  have reach: "loop_reaches usb ?l0 l"
    by (rule run_transfers_reaches [OF l(1)])
  have inv: "loop_inv l"
    using loop_reaches_keeps(1) [OF reach] start(1) by (simp add: fresh_loop_def)
  note b = running_broken [OF inv l(2)]
  have "loop_reaches usb ?l0 (broken l)"
    using rtranclp_trans [OF reach [unfolded loop_reaches_def] b(1) [unfolded loop_reaches_def]]
    by (simp add: loop_reaches_def)
  then have "cha_loop_run usb answer 0 (loop_of (obj s1)) (Inr (- 2)) (broken l)"
    using cha_loop_run.run_loop [of "loop_of (obj s1)" usb answer 0 "broken l"] b(2,3)
      started_loop(7) [OF assms(1-4)] by (simp add: loop_begun_def)
  then have "ov_capture_dispatch usb answer 0 (obj s1) (Inr (- 2)) (put_loop (broken l) (obj s1))"
    using ov_capture_dispatch.dispatch by fastforce
  then show ?thesis
    using l b(4) by (intro exI [of _ l] exI [of _ "put_loop (broken l) (obj s1)"])
      (simp add: put_loop_def handler_end_def close_files_def close_file_def)
qed

text \<open>The example stream on the example device, after a start with an empty structure.\<close>

theorem session_end_to_end_witness:
  "\<exists>null s1 l d. ov_capture_start fpga_env example_packet 8203 (Some packet_handler) example_handler
      \<lparr>obj = ov_zero null, hist = []\<rparr> = Some (Inr (), s1) \<and>
     run_transfers example_usb example_transfers (loop_begun example_usb (\<lambda>_. 0) 0 (loop_of (obj s1))) = Some l \<and>
     ov_capture_dispatch example_usb (\<lambda>_. 0) 0 (obj s1) (Inr (- 2)) d \<and>
     f_content (out (handler_end (lp_user (loop_data (ov_loop d))))) =
       records [stamp test_base (decoded test_packet 0 (pk_data example_packet))]"
proof -
  let ?s = "\<lparr>obj = ov_zero example_handler, hist = []\<rparr>"
  obtain s1 where s1: "ov_capture_start fpga_env example_packet 8203 (Some packet_handler) example_handler ?s =
      Some (Inr (), s1)"
    using fpga_capture_start [where p = example_packet and n = 8203 and f = "Some packet_handler" and u = example_handler]
    unfolding succeeds_def by auto
  have sizes: "8191 \<le> length (pk_data example_packet)" "(0 :: nat) < 8203" "\<forall>i<3. 0 \<le> (\<lambda>_ :: nat. 0 :: int) i"
    by (simp_all add: example_packet_def)
  have usb: "max_packet_size example_usb = 512"
    by (simp add: example_usb_def)
  have quiet: "list_all (quiet (cha_reg (ov_cha (obj s1)))) example_frames"
    using ov_capture_start_run(4) [OF s1] by (intro example_frames_quiet) (simp add: ov_zero_def Let_def)
  obtain ps where ps: "ps = packets_of 0 (pk_data example_packet) [Pkt test_packet]"
    by simp
  note p = example_packets [OF ps]
  have stream: "concat (stream_chunks (max_packet_size example_usb) example_transfers) = concat (map encode_frame example_frames)"
    "0 < max_packet_size example_usb"
    by (simp_all only: usb example_stream(2))
  show ?thesis
    using session_end_to_end [OF s1 sizes stream(2) example_stream(1) stream(1) example_stream(3) quiet example_stream(4-6)
        ps p(1) example_handler_fields(1-5)] s1 p(2,3) example_handler_fields(6-9) by auto
qed

end
